(* ===== verification/Takuhai_Prelude.thy ===== *)
theory Takuhai_Prelude
  imports Main "HOL-Library.Word" "HOL-Library.Sublist" "HOL-Library.Char_ord"
    "HOL-Library.List_Lexorder" "HOL-Library.Product_Lexorder"
begin

text \<open>
  The prelude of the development: the Go types and standard-library routines that several
  components use, and the generic lemmas they share.

  \<^item> Go's 64-bit \<open>int\<close> and \<open>time.Duration\<close> are integers; an arithmetic operation whose
    result can leave the range is wrapped by \<open>s64\<close> (two's complement).
  \<^item> A Go string is a byte sequence: \<^typ>\<open>string\<close>, one \<^typ>\<open>char\<close> per byte.
    \<open>strings.TrimSpace\<close>, \<open>Index\<close>, \<open>Cut\<close>, \<open>ToLower\<close>, \<open>strconv.Itoa\<close> and
    \<open>Atoi\<close> are modelled byte for byte.
  \<^item> A \<open>time.Time\<close> is its instant, the integer count of nanoseconds since the Unix epoch;
    the zero time (year 1) is the instant \<open>zero_time\<close>.
  \<^item> A \<open>float64\<close> that the code only stores and copies is its 64-bit pattern.
\<close>

named_theorems go_simps "evaluation of the Go library routines"
named_theorems canonical_intros "rules that derive the canonical infohash shape"

section \<open>Integers\<close>

definition max_int64 :: int where
  "max_int64 = 9223372036854775807"

definition s64 :: "int \<Rightarrow> int" where
  "s64 x = (x + 9223372036854775808) mod 18446744073709551616 - 9223372036854775808"

definition in_int64 :: "int \<Rightarrow> bool" where
  "in_int64 x \<longleftrightarrow> - 9223372036854775808 \<le> x \<and> x \<le> 9223372036854775807"

lemma s64_range: "in_int64 (s64 x)"
  unfolding s64_def in_int64_def by (simp add: pos_mod_bound [THEN order.strict_implies_order])

lemma s64_id [simp]: "in_int64 x \<Longrightarrow> s64 x = x"
  by (simp add: s64_def in_int64_def)

lemma s64_s64 [simp]: "s64 (s64 x) = s64 x"
  by (simp add: s64_range)

lemma s64_add: "s64 (s64 x + y) = s64 (x + y)"
proof -
  let ?M = "18446744073709551616 :: int" and ?H = "9223372036854775808 :: int"
  have "s64 x = x + ?M * (- ((x + ?H) div ?M))"
    using minus_mult_div_eq_mod [of "x + ?H" ?M] by (simp add: s64_def)
  then have "s64 x + y + ?H = (x + y + ?H) + ?M * (- ((x + ?H) div ?M))" by simp
  then have "(s64 x + y + ?H) mod ?M = (x + y + ?H) mod ?M" by (simp only: mod_mult_self2)
  then show ?thesis by (simp add: s64_def)
qed

section \<open>Time and floating point\<close>

type_synonym time = int
type_synonym duration = int
type_synonym float64 = "64 word"
type_synonym byte = "8 word"

definition zero_time :: time where
  "zero_time = - 62135596800000000000"

definition time_Add :: "time \<Rightarrow> duration \<Rightarrow> time" where
  "time_Add t d = t + d"

definition time_Second :: duration where
  "time_Second = 1000000000"

section \<open>Strings\<close>

text \<open>
  The white space of \<open>unicode.IsSpace\<close>, each rune by its UTF-8 encoding: the six ASCII
  characters, U+0085, U+00A0, U+1680, U+2000 to U+200A, U+2028, U+2029, U+202F, U+205F
  and U+3000.
\<close>

definition space_seqs :: "string list" where
  "space_seqs =
     [[CHR 0x09], [CHR 0x0A], [CHR 0x0B], [CHR 0x0C], [CHR 0x0D], [CHR 0x20],
      [CHR 0xC2, CHR 0x85], [CHR 0xC2, CHR 0xA0], [CHR 0xE1, CHR 0x9A, CHR 0x80],
      [CHR 0xE2, CHR 0x80, CHR 0x80], [CHR 0xE2, CHR 0x80, CHR 0x81],
      [CHR 0xE2, CHR 0x80, CHR 0x82], [CHR 0xE2, CHR 0x80, CHR 0x83],
      [CHR 0xE2, CHR 0x80, CHR 0x84], [CHR 0xE2, CHR 0x80, CHR 0x85],
      [CHR 0xE2, CHR 0x80, CHR 0x86], [CHR 0xE2, CHR 0x80, CHR 0x87],
      [CHR 0xE2, CHR 0x80, CHR 0x88], [CHR 0xE2, CHR 0x80, CHR 0x89],
      [CHR 0xE2, CHR 0x80, CHR 0x8A], [CHR 0xE2, CHR 0x80, CHR 0xA8],
      [CHR 0xE2, CHR 0x80, CHR 0xA9], [CHR 0xE2, CHR 0x80, CHR 0xAF],
      [CHR 0xE2, CHR 0x81, CHR 0x9F], [CHR 0xE3, CHR 0x80, CHR 0x80]]"

definition strip_seq :: "string list \<Rightarrow> string \<Rightarrow> string option" where
  "strip_seq qs s =
     (case find (\<lambda>q. q \<noteq> [] \<and> prefix q s) qs of
        None \<Rightarrow> None
      | Some q \<Rightarrow> Some (drop (length q) s))"

lemma strip_seq_shorter: "strip_seq qs s = Some s' \<Longrightarrow> length s' < length s"
  by (auto simp: strip_seq_def find_Some_iff prefix_def split: option.splits)

function strip_seqs :: "string list \<Rightarrow> string \<Rightarrow> string" where
  "strip_seqs qs s =
     (case strip_seq qs s of None \<Rightarrow> s | Some s' \<Rightarrow> strip_seqs qs s')"
  by pat_completeness auto
termination
  by (relation "measure (\<lambda>(qs, s). length s)") (auto dest: strip_seq_shorter)

declare strip_seqs.simps [simp del]

definition trim_left :: "string \<Rightarrow> string" where
  "trim_left s = strip_seqs space_seqs s"

definition trim_right :: "string \<Rightarrow> string" where
  "trim_right s = rev (strip_seqs (map rev space_seqs) (rev s))"

definition trim_space :: "string \<Rightarrow> string" where
  "trim_space s = trim_right (trim_left s)"

text \<open>\<open>strings.Fields\<close>: the parts between runs of white space.\<close>

definition field_end :: "string \<Rightarrow> string list" where
  "field_end acc = (if acc = [] then [] else [rev acc])"

function fields_from :: "string \<Rightarrow> string \<Rightarrow> string list" where
  "fields_from acc s =
     (case strip_seq space_seqs s of
        Some s' \<Rightarrow> field_end acc @ fields_from [] s'
      | None \<Rightarrow> (case s of [] \<Rightarrow> field_end acc | c # t \<Rightarrow> fields_from (c # acc) t))"
  by pat_completeness auto
termination
  by (relation "measure (\<lambda>(acc, s). length s)") (auto dest: strip_seq_shorter)

declare fields_from.simps [simp del]

definition str_fields :: "string \<Rightarrow> string list" where
  "str_fields s = fields_from [] s"

text \<open>\<open>strings.Index\<close>: the position of the first occurrence.\<close>

fun str_index :: "string \<Rightarrow> string \<Rightarrow> nat option" where
  "str_index [] p = (if p = [] then Some 0 else None)"
| "str_index (c # cs) p =
     (if prefix p (c # cs) then Some 0 else map_option Suc (str_index cs p))"

definition str_contains :: "string \<Rightarrow> string \<Rightarrow> bool" where
  "str_contains s p \<longleftrightarrow> str_index s p \<noteq> None"

fun index_byte :: "string \<Rightarrow> char \<Rightarrow> nat option" where
  "index_byte [] b = None"
| "index_byte (c # cs) b = (if c = b then Some 0 else map_option Suc (index_byte cs b))"

text \<open>\<open>strings.Cut\<close> at a one-byte separator.\<close>

definition str_cut :: "string \<Rightarrow> char \<Rightarrow> (string \<times> string) option" where
  "str_cut s b =
     (case index_byte s b of
        None \<Rightarrow> None
      | Some i \<Rightarrow> Some (take i s, drop (Suc i) s))"

definition trim_prefix :: "string \<Rightarrow> string \<Rightarrow> string" where
  "trim_prefix p s = (if prefix p s then drop (length p) s else s)"

definition byte_of :: "char \<Rightarrow> nat" where
  "byte_of c = of_char c"

definition is_digit :: "char \<Rightarrow> bool" where
  "is_digit c \<longleftrightarrow> 48 \<le> byte_of c \<and> byte_of c \<le> 57"

definition is_lower :: "char \<Rightarrow> bool" where
  "is_lower c \<longleftrightarrow> 97 \<le> byte_of c \<and> byte_of c \<le> 122"

definition is_upper :: "char \<Rightarrow> bool" where
  "is_upper c \<longleftrightarrow> 65 \<le> byte_of c \<and> byte_of c \<le> 90"

definition letter :: "char \<Rightarrow> bool" where
  "letter c \<longleftrightarrow> is_lower c \<or> is_upper c"

definition char_lower :: "char \<Rightarrow> char" where
  "char_lower c = (if is_upper c then char_of (byte_of c + 32) else c)"

definition char_upper :: "char \<Rightarrow> char" where
  "char_upper c = (if is_lower c then char_of (byte_of c - 32) else c)"

text \<open>\<open>strings.ToLower\<close> and \<open>ToUpper\<close> on ASCII bytes; other bytes are kept.\<close>

definition to_lower :: "string \<Rightarrow> string" where
  "to_lower s = map char_lower s"

definition to_upper :: "string \<Rightarrow> string" where
  "to_upper s = map char_upper s"

section \<open>Decimal numbers\<close>

definition digit_char :: "nat \<Rightarrow> char" where
  "digit_char d = char_of (48 + d)"

definition digit_val :: "char \<Rightarrow> nat" where
  "digit_val c = byte_of c - 48"

fun nat_digits :: "nat \<Rightarrow> string" where
  "nat_digits n =
     (if n < 10 then [digit_char n] else nat_digits (n div 10) @ [digit_char (n mod 10)])"

declare nat_digits.simps [simp del]

definition itoa :: "int \<Rightarrow> string" where
  "itoa i = (if i < 0 then CHR ''-'' # nat_digits (nat (- i)) else nat_digits (nat i))"

definition digits_val :: "string \<Rightarrow> nat" where
  "digits_val s = foldl (\<lambda>n c. n * 10 + digit_val c) 0 s"

definition split_sign :: "string \<Rightarrow> bool \<times> string" where
  "split_sign s =
     (case s of
        [] \<Rightarrow> (False, [])
      | c # cs \<Rightarrow> if c = CHR ''-'' then (True, cs)
                 else if c = CHR ''+'' then (False, cs) else (False, s))"

text \<open>\<open>strconv.Atoi\<close>: an optional sign, at least one digit, nothing else, and in range.\<close>

definition atoi :: "string \<Rightarrow> int option" where
  "atoi s =
     (let (neg, ds) = split_sign s;
          n = int (digits_val ds);
          v = (if neg then - n else n)
      in if ds = [] \<or> \<not> list_all is_digit ds then None
         else if in_int64 v then Some v else None)"

text \<open>A character that no white-space encoding contains: trimming stops at it.\<close>

definition solid :: "char \<Rightarrow> bool" where
  "solid c \<longleftrightarrow> (\<forall>q \<in> set space_seqs. c \<notin> set q)"

section \<open>Lemmas: bytes and decimal numbers\<close>

lemma byte_of_bound [simp]: "byte_of c < 256"
  by (simp add: byte_of_def)

lemma byte_of_char_of [simp]: "n < 256 \<Longrightarrow> byte_of (char_of n) = n"
  by (simp add: byte_of_def)

lemma char_of_byte_of [simp]: "char_of (byte_of c) = c"
  by (simp add: byte_of_def)

lemma byte_of_inject [simp]: "byte_of c = byte_of d \<longleftrightarrow> c = d"
  by (metis char_of_byte_of)

lemma byte_of_digit_char [simp]: "d < 10 \<Longrightarrow> byte_of (digit_char d) = 48 + d"
  by (simp add: digit_char_def)

lemma is_digit_digit_char [simp]: "d < 10 \<Longrightarrow> is_digit (digit_char d)"
  by (simp add: is_digit_def)

lemma digit_val_digit_char [simp]: "d < 10 \<Longrightarrow> digit_val (digit_char d) = d"
  by (simp add: digit_val_def)

lemma digits_val_snoc [simp]: "digits_val (s @ [c]) = digits_val s * 10 + digit_val c"
  by (simp add: digits_val_def)

lemma nat_digits_ne [simp]: "nat_digits n \<noteq> []"
  by (subst nat_digits.simps) simp

lemma nat_digits_digits [simp]: "list_all is_digit (nat_digits n)"
proof (induction n rule: nat_digits.induct)
  case (1 n)
  then show ?case
    by (cases "n < 10") (simp_all add: nat_digits.simps [of n])
qed

lemma digits_val_nat_digits [simp]: "digits_val (nat_digits n) = n"
proof (induction n rule: nat_digits.induct)
  case (1 n)
  show ?case
  proof (cases "n < 10")
    case True
    then show ?thesis by (simp add: nat_digits.simps [of n] digits_val_def)
  next
    case False
    with 1 show ?thesis by (simp add: nat_digits.simps [of n])
  qed
qed

lemma is_digit_not_sign:
  "is_digit c \<Longrightarrow> c \<noteq> CHR ''-'' \<and> c \<noteq> CHR ''+'' \<and> c \<noteq> CHR '':''"
  by (auto simp: is_digit_def byte_of_def)

lemma nat_digits_head: "\<exists>c cs. nat_digits n = c # cs \<and> is_digit c"
  using nat_digits_digits [of n] nat_digits_ne [of n] by (cases "nat_digits n") auto

lemma atoi_nat_digits:
  assumes "int n \<le> 9223372036854775807"
  shows "atoi (nat_digits n) = Some (int n)"
proof -
  have "split_sign (nat_digits n) = (False, nat_digits n)"
    using nat_digits_head [of n] is_digit_not_sign by (auto simp: split_sign_def)
  then show ?thesis using assms by (simp add: atoi_def in_int64_def)
qed

lemma atoi_itoa: "in_int64 i \<Longrightarrow> atoi (itoa i) = Some i"
  using nat_digits_digits [of "nat (- i)"]
  by (cases "i < 0")
     (auto simp: itoa_def atoi_nat_digits in_int64_def,
      simp add: atoi_def split_sign_def in_int64_def)

lemma itoa_no_colon: "CHR '':'' \<notin> set (itoa i)"
  using nat_digits_digits [of "nat i"] nat_digits_digits [of "nat (- i)"] is_digit_not_sign
  by (auto simp: itoa_def list_all_iff)

lemma atoi_in_int64: "atoi s = Some i \<Longrightarrow> in_int64 i"
  by (auto simp: atoi_def Let_def split: prod.splits if_splits)

section \<open>Lemmas: searching and trimming strings\<close>

lemma index_byte_append [simp]:
  "b \<notin> set u \<Longrightarrow> index_byte (u @ b # v) b = Some (length u)"
  by (induction u) auto

lemma index_byte_None [simp]: "index_byte s b = None \<longleftrightarrow> b \<notin> set s"
  by (induction s) auto

lemma str_cut_append: "b \<notin> set u \<Longrightarrow> str_cut (u @ b # v) b = Some (u, v)"
  by (simp add: str_cut_def)

lemma index_byte_Some: "index_byte s b = Some i \<Longrightarrow> i < length s \<and> s ! i = b \<and> b \<notin> set (take i s)"
  by (induction s arbitrary: i) (auto split: if_splits)

lemma str_index_self: "str_index (p @ v) p = Some 0"
  using prefixI [of "p @ v" p v] by (cases "p @ v") auto

lemma str_index_prefix:
  "str_index s p = Some i \<Longrightarrow> prefix p (drop i s) \<and> i + length p \<le> length s"
proof (induction s arbitrary: i)
  case Nil
  then show ?case by (auto split: if_splits)
next
  case (Cons c s)
  then show ?case
    by (auto split: if_splits dest: prefix_length_le)
qed

lemma str_index_leftmost:
  "str_index s p = Some i \<Longrightarrow> j < i \<Longrightarrow> \<not> prefix p (drop j s)"
proof (induction s arbitrary: i j)
  case Nil
  then show ?case by (auto split: if_splits)
next
  case (Cons c s)
  then show ?case
    by (cases j) (auto split: if_splits)
qed

lemma str_index_None:
  "str_index s p = None \<longleftrightarrow> \<not> sublist p s"
  by (induction s) (auto simp: sublist_Cons_right)

lemma str_contains_iff: "str_contains s p \<longleftrightarrow> sublist p s"
  using str_index_None [of s p] by (auto simp: str_contains_def)

lemma solid_ascii: "33 \<le> byte_of c \<Longrightarrow> byte_of c < 128 \<Longrightarrow> solid c"
  by (auto simp: solid_def space_seqs_def byte_of_def)

lemma find_SomeD: "find P xs = Some x \<Longrightarrow> P x \<and> x \<in> set xs"
  by (auto simp: find_Some_iff)

lemma strip_seq_solid:
  assumes "\<And>q. q \<in> set qs \<Longrightarrow> c \<notin> set q"
  shows "strip_seq qs (u @ c # v) = map_option (\<lambda>w. w @ c # v) (strip_seq qs u)"
proof -
  have "prefix q (u @ c # v) \<longleftrightarrow> prefix q u" if "q \<in> set qs" for q
    using assms [OF that] by (auto simp: prefix_append prefix_Cons)
  then have *: "find (\<lambda>q. q \<noteq> [] \<and> prefix q (u @ c # v)) qs = find (\<lambda>q. q \<noteq> [] \<and> prefix q u) qs"
    by (intro find_cong) auto
  show ?thesis
  proof (cases "find (\<lambda>q. q \<noteq> [] \<and> prefix q u) qs")
    case None
    with * show ?thesis by (simp add: strip_seq_def)
  next
    case (Some q)
    from find_SomeD [OF this] have "length q \<le> length u" by (auto dest: prefix_length_le)
    with * Some show ?thesis by (simp add: strip_seq_def)
  qed
qed

lemma strip_seqs_solid:
  assumes "\<And>q. q \<in> set qs \<Longrightarrow> c \<notin> set q"
  shows "strip_seqs qs (u @ c # v) = strip_seqs qs u @ c # v"
  using assms
proof (induction qs u rule: strip_seqs.induct)
  case (1 qs u)
  then show ?case
    by (cases "strip_seq qs u")
       (simp_all add: strip_seqs.simps [of qs u] strip_seqs.simps [of qs "u @ c # v"] strip_seq_solid)
qed

lemma strip_seqs_suffix: "suffix (strip_seqs qs s) s"
proof (induction qs s rule: strip_seqs.induct)
  case (1 qs s)
  show ?case
  proof (cases "strip_seq qs s")
    case None
    then show ?thesis by (simp add: strip_seqs.simps)
  next
    case (Some s')
    then have "suffix s' s"
      by (auto simp: strip_seq_def suffix_drop split: option.splits)
    with 1 Some show ?thesis by (auto simp: strip_seqs.simps [of qs s] intro: suffix_order.order_trans)
  qed
qed

lemma trim_space_sublist: "sublist (trim_space s) s"
proof -
  have "suffix (trim_left s) s" by (simp add: trim_left_def strip_seqs_suffix)
  moreover have "prefix (trim_right u) u" for u
    using strip_seqs_suffix [of "map rev space_seqs" "rev u"] by (simp add: trim_right_def suffix_to_prefix)
  ultimately show ?thesis
    unfolding trim_space_def by (meson prefix_imp_sublist sublist_order.order_trans suffix_imp_sublist)
qed

lemma strip_seqs_Nil [simp]: "strip_seqs qs [] = []"
  using strip_seq_shorter [of qs "[]"]
  by (subst strip_seqs.simps) (auto split: option.splits)

lemma trim_left_solid: "solid c \<Longrightarrow> trim_left (c # v) = c # v"
  using strip_seqs_solid [of space_seqs c "[]" v] by (simp add: trim_left_def solid_def)

lemma trim_right_solid:
  assumes "solid c"
  shows "trim_right (u @ c # v) = u @ c # trim_right v"
proof -
  have "\<And>q. q \<in> set (map rev space_seqs) \<Longrightarrow> c \<notin> set q"
    using assms by (auto simp: solid_def)
  from strip_seqs_solid [OF this, of "map rev space_seqs" "rev v" "rev u"]
  show ?thesis by (simp add: trim_right_def)
qed

lemma trim_right_Nil [simp]: "trim_right [] = []"
  by (simp add: trim_right_def)

lemma trim_space_solid_between:
  assumes "solid c" and "solid d"
  shows "trim_space (c # u @ d # v) = c # u @ d # trim_right v"
  using trim_left_solid [OF assms(1)] trim_right_solid [OF assms(2), of "c # u" v]
  by (simp add: trim_space_def)

lemma fields_from_solid: "list_all solid u \<Longrightarrow> fields_from acc (u @ s) = fields_from (rev u @ acc) s"
proof (induction u arbitrary: acc)
  case (Cons c u)
  then have "strip_seq space_seqs (c # u @ s) = None"
    by (auto simp: strip_seq_def solid_def find_None_iff prefix_def Cons_eq_append_conv split: option.split)
  with Cons show ?case by (simp add: fields_from.simps [of acc "c # u @ s"])
qed simp

text \<open>Two words and a blank between them.\<close>

lemma str_fields_two:
  assumes "list_all solid u" "u \<noteq> []" "list_all solid v" "v \<noteq> []"
  shows "str_fields (u @ '' '' @ v) = [u, v]"
proof -
  have "strip_seq space_seqs ('' '' @ v) = Some v"
    by (simp add: strip_seq_def space_seqs_def)
  moreover have "fields_from (rev v) [] = [v]"
    using assms(4) by (simp add: fields_from.simps [of "rev v"] field_end_def strip_seq_def split: option.split)
       (auto simp: find_Some_iff)
  then have "fields_from [] v = [v]" using fields_from_solid [OF assms(3), of "[]" "[]"] by simp
  ultimately show ?thesis
    using fields_from_solid [OF assms(1), of "[]" "'' '' @ v"] assms(2)
    by (simp add: str_fields_def fields_from.simps [of "rev u"] field_end_def)
qed

lemma trim_space_all_solid: "list_all solid s \<Longrightarrow> trim_space s = s"
proof (cases s rule: rev_cases)
  case (snoc u d)
  moreover assume "list_all solid s"
  ultimately show ?thesis
    using trim_right_solid [of d u "[]"] by (cases u) (auto simp: trim_space_def trim_left_solid)
qed (simp add: trim_space_def trim_left_def)

end
