(* ===== verification/Floating.thy ===== *)
theory Floating
  imports Takuhai_Prelude "HOL-Library.Log_Nat" "HOL-Library.Word"
begin

text \<open>
  The float64 arithmetic of the size parsers: \<open>strconv.ParseFloat\<close>, a product, \<open>math.Round\<close> and
  the conversion to \<open>int64\<close>. A finite float64 is a sign and a pair of a mantissa and an exponent
  of two; every operation rounds the exact quotient to the nearest representable number, ties to
  even.
\<close>

section \<open>Definitions\<close>

type_synonym fl = "int \<times> int"

definition round_half_even :: "int \<Rightarrow> int \<Rightarrow> int" where
  "round_half_even a b =
     (let q = a div b; r = a mod b
      in if b < 2 * r \<or> 2 * r = b \<and> odd q then q + 1 else q)"

text \<open>The quotient \<open>n / d\<close> over \<open>2 ^ e\<close>, as a fraction of integers.\<close>

definition scaled :: "int \<Rightarrow> int \<Rightarrow> int \<Rightarrow> int \<times> int" where
  "scaled n d e = (if 0 \<le> e then (n, d * 2 ^ nat e) else (n * 2 ^ nat (- e), d))"

text \<open>The exponent of the leading bit of \<open>n / d\<close>.\<close>

definition lead :: "int \<Rightarrow> int \<Rightarrow> int" where
  "lead n d =
     (let e = bitlen n - bitlen d; (a, b) = scaled n d e
      in if b \<le> a then e else e - 1)"

definition round_to_float :: "int \<Rightarrow> int \<Rightarrow> fl" where
  "round_to_float n d =
     (if n = 0 then (0, 0)
      else let e = max (lead n d - 52) (-1074); (a, b) = scaled n d e
           in (round_half_even a b, e))"

definition is_inf :: "fl \<Rightarrow> bool" where
  "is_inf x \<longleftrightarrow> (case x of (m, e) \<Rightarrow> (case scaled m 1 (- e) of (a, b) \<Rightarrow> 2 ^ 1024 * b \<le> a))"

subsection \<open>Reading a number\<close>

datatype float_val = Fin bool fl | Infinite bool | NaN

text \<open>
  The mantissa of \<open>readFloat\<close>: digits, hexadecimal ones after a prefix, underscores and one point.
  The result is the digits before and after the point, and the rest of the text.
\<close>

definition hex_letter :: "char \<Rightarrow> bool" where
  "hex_letter c \<longleftrightarrow> 97 \<le> byte_of (char_lower c) \<and> byte_of (char_lower c) \<le> 102"

fun mantissa :: "bool \<Rightarrow> bool \<Rightarrow> string \<Rightarrow> string \<Rightarrow> string \<Rightarrow> string \<times> string \<times> string" where
  "mantissa hex sawdot ip fp [] = (ip, fp, [])"
| "mantissa hex sawdot ip fp (c # s) =
     (if c = CHR ''_'' then mantissa hex sawdot ip fp s
      else if c = CHR ''.'' then (if sawdot then (ip, fp, c # s) else mantissa hex True ip fp s)
      else if is_digit c \<or> hex \<and> hex_letter c
      then (if sawdot then mantissa hex sawdot ip (fp @ [c]) s else mantissa hex sawdot (ip @ [c]) fp s)
      else (ip, fp, c # s))"

fun exp_digits :: "int \<Rightarrow> string \<Rightarrow> int \<times> string" where
  "exp_digits e [] = (e, [])"
| "exp_digits e (c # s) =
     (if is_digit c then exp_digits (if e < 10000 then e * 10 + int (digit_val c) else e) s
      else if c = CHR ''_'' then exp_digits e s else (e, c # s))"

definition exponent :: "char \<Rightarrow> string \<Rightarrow> (int \<times> string) option" where
  "exponent expChar s =
     (case s of
        [] \<Rightarrow> Some (0, [])
      | c # r \<Rightarrow>
          if char_lower c \<noteq> expChar then Some (0, s)
          else (let (esign, r') = (case r of
                      d # r1 \<Rightarrow> if d = CHR ''+'' then (1, r1) else if d = CHR ''-'' then (-1, r1) else (1, r)
                    | [] \<Rightarrow> (1, r))
                in case r' of
                     [] \<Rightarrow> None
                   | d # _ \<Rightarrow> if is_digit d then (case exp_digits 0 r' of (e, rest) \<Rightarrow> Some (e * esign, rest)) else None))"

text \<open>\<open>underscoreOK\<close>: an underscore stands between digits, or between a base prefix and a digit.\<close>

fun underscore_run :: "bool \<Rightarrow> char \<Rightarrow> string \<Rightarrow> bool" where
  "underscore_run hex saw [] \<longleftrightarrow> saw \<noteq> CHR ''_''"
| "underscore_run hex saw (c # s) \<longleftrightarrow>
     (if is_digit c \<or> hex \<and> hex_letter c then underscore_run hex (CHR ''0'') s
      else if c = CHR ''_'' then saw = CHR ''0'' \<and> underscore_run hex (CHR ''_'') s
      else saw \<noteq> CHR ''_'' \<and> underscore_run hex (CHR ''!'') s)"

definition unsigned :: "string \<Rightarrow> bool \<times> string" where
  "unsigned s =
     (case s of
        [] \<Rightarrow> (False, [])
      | c # r \<Rightarrow> if c = CHR ''+'' then (False, r) else if c = CHR ''-'' then (True, r) else (False, s))"

definition underscore_ok :: "string \<Rightarrow> bool" where
  "underscore_ok s =
     (let r = snd (unsigned s)
      in case r of
           z # b # r' \<Rightarrow>
             if z = CHR ''0'' \<and> char_lower b \<in> set ''box''
             then underscore_run (char_lower b = CHR ''x'') (CHR ''0'') r'
             else underscore_run False (CHR ''^'') r
         | _ \<Rightarrow> underscore_run False (CHR ''^'') r)"

definition digit_value :: "char \<Rightarrow> int" where
  "digit_value c = (if is_digit c then int (digit_val c) else int (byte_of (char_lower c)) - 87)"

definition digits_value :: "int \<Rightarrow> string \<Rightarrow> int" where
  "digits_value base s = foldl (\<lambda>n c. n * base + digit_value c) 0 s"

definition ratio :: "int \<Rightarrow> int \<Rightarrow> int \<Rightarrow> int \<times> int" where
  "ratio n base e = (if 0 \<le> e then (n * base ^ nat e, 1) else (n, base ^ nat (- e)))"

text \<open>\<open>readFloat\<close> on the whole text: the sign and the exact value, as a fraction.\<close>

definition readFloat :: "string \<Rightarrow> (bool \<times> int \<times> int) option" where
  "readFloat s =
     (let (neg, r) = unsigned s;
          hex = (case r of z # x # _ # _ \<Rightarrow> z = CHR ''0'' \<and> char_lower x = CHR ''x'' | _ \<Rightarrow> False);
          (ip, fp, rest) = mantissa hex False [] [] (if hex then drop 2 r else r)
      in if ip @ fp = [] then None
         else if hex \<and> (case rest of [] \<Rightarrow> True | c # _ \<Rightarrow> char_lower c \<noteq> CHR ''p'') then None
         else case exponent (if hex then CHR ''p'' else CHR ''e'') rest of
           None \<Rightarrow> None
         | Some (e, rest') \<Rightarrow>
             if rest' \<noteq> [] \<or> CHR ''_'' \<in> set s \<and> \<not> underscore_ok s then None
             else Some (neg, if hex then ratio (digits_value 16 (ip @ fp)) 2 (e - 4 * int (length fp))
                             else ratio (digits_value 10 (ip @ fp)) 10 (e - int (length fp))))"

definition special_value :: "string \<Rightarrow> float_val option" where
  "special_value s =
     (let l = to_lower s
      in if l \<in> {''inf'', ''infinity'', ''+inf'', ''+infinity''} then Some (Infinite False)
         else if l \<in> {''-inf'', ''-infinity''} then Some (Infinite True)
         else if l = ''nan'' then Some NaN
         else None)"

text \<open>Every error, of the syntax or of the range, is \<open>None\<close>.\<close>

definition ParseFloat :: "string \<Rightarrow> float_val option" where
  "ParseFloat s =
     (case special_value s of
        Some v \<Rightarrow> Some v
      | None \<Rightarrow>
          (case readFloat s of
             None \<Rightarrow> None
           | Some (neg, n, d) \<Rightarrow> (let x = round_to_float n d in if is_inf x then None else Some (Fin neg x))))"

subsection \<open>Arithmetic\<close>

text \<open>The product with a factor that float64 represents exactly.\<close>

definition fl_times :: "fl \<Rightarrow> int \<Rightarrow> fl" where
  "fl_times x k = (case x of (m, e) \<Rightarrow> (case scaled (m * k) 1 (- e) of (a, b) \<Rightarrow> round_to_float a b))"

definition fl_mult :: "fl \<Rightarrow> fl \<Rightarrow> fl" where
  "fl_mult x y = (case scaled (fst x * fst y) 1 (- (snd x + snd y)) of (a, b) \<Rightarrow> round_to_float a b)"

text \<open>The conversion of a number that is not negative to an integer drops the fraction.\<close>

definition fl_trunc :: "fl \<Rightarrow> int" where
  "fl_trunc x = (case scaled (fst x) 1 (- snd x) of (a, b) \<Rightarrow> a div b)"

definition math_Round :: "fl \<Rightarrow> int" where
  "math_Round x = (case x of (m, e) \<Rightarrow> (case scaled m 1 (- e) of (a, b) \<Rightarrow> (2 * a + b) div (2 * b)))"

text \<open>
  \<open>int64(math.Round(n * mult))\<close> of a number that is not negative. A value out of range, and NaN,
  convert to something the platform chooses.
\<close>

type_synonym platform = "bool \<Rightarrow> int"

definition scaled_int64 :: "platform \<Rightarrow> float_val \<Rightarrow> int \<Rightarrow> int" where
  "scaled_int64 plat v mult =
     (case v of
        Fin neg x \<Rightarrow> (let r = math_Round (fl_times x mult) in if r \<le> max_int64 then (if neg then - r else r) else plat False)
      | Infinite _ \<Rightarrow> plat False
      | NaN \<Rightarrow> plat True)"

text \<open>
  The bits of a float64. A mantissa that was rounded up to \<open>2 ^ 53\<close> is the next power of two; the
  one NaN that \<open>ParseFloat\<close> returns is \<open>math.NaN()\<close>.
\<close>

definition float_bits :: "float_val \<Rightarrow> 64 word" where
  "float_bits v =
     (case v of
        NaN \<Rightarrow> 0x7FF8000000000001
      | Infinite neg \<Rightarrow> (if neg then 0xFFF0000000000000 else 0x7FF0000000000000)
      | Fin neg (m0, e0) \<Rightarrow>
          (let (m, e) = (if m0 = 2 ^ 53 then (2 ^ 52, e0 + 1) else (m0, e0))
           in word_of_int ((if neg then 2 ^ 63 else 0) + (if m < 2 ^ 52 then m else (e + 1075) * 2 ^ 52 + (m - 2 ^ 52)))))"

definition fl_val :: "fl \<Rightarrow> real" where
  "fl_val x = of_int (fst x) * 2 powi snd x"

definition unit_roundoff :: real where
  "unit_roundoff = 1 / 2 ^ 53"

section \<open>Lemmas\<close>

lemma scaled_val:
  assumes "0 < d" and "scaled n d e = (a, b)"
  shows "0 < b" "real_of_int a / real_of_int b = real_of_int n / real_of_int d / 2 powi e"
proof -
  show "0 < b" using assms by (auto simp: scaled_def split: if_splits)
  show "real_of_int a / real_of_int b = real_of_int n / real_of_int d / 2 powi e"
  proof (cases "0 \<le> e")
    case True
    then show ?thesis using assms by (auto simp: scaled_def power_int_def)
  next
    case False
    then show ?thesis using assms by (auto simp: scaled_def power_int_def field_simps)
  qed
qed

lemma round_half_even_error:
  assumes "0 < b"
  shows "\<bar>real_of_int (round_half_even a b) - real_of_int a / real_of_int b\<bar> \<le> 1 / 2"
proof -
  define q r where "q = a div b" and "r = a mod b"
  have a: "a = q * b + r" and r: "r < b" "0 \<le> r" using assms by (simp_all add: q_def r_def)
  then have eq: "real_of_int a / real_of_int b = real_of_int q + real_of_int r / real_of_int b"
    using assms by (simp add: add_divide_distrib)
  have d: "round_half_even a b = (if b < 2 * r \<or> 2 * r = b \<and> odd q then q + 1 else q)"
    by (simp add: round_half_even_def Let_def q_def r_def)
  show ?thesis
  proof (cases "b < 2 * r \<or> 2 * r = b \<and> odd q")
    case True
    then have "b \<le> 2 * r" by linarith
    then have "1 / 2 \<le> real_of_int r / real_of_int b" "real_of_int r / real_of_int b \<le> 1"
      using assms r by (simp_all add: field_simps)
    with d True eq show ?thesis by simp
  next
    case False
    then have "2 * r \<le> b" by linarith
    then have "real_of_int r / real_of_int b \<le> 1 / 2" "0 \<le> real_of_int r / real_of_int b" using assms r by (simp_all add: field_simps)
    with d False eq show ?thesis by simp
  qed
qed

lemma bitlen_powi:
  assumes "0 < n"
  shows "2 powi (bitlen n - 1) \<le> real_of_int n" "real_of_int n < 2 powi bitlen n"
proof -
  have b: "2 ^ nat (bitlen n - 1) \<le> n" "n < 2 ^ nat (bitlen n)" using bitlen_bounds [OF assms] by simp_all
  have pos: "1 \<le> bitlen n" using bitlen_nonneg [of n] bitlen_eq_zero_iff [of n] assms by linarith
  then have "2 powi (bitlen n - 1) = real_of_int (2 ^ nat (bitlen n - 1))" by (simp add: power_int_def)
  also have "\<dots> \<le> real_of_int n" using b(1) by (simp only: of_int_le_iff)
  finally show "2 powi (bitlen n - 1) \<le> real_of_int n" .
  have "real_of_int n < real_of_int (2 ^ nat (bitlen n))" using b(2) by (simp only: of_int_less_iff)
  then show "real_of_int n < 2 powi bitlen n" using pos by (simp add: power_int_def)
qed

lemma lead_lower:
  assumes "0 < n" "0 < d"
  shows "2 powi lead n d \<le> real_of_int n / real_of_int d"
proof -
  define e where "e = bitlen n - bitlen d"
  obtain a b where ab: "scaled n d e = (a, b)" by fastforce
  note v = scaled_val [OF assms(2) ab]
  show ?thesis
  proof (cases "b \<le> a")
    case True
    then have "1 \<le> real_of_int a / real_of_int b" using v(1) by simp
    then have "1 \<le> real_of_int n / real_of_int d / 2 powi e" using v(2) by linarith
    then have "2 powi e \<le> real_of_int n / real_of_int d" by (subst (asm) le_divide_eq) simp
    with True ab show ?thesis by (simp add: lead_def Let_def e_def)
  next
    case False
    have "2 powi (e - 1) * real_of_int d \<le> 2 powi (e - 1) * 2 powi bitlen d"
      using bitlen_powi(2) [OF assms(2)] by (intro mult_left_mono) (simp_all add: less_imp_le)
    also have "\<dots> = 2 powi ((e - 1) + bitlen d)" by (rule power_int_add [symmetric]) simp
    also have "(e - 1) + bitlen d = bitlen n - 1" by (simp add: e_def)
    also have "2 powi (bitlen n - 1) \<le> real_of_int n" by (rule bitlen_powi(1) [OF assms(1)])
    finally have "2 powi (e - 1) \<le> real_of_int n / real_of_int d" using assms(2) by (simp add: le_divide_eq)
    with False ab show ?thesis by (simp add: lead_def Let_def e_def)
  qed
qed

text \<open>Rounding is relatively accurate to 53 bits, but for the smallest numbers.\<close>

definition smallest :: real where
  "smallest = 2 powi (-1075)"

lemma smallest_bounds: "0 < smallest" "smallest \<le> 1 / 2 ^ 60"
proof -
  have "smallest \<le> 2 powi (-60)" unfolding smallest_def by (rule power_int_increasing) simp_all
  then show "smallest \<le> 1 / 2 ^ 60" by (simp add: power_int_def field_simps)
qed (simp add: smallest_def)

lemma round_to_float_error:
  assumes "0 < d" "0 \<le> n"
  shows "\<bar>fl_val (round_to_float n d) - real_of_int n / real_of_int d\<bar>
    \<le> real_of_int n / real_of_int d * unit_roundoff + smallest"
proof (cases "n = 0")
  case True
  then show ?thesis using smallest_bounds by (simp add: round_to_float_def fl_val_def)
next
  case False
  with assms(2) have n: "0 < n" by simp
  define e where "e = max (lead n d - 52) (-1074)"
  obtain a b where ab: "scaled n d e = (a, b)" by fastforce
  note v = scaled_val [OF assms(1) ab]
  have x: "0 \<le> real_of_int n / real_of_int d * unit_roundoff" using n assms(1) by (simp add: unit_roundoff_def)
  have ulp: "1 / 2 * 2 powi e \<le> real_of_int n / real_of_int d * unit_roundoff + smallest"
  proof (cases "lead n d - 52 \<le> -1074")
    case True
    then have "e = -1075 + 1" by (simp add: e_def)
    then have "2 powi e = 2 powi (-1075) * (2 :: real)" by (simp only: power_int_add) simp
    with x show ?thesis by (simp add: smallest_def)
  next
    case False
    then have "e + 52 = lead n d" by (simp add: e_def)
    with lead_lower [OF n assms(1)] have "2 powi (e + 52) \<le> real_of_int n / real_of_int d" by (simp only:)
    then have "2 powi e * 2 ^ 52 \<le> real_of_int n / real_of_int d" by (simp add: power_int_add)
    then have "1 / 2 * 2 powi e \<le> real_of_int n / real_of_int d * unit_roundoff" by (simp add: unit_roundoff_def)
    then show ?thesis using smallest_bounds(1) by linarith
  qed
  have eq: "fl_val (round_to_float n d) = real_of_int (round_half_even a b) * 2 powi e"
    using n ab by (simp add: round_to_float_def fl_val_def Let_def e_def)
  have "real_of_int n / real_of_int d = real_of_int a / real_of_int b * 2 powi e" using v(2) by simp
  then have "fl_val (round_to_float n d) - real_of_int n / real_of_int d =
      (real_of_int (round_half_even a b) - real_of_int a / real_of_int b) * 2 powi e"
    unfolding eq by (simp only: left_diff_distrib)
  then have "\<bar>fl_val (round_to_float n d) - real_of_int n / real_of_int d\<bar> =
      \<bar>real_of_int (round_half_even a b) - real_of_int a / real_of_int b\<bar> * 2 powi e"
    by (simp add: abs_mult)
  also have "\<dots> \<le> 1 / 2 * 2 powi e"
    using round_half_even_error [OF v(1), of a] by (intro mult_right_mono) simp_all
  finally show ?thesis using ulp by linarith
qed

lemma math_Round_error: "\<bar>real_of_int (math_Round x) - fl_val x\<bar> \<le> 1 / 2"
proof -
  obtain m e where x: "x = (m, e)" by (cases x)
  obtain a b where ab: "scaled m 1 (- e) = (a, b)" by fastforce
  note v = scaled_val [OF zero_less_one ab]
  have val: "fl_val x = real_of_int a / real_of_int b" using v(2) x by (simp add: fl_val_def power_int_minus field_simps)
  define r where "r = math_Round x"
  have "r = (2 * a + b) div (2 * b)" using x ab by (simp add: r_def math_Round_def)
  then have "2 * b * r + (2 * a + b) mod (2 * b) = 2 * a + b" by (simp only: mult_div_mod_eq)
  moreover have "0 \<le> (2 * a + b) mod (2 * b)" "(2 * a + b) mod (2 * b) < 2 * b" using v(1) by simp_all
  ultimately have "2 * b * r \<le> 2 * a + b" "2 * a + b < 2 * b * r + 2 * b" by linarith+
  then have "real_of_int (2 * b * r) \<le> real_of_int (2 * a + b)" "real_of_int (2 * a + b) \<le> real_of_int (2 * b * r + 2 * b)"
    by (simp_all only: of_int_le_iff less_imp_le)
  then have "(real_of_int r - 1 / 2) * real_of_int b \<le> real_of_int a" "real_of_int a \<le> (real_of_int r + 1 / 2) * real_of_int b"
    by (simp_all add: algebra_simps)
  then have "real_of_int r - 1 / 2 \<le> real_of_int a / real_of_int b" "real_of_int a / real_of_int b \<le> real_of_int r + 1 / 2"
    using v(1) by (simp_all only: pos_le_divide_eq pos_divide_le_eq of_int_0_less_iff)
  then show ?thesis unfolding val r_def by linarith
qed

lemma fl_times_val:
  "\<exists>a b. 0 < b \<and> fl_times x k = round_to_float a b \<and> real_of_int a / real_of_int b = fl_val x * real_of_int k"
proof -
  obtain m e where x: "x = (m, e)" by (cases x)
  obtain a b where ab: "scaled (m * k) 1 (- e) = (a, b)" by fastforce
  from scaled_val [OF zero_less_one ab] x ab show ?thesis
    by (intro exI [of _ a] exI [of _ b]) (simp add: fl_times_def fl_val_def power_int_minus field_simps)
qed

text \<open>
  A number times a factor, below \<open>2 ^ 50\<close>, is computed to the nearest whole number or its
  neighbour, and without error when it is whole.
\<close>

lemma fl_val_nonneg: "0 < d \<Longrightarrow> 0 \<le> n \<Longrightarrow> 0 \<le> fl_val (round_to_float n d)"
proof -
  assume "0 < d" "0 \<le> n"
  then have "0 \<le> round_half_even a b" if "scaled n d e = (a, b)" for a b e
    using that by (auto simp: round_half_even_def scaled_def Let_def pos_imp_zdiv_nonneg_iff split: if_splits)
  then show ?thesis by (auto simp: round_to_float_def fl_val_def Let_def split: prod.split)
qed

lemma scale_near:
  assumes "0 < d" "0 \<le> n" "0 < k" "k \<le> 2 ^ 40" "n * k < 2 ^ 50 * d"
  shows "\<bar>real_of_int (math_Round (fl_times (round_to_float n d) k)) - real_of_int (n * k) / real_of_int d\<bar> < 1"
proof -
  define x where "x = real_of_int n / real_of_int d"
  define y where "y = fl_val (round_to_float n d)"
  define X where "X = x * real_of_int k"
  have k: "0 < real_of_int k" "real_of_int k \<le> 2 ^ 40" using assms(3,4) of_int_le_iff [of k "2 ^ 40", where 'a = real] by simp_all
  have "real_of_int (n * k) < real_of_int (2 ^ 50 * d)" using assms(5) by (simp only: of_int_less_iff)
  then have X: "X < 2 ^ 50" "0 \<le> X" "real_of_int (n * k) / real_of_int d = X"
    using assms(1-3) by (simp_all add: X_def x_def pos_divide_less_eq)
  have "\<bar>y - x\<bar> \<le> x * unit_roundoff + smallest"
    using round_to_float_error [OF assms(1,2)] by (simp add: x_def y_def)
  then have "\<bar>y - x\<bar> * real_of_int k \<le> (x * unit_roundoff + smallest) * real_of_int k" using k(1) by (intro mult_right_mono) simp_all
  moreover have "\<bar>y - x\<bar> * real_of_int k = \<bar>y * real_of_int k - X\<bar>"
    using k(1) by (simp add: X_def abs_mult flip: left_diff_distrib)
  moreover have "smallest * real_of_int k \<le> 1 / 2 ^ 60 * 2 ^ 40" using smallest_bounds k by (intro mult_mono) simp_all
  moreover have "(x * unit_roundoff + smallest) * real_of_int k = X * unit_roundoff + smallest * real_of_int k"
    by (simp add: X_def algebra_simps)
  ultimately have yk: "\<bar>y * real_of_int k - X\<bar> \<le> X * unit_roundoff + 1 / 2 ^ 20" by simp
  obtain a b where ab: "0 < b" "fl_times (round_to_float n d) k = round_to_float a b" "real_of_int a / real_of_int b = y * real_of_int k"
    using fl_times_val [of "round_to_float n d" k] by (auto simp: y_def)
  have "0 \<le> y" using fl_val_nonneg [OF assms(1,2)] by (simp add: y_def)
  then have "0 \<le> real_of_int a / real_of_int b" using ab(3) k(1) by simp
  then have a: "0 \<le> a" using ab(1) by (simp add: zero_le_divide_iff)
  from X(1) have small: "X * unit_roundoff \<le> 1 / 8" by (simp add: unit_roundoff_def)
  with yk X have "y * real_of_int k \<le> 2 ^ 51" by simp
  then have "y * real_of_int k * unit_roundoff \<le> 1 / 4" by (simp add: unit_roundoff_def)
  with round_to_float_error [OF ab(1) a] smallest_bounds ab
  have "\<bar>fl_val (fl_times (round_to_float n d) k) - y * real_of_int k\<bar> \<le> 1 / 4 + 1 / 2 ^ 60" by fastforce
  moreover have "(1 :: real) / 2 ^ 60 \<le> 1 / 32" "(1 :: real) / 2 ^ 20 \<le> 1 / 32" by simp_all
  ultimately have "\<bar>fl_val (fl_times (round_to_float n d) k) - X\<bar> < 1 / 2" using yk small by linarith
  with math_Round_error [of "fl_times (round_to_float n d) k"] X(3) show ?thesis by linarith
qed

lemma scale_exact:
  assumes "0 < d" "0 \<le> n" "0 < k" "k \<le> 2 ^ 40" "n * k = N * d" "N < 2 ^ 50"
  shows "math_Round (fl_times (round_to_float n d) k) = N"
proof -
  have "n * k < 2 ^ 50 * d" using assms(1,5,6) by simp
  from scale_near [OF assms(1-4) this] assms(1,5)
  have "\<bar>real_of_int (math_Round (fl_times (round_to_float n d) k)) - real_of_int N\<bar> < 1" by simp
  then show ?thesis by linarith
qed

subsection \<open>A product\<close>

lemma fl_mult_val:
  "\<exists>a b. 0 < b \<and> fl_mult x y = round_to_float a b \<and> real_of_int a / real_of_int b = fl_val x * fl_val y"
proof -
  obtain a b where ab: "scaled (fst x * fst y) 1 (- (snd x + snd y)) = (a, b)" by fastforce
  note v = scaled_val [OF zero_less_one ab]
  have "real_of_int a / real_of_int b = real_of_int (fst x * fst y) / 2 powi (- (snd x + snd y))"
    using v by (simp add: field_simps)
  also have "\<dots> = fl_val x * fl_val y"
  proof -
    have "2 powi (- (snd x + snd y)) = inverse (2 powi snd x * 2 powi snd y :: real)"
      unfolding power_int_minus by (simp add: power_int_add)
    then show ?thesis by (simp only: fl_val_def) (simp add: divide_inverse)
  qed
  finally show ?thesis using v(1) ab by (intro exI [of _ a] exI [of _ b]) (simp add: fl_mult_def)
qed

lemma fl_trunc_error: "0 \<le> fl_val x - real_of_int (fl_trunc x)" "fl_val x - real_of_int (fl_trunc x) < 1"
proof -
  obtain a b where ab: "scaled (fst x) 1 (- snd x) = (a, b)" by fastforce
  note v = scaled_val [OF zero_less_one ab]
  have val: "fl_val x = real_of_int a / real_of_int b" using v(2) by (simp add: fl_val_def power_int_minus field_simps)
  have "fl_trunc x = \<lfloor>real_of_int a / real_of_int b\<rfloor>" using ab by (simp add: fl_trunc_def floor_divide_of_int_eq)
  then show "0 \<le> fl_val x - real_of_int (fl_trunc x)" "fl_val x - real_of_int (fl_trunc x) < 1"
    unfolding val by linarith+
qed

lemma fl_mult_nonneg:
  assumes "0 < d" "0 \<le> n" "0 < d'" "0 \<le> n'"
  shows "0 \<le> fl_val (fl_mult (round_to_float n d) (round_to_float n' d'))"
proof -
  obtain a b where ab: "0 < b" "fl_mult (round_to_float n d) (round_to_float n' d') = round_to_float a b"
    "real_of_int a / real_of_int b = fl_val (round_to_float n d) * fl_val (round_to_float n' d')" using fl_mult_val by blast
  then have "0 \<le> real_of_int a / real_of_int b" using fl_val_nonneg assms by simp
  with ab(1) have "0 \<le> a" by (simp add: zero_le_divide_iff)
  with ab show ?thesis by (simp add: fl_val_nonneg)
qed

text \<open>A product of two rounded numbers, below \<open>2 ^ 42\<close>.\<close>

lemma smallest_tiny: "smallest \<le> 1 / 2 ^ 200"
proof -
  have "smallest \<le> 2 powi (-200)" unfolding smallest_def by (rule power_int_increasing) simp_all
  then show ?thesis by (simp add: power_int_def field_simps)
qed

lemma product_error:
  fixes p q x y u s T :: real
  assumes "\<bar>x - p\<bar> \<le> p * u + s" "\<bar>y - q\<bar> \<le> q * u + s" "0 \<le> p" "0 \<le> q" "0 \<le> y" "0 \<le> u" "u \<le> 1" "0 \<le> s"
    and T: "p * s \<le> T" "q * s \<le> T" "s * s \<le> T"
  shows "\<bar>x * y - p * q\<bar> \<le> 3 * u * (p * q) + 5 * T"
proof -
  have y: "y \<le> 2 * q + s"
  proof -
    have "q * u \<le> q" using assms(4,7) by (rule mult_left_le [rotated])
    with assms(2) show ?thesis by linarith
  qed
  have "\<bar>(x - p) * y\<bar> \<le> (p * u + s) * (2 * q + s)"
    unfolding abs_mult using assms(1,3,5,6,8) y by (intro mult_mono) (auto intro: add_nonneg_nonneg)
  also have "\<dots> = 2 * u * (p * q) + u * (p * s) + 2 * (q * s) + s * s" by (simp add: algebra_simps)
  also have "u * (p * s) \<le> p * s" using assms(3,6,7,8) by (intro mult_left_le_one_le) auto
  finally have 1: "\<bar>(x - p) * y\<bar> \<le> 2 * u * (p * q) + 4 * T" using T by linarith
  have "\<bar>p * (y - q)\<bar> \<le> p * (q * u + s)"
    unfolding abs_mult using assms(2,3) by (simp add: mult_left_mono)
  also have "\<dots> = u * (p * q) + p * s" by (simp add: algebra_simps)
  finally have 2: "\<bar>p * (y - q)\<bar> \<le> u * (p * q) + T" using T(1) by linarith
  have "x * y - p * q = (x - p) * y + p * (y - q)" by (simp add: algebra_simps)
  with 1 2 show ?thesis by linarith
qed

lemma fl_mult_near:
  assumes "0 < d" "0 \<le> n" "0 < d'" "0 \<le> n'"
    and "real_of_int n / real_of_int d \<le> 2 ^ 63" "real_of_int n' / real_of_int d' \<le> 2 ^ 42"
    and "E = real_of_int n / real_of_int d * (real_of_int n' / real_of_int d')" "E \<le> 2 ^ 42"
  shows "\<bar>fl_val (fl_mult (round_to_float n d) (round_to_float n' d')) - E\<bar> < 1 / 100"
proof -
  define p q where "p = real_of_int n / real_of_int d" and "q = real_of_int n' / real_of_int d'"
  define x y where "x = fl_val (round_to_float n d)" and "y = fl_val (round_to_float n' d')"
  define T :: real where "T = 1 / 2 ^ 100"
  have nn: "0 \<le> p" "0 \<le> q" "0 \<le> x" "0 \<le> y" using assms(1-4) fl_val_nonneg by (simp_all add: p_def q_def x_def y_def)
  have s: "0 < smallest" "smallest \<le> 1 / 2 ^ 200" using smallest_bounds smallest_tiny by auto
  have T: "p * smallest \<le> T" "q * smallest \<le> T" "smallest * smallest \<le> T"
  proof -
    have "p * smallest \<le> 2 ^ 63 * (1 / 2 ^ 200)" using assms(5) nn s by (intro mult_mono) (simp_all add: p_def)
    also have "\<dots> \<le> T" by (simp add: T_def)
    finally show "p * smallest \<le> T" .
    have "q * smallest \<le> 2 ^ 42 * (1 / 2 ^ 200)" using assms(6) nn s by (intro mult_mono) (simp_all add: q_def)
    also have "\<dots> \<le> T" by (simp add: T_def)
    finally show "q * smallest \<le> T" .
    have "smallest * smallest \<le> 1 / 2 ^ 200 * (1 / 2 ^ 200)" using s by (intro mult_mono) simp_all
    also have "\<dots> \<le> T" by (simp add: T_def)
    finally show "smallest * smallest \<le> T" .
  qed
  have E: "E = p * q" "E \<le> 2 ^ 42" using assms(7,8) by (simp_all add: p_def q_def)
  have "\<bar>x * y - p * q\<bar> \<le> 3 * unit_roundoff * (p * q) + 5 * T"
    using round_to_float_error [OF assms(1,2)] round_to_float_error [OF assms(3,4)] nn s(1) T
    by (intro product_error [where s = smallest]) (simp_all add: p_def q_def x_def y_def unit_roundoff_def)
  moreover have "3 * unit_roundoff * (p * q) \<le> 3 * unit_roundoff * 2 ^ 42"
    using E by (intro mult_left_mono) (simp_all add: unit_roundoff_def)
  ultimately have xy: "\<bar>x * y - E\<bar> \<le> 1 / 500" unfolding E(1) by (simp add: unit_roundoff_def T_def)
  obtain a b where ab: "0 < b" "fl_mult (round_to_float n d) (round_to_float n' d') = round_to_float a b"
    "real_of_int a / real_of_int b = x * y" using fl_mult_val unfolding x_def y_def by blast
  have a: "0 \<le> a" using ab(1,3) nn by (metis mult_nonneg_nonneg of_int_0_le_iff of_int_0_less_iff zero_le_divide_iff not_le)
  have "\<bar>fl_val (round_to_float a b) - x * y\<bar> \<le> x * y * unit_roundoff + smallest"
    using round_to_float_error [OF ab(1) a] unfolding ab(3) .
  moreover have "x * y * unit_roundoff \<le> (2 ^ 42 + 1) * unit_roundoff"
  proof (rule mult_right_mono)
    show "x * y \<le> 2 ^ 42 + 1" using xy E(2) by linarith
  qed (simp add: unit_roundoff_def)
  moreover have "(2 ^ 42 + 1) * unit_roundoff + smallest \<le> 1 / 500"
    using s(2) by (simp add: unit_roundoff_def)
  ultimately show ?thesis unfolding ab(2) using xy by linarith
qed


lemma is_inf_val: "is_inf x \<Longrightarrow> 2 ^ 1024 \<le> fl_val x"
proof -
  assume inf: "is_inf x"
  obtain m e where x: "x = (m, e)" by (cases x)
  obtain a b where ab: "scaled m 1 (- e) = (a, b)" by fastforce
  note v = scaled_val [OF zero_less_one ab]
  have "fl_val x = real_of_int a / real_of_int b" using v(2) x by (simp add: fl_val_def power_int_minus field_simps)
  moreover have "2 ^ 1024 * b \<le> a" using inf x ab by (simp only: is_inf_def prod.case)
  then have "real_of_int (2 ^ 1024 * b) \<le> real_of_int a" by (simp only: of_int_le_iff)
  then have "2 ^ 1024 * real_of_int b \<le> real_of_int a" by (simp only: of_int_mult of_int_power of_int_numeral)
  then have "2 ^ 1024 \<le> real_of_int a / real_of_int b"
    using v(1) by (simp only: pos_le_divide_eq of_int_0_less_iff)
  ultimately show ?thesis by (simp only:)
qed

lemma round_to_float_finite:
  assumes "0 < d" "0 \<le> n" "n \<le> 2 ^ 50 * d"
  shows "\<not> is_inf (round_to_float n d)"
proof
  assume "is_inf (round_to_float n d)"
  then have big: "2 ^ 1024 \<le> fl_val (round_to_float n d)" by (rule is_inf_val)
  define x where "x = real_of_int n / real_of_int d"
  have "real_of_int n \<le> real_of_int (2 ^ 50 * d)" using assms(3) by (simp only: of_int_le_iff)
  then have x: "x \<le> 2 ^ 50" "0 \<le> x" using assms(1,2) by (simp_all add: x_def pos_divide_le_eq)
  from round_to_float_error [OF assms(1,2)]
  have "\<bar>fl_val (round_to_float n d) - x\<bar> \<le> x * unit_roundoff + smallest" by (simp add: x_def)
  moreover have "x * unit_roundoff \<le> 2 ^ 50 * (1 / 2)" using x by (intro mult_mono) (simp_all add: unit_roundoff_def)
  ultimately have "fl_val (round_to_float n d) \<le> 2 ^ 51" using x(1) smallest_bounds(2) by simp
  moreover have "(2 :: real) ^ 51 < 2 ^ 1024" by (rule power_strict_increasing) simp_all
  ultimately show False using big by linarith
qed

subsection \<open>Decimal numbers\<close>

text \<open>A decimal number, with or without a fraction.\<close>

definition decimal_text :: "string \<Rightarrow> string option \<Rightarrow> string" where
  "decimal_text ip fp = ip @ (case fp of None \<Rightarrow> [] | Some f \<Rightarrow> CHR ''.'' # f)"

definition fraction :: "string option \<Rightarrow> string" where
  "fraction fp = (case fp of None \<Rightarrow> [] | Some f \<Rightarrow> f)"

abbreviation dec_val :: "string \<Rightarrow> int" where
  "dec_val \<equiv> digits_value 10"

lemma dec_val_nonneg: "list_all is_digit s \<Longrightarrow> 0 \<le> dec_val s"
proof -
  have "0 \<le> n \<Longrightarrow> list_all is_digit s \<Longrightarrow> 0 \<le> foldl (\<lambda>n c. n * 10 + digit_value c) n s" for n :: int
    by (induction s arbitrary: n) (simp_all add: digit_value_def)
  then show "list_all is_digit s \<Longrightarrow> 0 \<le> dec_val s" by (simp add: digits_value_def)
qed

lemma digit_others: "is_digit c \<Longrightarrow> c \<noteq> CHR ''_'' \<and> c \<noteq> CHR ''.'' \<and> c \<noteq> CHR ''+'' \<and> c \<noteq> CHR ''-'' \<and>
    char_lower c \<noteq> CHR ''x'' \<and> \<not> is_lower c \<and> \<not> is_upper c"
  by (auto simp: is_digit_def is_lower_def is_upper_def char_lower_def byte_of_def)

lemma mantissa_digits:
  "list_all is_digit u \<Longrightarrow> mantissa False False ip fp (u @ s) = mantissa False False (ip @ u) fp s"
  "list_all is_digit u \<Longrightarrow> mantissa False True ip fp u = (ip, fp @ u, [])"
  by (induction u arbitrary: ip fp) (simp_all add: digit_others)

lemma readFloat_decimal:
  assumes "list_all is_digit ip" "list_all is_digit (fraction fp)" "ip \<noteq> []"
  shows "readFloat (decimal_text ip fp) = Some (False, dec_val (ip @ fraction fp), 10 ^ length (fraction fp))"
proof -
  let ?t = "decimal_text ip fp"
  obtain c u where ip: "ip = c # u" "is_digit c" using assms(1,3) by (cases ip) simp_all
  have un: "unsigned ?t = (False, ?t)" using ip digit_others by (simp add: decimal_text_def unsigned_def)
  have chars: "is_digit x \<or> x = CHR ''.''" if "x \<in> set ?t" for x
    using that assms(1,2) by (auto simp: decimal_text_def fraction_def list_all_iff split: option.splits)
  then have us: "CHR ''_'' \<notin> set ?t" using digit_others by fastforce
  have "char_lower x \<noteq> CHR ''x''" if "x \<in> set ?t" for x
  proof -
    have "char_lower (CHR ''.'') \<noteq> CHR ''x''" by (simp add: char_lower_def is_upper_def byte_of_def)
    with chars [OF that] digit_others show ?thesis by blast
  qed
  then have hex: "\<not> (case ?t of z # x # _ # _ \<Rightarrow> z = CHR ''0'' \<and> char_lower x = CHR ''x'' | _ \<Rightarrow> False)"
    by (auto split: list.splits)
  have m: "mantissa False False [] [] ?t = (ip, fraction fp, [])"
    using mantissa_digits(1) [OF assms(1)] mantissa_digits(1) [OF assms(1), of _ _ "[]"] mantissa_digits(2) [OF assms(2)]
    by (cases fp) (simp_all add: decimal_text_def fraction_def)
  show ?thesis
    using hex us m assms(3)
    by (simp add: readFloat_def un exponent_def ratio_def Let_def)
qed

lemma special_decimal:
  assumes "list_all is_digit ip" "ip \<noteq> []"
  shows "special_value (ip @ s) = None"
proof -
  obtain c u where ip: "ip = c # u" "is_digit c" using assms by (cases ip) simp_all
  then have "char_lower c = c" using digit_others by (simp add: char_lower_def)
  moreover have "c \<notin> {CHR ''i'', CHR ''n'', CHR ''+'', CHR ''-''}" using ip(2) by (auto simp: is_digit_def byte_of_def)
  ultimately show ?thesis using ip(1) by (auto simp: special_value_def to_lower_def Let_def)
qed

lemma ParseFloat_decimal:
  assumes "list_all is_digit ip" "list_all is_digit (fraction fp)" "ip \<noteq> []"
    and "dec_val (ip @ fraction fp) \<le> 2 ^ 50 * 10 ^ length (fraction fp)"
  shows "ParseFloat (decimal_text ip fp) = Some (Fin False (round_to_float (dec_val (ip @ fraction fp)) (10 ^ length (fraction fp))))"
proof -
  have "list_all is_digit (ip @ fraction fp)" using assms(1,2) by simp
  then have "\<not> is_inf (round_to_float (dec_val (ip @ fraction fp)) (10 ^ length (fraction fp)))"
    using dec_val_nonneg assms(4) by (intro round_to_float_finite) simp_all
  moreover have "special_value (decimal_text ip fp) = None"
    using special_decimal [OF assms(1,3)] by (simp add: decimal_text_def)
  ultimately show ?thesis by (simp add: ParseFloat_def readFloat_decimal [OF assms(1-3)] Let_def)
qed

text \<open>A decimal number times a factor, as a number of bytes.\<close>

lemma scaled_decimal:
  assumes "list_all is_digit ip" "list_all is_digit (fraction fp)" "ip \<noteq> []"
    and "0 < k" "k \<le> 2 ^ 40" "dec_val (ip @ fraction fp) * k < 2 ^ 50 * 10 ^ length (fraction fp)"
  obtains v where "ParseFloat (decimal_text ip fp) = Some v"
    "\<bar>real_of_int (scaled_int64 plat v k) -
       real_of_int (dec_val (ip @ fraction fp) * k) / 10 ^ length (fraction fp)\<bar> < 1"
    "0 \<le> scaled_int64 plat v k"
    "\<exists>x. v = Fin False x"
proof -
  let ?n = "dec_val (ip @ fraction fp)" and ?d = "10 ^ length (fraction fp) :: int"
  have digits: "list_all is_digit (ip @ fraction fp)" using assms(1,2) by simp
  note n = dec_val_nonneg [OF digits]
  have "?n * 1 \<le> ?n * k" using n assms(4) by (intro mult_left_mono) simp_all
  with assms(6) have "?n \<le> 2 ^ 50 * ?d" by simp
  note p = ParseFloat_decimal [OF assms(1-3) this]
  let ?r = "math_Round (fl_times (round_to_float ?n ?d) k)"
  have near: "\<bar>real_of_int ?r - real_of_int (?n * k) / real_of_int ?d\<bar> < 1"
    using n assms(4-6) by (intro scale_near) simp_all
  have "real_of_int (?n * k) < real_of_int (2 ^ 50 * ?d)" using assms(6) by (simp only: of_int_less_iff)
  then have "real_of_int (?n * k) / real_of_int ?d < 2 ^ 50" "0 \<le> real_of_int (?n * k) / real_of_int ?d"
    using n assms(4) by (simp_all add: pos_divide_less_eq)
  with near have "real_of_int ?r < 2 ^ 50 + 1" "- 1 < real_of_int ?r" by linarith+
  then have r: "?r \<le> max_int64" "0 \<le> ?r" by (simp_all add: max_int64_def)
  show thesis
  proof (rule that [OF p])
    show "\<bar>real_of_int (scaled_int64 plat (Fin False (round_to_float ?n ?d)) k) -
       real_of_int (?n * k) / 10 ^ length (fraction fp)\<bar> < 1" using near r by (simp add: scaled_int64_def Let_def)
    show "0 \<le> scaled_int64 plat (Fin False (round_to_float ?n ?d)) k" using r by (simp add: scaled_int64_def Let_def)
  qed simp
qed

lemma scaled_whole:
  assumes "\<bar>real_of_int r - real_of_int (n * k) / 10 ^ l\<bar> < 1" "n * k = N * 10 ^ l"
  shows "r = N"
proof -
  have "real_of_int (n * k) / 10 ^ l = real_of_int N" using assms(2) by simp
  with assms(1) show ?thesis by linarith
qed

end
