(* ===== verification/Lookback.thy ===== *)
theory Lookback
  imports Floating
begin

text \<open>
  The extended durations of \<open>pkg/crawl/duration.go\<close>: \<open>ParseLookback\<close> reads leading weeks and
  days and leaves the rest to \<open>time.ParseDuration\<close>, which is modelled statement by statement
  on its unsigned 64-bit accumulator, with the floating-point step for a fraction.
\<close>

section \<open>Definitions\<close>

subsection \<open>time.ParseDuration\<close>

text \<open>\<open>leadingInt\<close>: the digits at the front, unless their value exceeds \<open>1<<63\<close>.\<close>

fun leading_int :: "nat \<Rightarrow> string \<Rightarrow> (nat \<times> string) option" where
  "leading_int x [] = Some (x, [])"
| "leading_int x (c # s) =
     (if \<not> is_digit c then Some (x, c # s)
      else if x > 2 ^ 63 div 10 then None
      else let x' = x * 10 + digit_val c
           in if x' > 2 ^ 63 then None else leading_int x' s)"

text \<open>
  \<open>leadingFraction\<close>: the digits at the front as a value and the number of digits it counts;
  digits after an overflow are read and ignored.
\<close>

fun leading_fraction :: "nat \<Rightarrow> nat \<Rightarrow> bool \<Rightarrow> string \<Rightarrow> nat \<times> nat \<times> string" where
  "leading_fraction x k over [] = (x, k, [])"
| "leading_fraction x k over (c # s) =
     (if \<not> is_digit c then (x, k, c # s)
      else if over then leading_fraction x k True s
      else if x > (2 ^ 63 - 1) div 10 then leading_fraction x k True s
      else let y = x * 10 + digit_val c
           in if y > 2 ^ 63 then leading_fraction x k True s
              else leading_fraction y (Suc k) False s)"

text \<open>
  The contribution of a fraction, \<open>uint64(float64(f) * (float64(unit) / scale))\<close>. The scale is a
  power of ten that float64 represents exactly.
\<close>

definition frac_nanos :: "nat \<Rightarrow> nat \<Rightarrow> nat \<Rightarrow> nat" where
  "frac_nanos f k unit =
     nat (fl_trunc (fl_mult (round_to_float (int f) 1) (round_to_float (int unit) (10 ^ k))))"

definition unitMap :: "(string \<times> nat) list" where
  "unitMap =
     [(''ns'', 1), (''us'', 1000), ([CHR 0xC2, CHR 0xB5, CHR ''s''], 1000),
      ([CHR 0xCE, CHR 0xBC, CHR ''s''], 1000), (''ms'', 1000000), (''s'', 1000000000),
      (''m'', 60000000000), (''h'', 3600000000000)]"

definition unit_char :: "char \<Rightarrow> bool" where
  "unit_char c \<longleftrightarrow> c \<noteq> CHR ''.'' \<and> \<not> is_digit c"

text \<open>The optional fraction: its value and digits, what follows, and whether it had digits.\<close>

definition duration_fraction :: "string \<Rightarrow> nat \<times> nat \<times> string \<times> bool" where
  "duration_fraction s =
     (if s \<noteq> [] \<and> hd s = CHR ''.''
      then let (f, k, s') = leading_fraction 0 0 False (tl s) in (f, k, s', length (tl s) \<noteq> length s')
      else (0, 0, s, False))"

text \<open>One number with its unit: the nanoseconds and what follows.\<close>

definition duration_term :: "string \<Rightarrow> (nat \<times> string) option" where
  "duration_term s =
     (if s = [] \<or> unit_char (hd s) then None
      else case leading_int 0 s of
        None \<Rightarrow> None
      | Some (v, s1) \<Rightarrow>
          (let pre = length s \<noteq> length s1; (f, k, s2, post) = duration_fraction s1;
               u = takeWhile unit_char s2; rest = dropWhile unit_char s2
           in if \<not> pre \<and> \<not> post then None
              else if u = [] then None
              else case map_of unitMap u of
                None \<Rightarrow> None
              | Some unit \<Rightarrow>
                  if v > 2 ^ 63 div unit then None
                  else if f > 0
                  then (let v' = (v * unit + frac_nanos f k unit) mod 2 ^ 64
                        in if v' > 2 ^ 63 then None else Some (v', rest))
                  else Some (v * unit, rest)))"

lemma leading_int_shorter: "leading_int x s = Some (v, s') \<Longrightarrow> length s' \<le> length s"
  by (induction x s rule: leading_int.induct) (auto simp: Let_def split: if_splits)

lemma leading_fraction_shorter: "leading_fraction x k over s = (f, n, s') \<Longrightarrow> length s' \<le> length s"
  by (induction x k over s rule: leading_fraction.induct) (auto simp: Let_def split: if_splits)

lemma duration_fraction_shorter: "duration_fraction s = (f, k, s', post) \<Longrightarrow> length s' \<le> length s"
  by (cases s) (auto simp: duration_fraction_def dest: leading_fraction_shorter split: prod.splits if_splits)

lemma unit_shorter: "takeWhile unit_char s \<noteq> [] \<Longrightarrow> length (dropWhile unit_char s) < length s"
  by (cases s) (auto simp: length_dropWhile_le less_Suc_eq_le split: if_splits)

lemma duration_term_shorter:
  assumes "duration_term s = Some (v, rest)"
  shows "length rest < length s"
proof -
  from assms obtain v1 s1 f k s2 post where "leading_int 0 s = Some (v1, s1)"
      "duration_fraction s1 = (f, k, s2, post)" "takeWhile unit_char s2 \<noteq> []" "rest = dropWhile unit_char s2"
    unfolding duration_term_def Let_def by (auto split: if_splits option.splits prod.splits)
  then show ?thesis
    using leading_int_shorter [of 0 s] duration_fraction_shorter [of s1] unit_shorter [of s2] by fastforce
qed

text \<open>The loop over the terms; \<open>d\<close> is the accumulator.\<close>

function duration_terms :: "nat \<Rightarrow> string \<Rightarrow> nat option" where
  "duration_terms d s =
     (if s = [] then Some d
      else case duration_term s of
        None \<Rightarrow> None
      | Some (v, rest) \<Rightarrow>
          (let d' = (d + v) mod 2 ^ 64
           in if d' > 2 ^ 63 then None else duration_terms d' rest))"
  by pat_completeness auto
termination
  by (relation "measure (\<lambda>(d, s). length s)") (auto dest: duration_term_shorter)

declare duration_terms.simps [simp del]

definition ParseDuration :: "string \<Rightarrow> duration option" where
  "ParseDuration s0 =
     (let (neg, s) = split_sign s0
      in if s = ''0'' then Some 0
         else if s = [] then None
         else case duration_terms 0 s of
           None \<Rightarrow> None
         | Some d \<Rightarrow>
             if neg then Some (- int d)
             else if d > 2 ^ 63 - 1 then None else Some (int d))"

subsection \<open>ParseLookback\<close>

text \<open>One optional group \<open>(\d+)x\<close> of the prefix expression: its digits, if any, and the rest.\<close>

definition prefix_group :: "char \<Rightarrow> string \<Rightarrow> string \<times> string" where
  "prefix_group x s =
     (case dropWhile is_digit s of
        c # rest \<Rightarrow> if c = x \<and> takeWhile is_digit s \<noteq> [] then (takeWhile is_digit s, rest) else ([], s)
      | [] \<Rightarrow> ([], s))"

definition extDurationPrefix :: "string \<Rightarrow> string \<times> string \<times> string" where
  "extDurationPrefix s =
     (let (weeks, s1) = prefix_group (CHR ''w'') s; (days, rest) = prefix_group (CHR ''d'') s1
      in (weeks, days, rest))"

datatype lookback_error = MalformedLookback string string

definition time_Hour :: duration where "time_Hour = 3600000000000"

definition ParseLookback ::
  "string \<Rightarrow> string \<Rightarrow> lookback_error + duration" where
  "ParseLookback source s =
     (if s = [] \<or> s = ''0'' then Inr 0
      else
        (let (m1, m2, rest) = extDurationPrefix s;
             malformed = Inl (MalformedLookback source s)
         in case (if m1 \<noteq> [] then map_option (\<lambda>w. s64 (s64 (s64 (w * 7) * 24) * time_Hour)) (atoi m1)
                  else Some 0) of
              None \<Rightarrow> malformed
            | Some weeks \<Rightarrow>
            (case (if m2 \<noteq> [] then map_option (\<lambda>d. s64 (weeks + s64 (s64 (d * 24) * time_Hour))) (atoi m2)
                   else Some weeks) of
              None \<Rightarrow> malformed
            | Some ext \<Rightarrow>
                if rest \<noteq> [] then
                  (case ParseDuration rest of
                     None \<Rightarrow> malformed
                   | Some d \<Rightarrow> if d < 0 then malformed else Inr (s64 (ext + d)))
                else Inr ext)))"

text \<open>A lookback written with some of weeks, days and hours, and the time it names.\<close>

definition group_text :: "char \<Rightarrow> nat option \<Rightarrow> string" where
  "group_text x n = (case n of None \<Rightarrow> [] | Some k \<Rightarrow> nat_digits k @ [x])"

definition lookback_text :: "nat option \<Rightarrow> nat option \<Rightarrow> nat option \<Rightarrow> string" where
  "lookback_text w d h = group_text (CHR ''w'') w @ group_text (CHR ''d'') d @ group_text (CHR ''h'') h"

definition amount :: "nat option \<Rightarrow> int" where
  "amount n = (case n of None \<Rightarrow> 0 | Some k \<Rightarrow> int k)"

definition lookback_hours :: "nat option \<Rightarrow> nat option \<Rightarrow> nat option \<Rightarrow> int" where
  "lookback_hours w d h = (amount w * 7 + amount d) * 24 + amount h"

section \<open>Lemmas: wrap-around\<close>

lemma s64_mod: "s64 x mod 18446744073709551616 = x mod 18446744073709551616"
  by (simp add: s64_def mod_diff_left_eq)

lemma s64_cong: "x mod 18446744073709551616 = y mod 18446744073709551616 \<Longrightarrow> s64 x = s64 y"
  unfolding s64_def by (drule mod_add_cong [OF _ refl]) simp

lemma s64_zero [simp]: "s64 0 = 0"
  by (simp add: s64_def)

lemma s64_mult: "s64 (s64 x * y) = s64 (x * y)"
  by (rule s64_cong, rule mod_mult_cong [OF s64_mod refl])

lemma s64_add_both: "s64 (s64 x + s64 y) = s64 (x + y)"
  using s64_add [of x "s64 y"] s64_add [of y x] by (simp add: add.commute)

section \<open>Lemmas: reading what was written\<close>

lemma digits_fold_ge: "x \<le> foldl (\<lambda>n c. n * 10 + digit_val c) x ds"
proof (induction ds arbitrary: x)
  case (Cons c ds)
  have "x \<le> x * 10 + digit_val c" by simp
  also have "\<dots> \<le> foldl (\<lambda>n c. n * 10 + digit_val c) (x * 10 + digit_val c) ds" by (rule Cons.IH)
  finally show ?case by simp
qed simp

lemma leading_int_digits:
  assumes "list_all is_digit ds" "foldl (\<lambda>n c. n * 10 + digit_val c) x ds \<le> 2 ^ 63" "\<not> is_digit c"
  shows "leading_int x (ds @ c # r) = Some (foldl (\<lambda>n c. n * 10 + digit_val c) x ds, c # r)"
  using assms
proof (induction ds arbitrary: x)
  case (Cons a ds)
  have le: "x * 10 + digit_val a \<le> 2 ^ 63"
    using digits_fold_ge [of "x * 10 + digit_val a" ds] Cons.prems(2) by simp
  then have "x \<le> 2 ^ 63 div 10" by (simp add: less_eq_div_iff_mult_less_eq)
  with Cons le show ?case by (simp add: Let_def)
qed simp

lemma leading_int_nat:
  "n \<le> 2 ^ 63 \<Longrightarrow> \<not> is_digit c \<Longrightarrow> leading_int 0 (nat_digits n @ c # r) = Some (n, c # r)"
  using leading_int_digits [OF nat_digits_digits, of 0 n c r] digits_val_nat_digits [of n]
  by (simp add: digits_val_def)

lemma unit_h: "unit_char (CHR ''h'')" "map_of unitMap ''h'' = Some 3600000000000" "\<not> is_digit (CHR ''h'')"
  by (simp_all add: unit_char_def unitMap_def is_digit_def byte_of_def)

lemma ParseDuration_hours:
  assumes "n * 3600000000000 \<le> 2 ^ 63 - 1"
  shows "ParseDuration (nat_digits n @ ''h'') = Some (int n * time_Hour)"
proof -
  obtain c cs where digits: "nat_digits n = c # cs" "is_digit c" using nat_digits_head by blast
  have n: "n \<le> 2 ^ 63 div 3600000000000" using assms by (simp add: less_eq_div_iff_mult_less_eq)
  then have "n \<le> 2 ^ 63" by simp
  from leading_int_nat [OF this unit_h(3), of "[]"]
  have "duration_term (nat_digits n @ ''h'') = Some (n * 3600000000000, [])"
    using digits n unit_h by (auto simp: duration_term_def duration_fraction_def unit_char_def)
  then have "duration_terms 0 (nat_digits n @ ''h'') = Some (n * 3600000000000)"
    using assms by (simp add: duration_terms.simps Let_def)
  moreover have "split_sign (nat_digits n @ ''h'') = (False, nat_digits n @ ''h'')"
    using digits is_digit_not_sign by (auto simp: split_sign_def)
  moreover have "nat_digits n @ ''h'' \<noteq> ''0''"
    using arg_cong [of "nat_digits n @ ''h''" "''0''" last] by auto
  ultimately show ?thesis
    using assms by (simp add: ParseDuration_def time_Hour_def)
qed

lemma take_digits_group:
  "\<not> is_digit x \<Longrightarrow> takeWhile is_digit (nat_digits n @ x # r) = nat_digits n"
  "\<not> is_digit x \<Longrightarrow> dropWhile is_digit (nat_digits n @ x # r) = x # r"
  using nat_digits_digits [of n] by (simp_all add: takeWhile_append dropWhile_append list_all_iff)

lemma prefix_group_hit:
  "\<not> is_digit x \<Longrightarrow> prefix_group x (nat_digits n @ x # r) = (nat_digits n, r)"
  by (simp add: prefix_group_def take_digits_group)

lemma prefix_group_miss:
  "\<not> is_digit y \<Longrightarrow> y \<noteq> x \<Longrightarrow> prefix_group x (nat_digits n @ y # r) = ([], nat_digits n @ y # r)"
  by (simp add: prefix_group_def take_digits_group)

lemma unit_letters: "\<not> is_digit (CHR ''w'')" "\<not> is_digit (CHR ''d'')"
  by code_simp+

lemma prefix_of_text:
  "extDurationPrefix (lookback_text w d h) =
     (case w of None \<Rightarrow> [] | Some n \<Rightarrow> nat_digits n, case d of None \<Rightarrow> [] | Some n \<Rightarrow> nat_digits n,
      group_text (CHR ''h'') h)"
proof -
  have empty: "prefix_group x [] = ([], [])" for x by (simp add: prefix_group_def)
  show ?thesis
    using unit_letters unit_h(3)
    by (cases w; cases d; cases h)
       (simp_all add: extDurationPrefix_def lookback_text_def group_text_def prefix_group_hit prefix_group_miss empty)
qed

lemma s64_lookback:
  "s64 (s64 (s64 (s64 (w * 7) * 24) * time_Hour) + s64 (s64 (d * 24) * time_Hour)) =
   s64 ((w * 7 + d) * 24 * time_Hour)"
proof -
  have "s64 (s64 (s64 (w * 7) * 24) * time_Hour) = s64 (w * 7 * 24 * time_Hour)" for w
    by (simp add: s64_mult mult.assoc)
  moreover have "s64 (s64 (d * 24) * time_Hour) = s64 (d * 24 * time_Hour)" by (rule s64_mult)
  ultimately show ?thesis by (simp add: s64_add_both algebra_simps)
qed

lemma text_not_zero: "lookback_text w d h \<noteq> ''0''"
proof
  assume eq: "lookback_text w d h = ''0''"
  then have "last (lookback_text w d h) = CHR ''0''" by simp
  with eq show False by (cases w; cases d; cases h) (auto simp: lookback_text_def group_text_def)
qed

definition days_ext :: "nat option \<Rightarrow> nat option \<Rightarrow> int" where
  "days_ext w d = s64 ((amount w * 7 + amount d) * 24 * time_Hour)"

lemma days_ext_cases:
  "days_ext None None = 0" "days_ext (Some m) None = s64 (s64 (s64 (int m * 7) * 24) * time_Hour)"
  "days_ext w (Some n) = s64 (days_ext w None + s64 (s64 (int n * 24) * time_Hour))"
proof -
  show "days_ext None None = 0" by (simp add: days_ext_def amount_def)
  show m: "days_ext (Some m) None = s64 (s64 (s64 (int m * 7) * 24) * time_Hour)" for m
    by (simp add: days_ext_def amount_def s64_mult mult.assoc)
  show "days_ext w (Some n) = s64 (days_ext w None + s64 (s64 (int n * 24) * time_Hour))"
    using s64_add_both [of "amount w * 7 * 24 * time_Hour" "int n * 24 * time_Hour"]
    by (simp add: days_ext_def s64_mult) (simp add: amount_def algebra_simps)
qed

lemma ParseLookback_text:
  assumes "amount w \<le> max_int64" "amount d \<le> max_int64" "amount h * time_Hour \<le> max_int64"
  shows "ParseLookback src (lookback_text w d h) = Inr (s64 (lookback_hours w d h * time_Hour))"
proof (cases "lookback_text w d h = []")
  case True
  then have "w = None" "d = None" "h = None"
    by (auto simp: lookback_text_def group_text_def split: option.splits)
  then show ?thesis
    by (simp add: lookback_text_def group_text_def ParseLookback_def lookback_hours_def amount_def)
next
  case False
  have weeks: "(if (case w of None \<Rightarrow> [] | Some n \<Rightarrow> nat_digits n) \<noteq> []
      then map_option (\<lambda>w. s64 (s64 (s64 (w * 7) * 24) * time_Hour))
        (atoi (case w of None \<Rightarrow> [] | Some n \<Rightarrow> nat_digits n)) else Some 0) = Some (days_ext w None)"
    using assms(1) by (cases w) (simp_all add: days_ext_cases amount_def max_int64_def atoi_nat_digits)
  have days: "(if (case d of None \<Rightarrow> [] | Some n \<Rightarrow> nat_digits n) \<noteq> []
      then map_option (\<lambda>d. s64 (days_ext w None + s64 (s64 (d * 24) * time_Hour)))
        (atoi (case d of None \<Rightarrow> [] | Some n \<Rightarrow> nat_digits n)) else Some (days_ext w None)) = Some (days_ext w d)"
    using assms(2) by (cases d) (simp_all add: days_ext_cases amount_def max_int64_def atoi_nat_digits)
  have total: "s64 (days_ext w d + amount h * time_Hour) = s64 (lookback_hours w d h * time_Hour)"
    using s64_add [of "(amount w * 7 + amount d) * 24 * time_Hour" "amount h * time_Hour"]
    by (simp add: days_ext_def lookback_hours_def distrib_right)
  have parsed: "ParseLookback src (lookback_text w d h) =
      (if group_text (CHR ''h'') h \<noteq> [] then
         (case ParseDuration (group_text (CHR ''h'') h) of
            None \<Rightarrow> Inl (MalformedLookback src (lookback_text w d h))
          | Some x \<Rightarrow> if x < 0 then Inl (MalformedLookback src (lookback_text w d h)) else Inr (s64 (days_ext w d + x)))
       else Inr (days_ext w d))"
    unfolding ParseLookback_def prefix_of_text Let_def prod.case weeks option.case days
    using False text_not_zero [of w d h] by simp
  show ?thesis
  proof (cases h)
    case None
    with parsed total show ?thesis
      by (simp add: group_text_def amount_def) (simp add: days_ext_def)
  next
    case (Some n)
    then have "n * 3600000000000 \<le> 2 ^ 63 - 1"
      using assms(3) by (simp add: amount_def time_Hour_def max_int64_def)
    from ParseDuration_hours [OF this] Some parsed total show ?thesis
      by (simp add: group_text_def amount_def) (simp add: time_Hour_def)
  qed
qed

section \<open>Lemmas: fractions\<close>

lemma leading_fraction_digits:
  assumes "list_all is_digit ds" "foldl (\<lambda>n c. n * 10 + digit_val c) x ds \<le> 10 ^ 18" "\<not> is_digit c"
  shows "leading_fraction x k False (ds @ c # r) =
    (foldl (\<lambda>n c. n * 10 + digit_val c) x ds, k + length ds, c # r)"
  using assms
proof (induction ds arbitrary: x k)
  case (Cons a ds)
  have le: "x * 10 + digit_val a \<le> 10 ^ 18"
    using digits_fold_ge [of "x * 10 + digit_val a" ds] Cons.prems(2) by simp
  then have "x \<le> 10 ^ 17" by simp
  with Cons le show ?case by (simp add: Let_def)
qed simp

lemma frac_nanos_near:
  assumes "f < 10 ^ k" "f \<le> 10 ^ 18" "0 < unit" "unit \<le> 3600000000000"
  shows "\<bar>real (frac_nanos f k unit) - real f / 10 ^ k * real unit\<bar> < 1 + 1 / 100"
proof -
  let ?E = "real_of_int (int f) / real_of_int 1 * (real_of_int (int unit) / real_of_int (10 ^ k))"
  have u: "real unit \<le> 2 ^ 42" using assms(4) by simp
  have E: "?E = real f / 10 ^ k * real unit" by simp
  have "real f / 10 ^ k \<le> 1" using assms(1) by (simp add: le_divide_eq_1)
  then have "?E \<le> real unit" unfolding E by (intro mult_left_le_one_le) simp_all
  with u have E2: "?E \<le> 2 ^ 42" by linarith
  have "real_of_int (int unit) / real_of_int (10 ^ k) \<le> real unit" by (simp add: divide_le_eq mult_le_cancel_left1)
  then have q: "real_of_int (int unit) / real_of_int (10 ^ k) \<le> 2 ^ 42" using u by linarith
  have f: "real_of_int (int f) / real_of_int 1 \<le> 2 ^ 63"
    using assms(2) by (simp del: of_nat_power add: order.trans [of _ "10 ^ 18"])
  let ?x = "fl_mult (round_to_float (int f) 1) (round_to_float (int unit) (10 ^ k))"
  have near: "\<bar>fl_val ?x - ?E\<bar> < 1 / 100"
    by (rule fl_mult_near [OF _ _ _ _ f q refl E2]) simp_all
  note t = fl_trunc_error [of ?x]
  have "0 \<le> fl_val ?x" by (rule fl_mult_nonneg) simp_all
  with t(2) have "0 \<le> fl_trunc ?x" by linarith
  then have "real (frac_nanos f k unit) = real_of_int (fl_trunc ?x)" by (simp add: frac_nanos_def)
  with near t show ?thesis unfolding E by linarith
qed


lemma digits_val_less: "list_all is_digit ds \<Longrightarrow> digits_val ds < 10 ^ length ds"
proof (induction ds rule: rev_induct)
  case (snoc c ds)
  moreover have "digit_val c < 10" using snoc.prems by (auto simp: digit_val_def is_digit_def)
  ultimately show ?case by (simp add: digits_val_def)
qed (simp add: digits_val_def)

lemma duration_term_fraction:
  assumes "list_all is_digit fp" "fp \<noteq> []" "length fp \<le> 18" "n < 2562047"
  shows "\<exists>d. duration_term (nat_digits n @ ''.'' @ fp @ ''h'') = Some (d, []) \<and> d \<le> 2 ^ 63 - 1 \<and>
    \<bar>real d - (real n + real (digits_val fp) / 10 ^ length fp) * 3600000000000\<bar> < 1 + 1 / 100"
proof -
  let ?k = "length fp" and ?f = "digits_val fp"
  have f: "?f < 10 ^ ?k" by (rule digits_val_less [OF assms(1)])
  have "(10 :: nat) ^ ?k \<le> 10 ^ 18" using assms(3) by (rule power_increasing) simp
  with f have f18: "?f \<le> 10 ^ 18" by linarith
  obtain c cs where digits: "nat_digits n = c # cs" "is_digit c" using nat_digits_head by blast
  have dot: "\<not> is_digit (CHR ''.'')" by (simp add: is_digit_def byte_of_def)
  have int: "leading_int 0 (nat_digits n @ CHR ''.'' # fp @ ''h'') = Some (n, CHR ''.'' # fp @ ''h'')"
    using assms(4) by (intro leading_int_nat dot) simp
  have "leading_fraction 0 0 False (fp @ ''h'') = (?f, ?k, ''h'')"
    using leading_fraction_digits [OF assms(1) _ unit_h(3), of 0 0 "[]"] f18 by (simp add: digits_val_def)
  then have frac: "duration_fraction (CHR ''.'' # fp @ ''h'') = (?f, ?k, ''h'', True)"
    using assms(2) by (simp add: duration_fraction_def)
  have trm: "duration_term (nat_digits n @ ''.'' @ fp @ ''h'') =
      (if ?f > 0 then (let v' = (n * 3600000000000 + frac_nanos ?f ?k 3600000000000) mod 2 ^ 64
        in if v' > 2 ^ 63 then None else Some (v', [])) else Some (n * 3600000000000, []))"
    using digits int frac unit_h assms(4) by (simp add: duration_term_def unit_char_def)
  note near = frac_nanos_near [OF f f18, of 3600000000000]
  have "real ?f / 10 ^ ?k \<le> 1" using f by (simp add: le_divide_eq_1)
  then have "real ?f / 10 ^ ?k * real 3600000000000 \<le> 1 * real 3600000000000" by (rule mult_right_mono) simp
  moreover from near have "\<bar>real (frac_nanos ?f ?k 3600000000000) - real ?f / 10 ^ ?k * real 3600000000000\<bar> < 1 + 1 / 100" by simp
  ultimately have "real (frac_nanos ?f ?k 3600000000000) < 1 * real 3600000000000 + 2" by linarith
  then have small: "frac_nanos ?f ?k 3600000000000 \<le> 3600000000001" by linarith
  show ?thesis
  proof (cases "?f > 0")
    case True
    define d where "d = n * 3600000000000 + frac_nanos ?f ?k 3600000000000"
    have le: "d \<le> 2 ^ 63 - 1" using small assms(4) by (simp add: d_def)
    then have "d mod 2 ^ 64 = d" "\<not> d > 2 ^ 63" by simp_all
    then have "duration_term (nat_digits n @ ''.'' @ fp @ ''h'') = Some (d, [])"
      unfolding trm using True by (simp only: Let_def if_True if_False d_def [symmetric])
    moreover have "real d = real n * 3600000000000 + real (frac_nanos ?f ?k 3600000000000)" by (simp add: d_def)
    ultimately show ?thesis using le near by (intro exI [of _ d]) (simp add: distrib_right)
  next
    case False
    with assms(4) show ?thesis unfolding trm by simp
  qed
qed

lemma ParseDuration_fraction:
  assumes "list_all is_digit fp" "fp \<noteq> []" "length fp \<le> 18" "n < 2562047"
  shows "\<exists>d. ParseDuration (nat_digits n @ ''.'' @ fp @ ''h'') = Some (int d) \<and> d \<le> 2 ^ 63 - 1 \<and>
    \<bar>real d - (real n + real (digits_val fp) / 10 ^ length fp) * 3600000000000\<bar> < 1 + 1 / 100"
proof -
  let ?s = "nat_digits n @ ''.'' @ fp @ ''h''"
  from duration_term_fraction [OF assms] obtain d where d: "duration_term ?s = Some (d, [])" "d \<le> 2 ^ 63 - 1"
    "\<bar>real d - (real n + real (digits_val fp) / 10 ^ length fp) * 3600000000000\<bar> < 1 + 1 / 100" by blast
  obtain c cs where digits: "nat_digits n = c # cs" "is_digit c" using nat_digits_head by blast
  have "duration_terms 0 ?s = Some d"
    using d(1,2) by (subst duration_terms.simps) (simp add: Let_def duration_terms.simps)
  moreover have "split_sign ?s = (False, ?s)" using digits is_digit_not_sign by (auto simp: split_sign_def)
  moreover have "?s \<noteq> ''0''" using arg_cong [of ?s "''0''" last] by auto
  ultimately have "ParseDuration ?s = Some (int d)" using d(2) by (simp add: ParseDuration_def)
  with d(2,3) show ?thesis by blast
qed

lemma ParseLookback_fraction:
  assumes "list_all is_digit fp" "fp \<noteq> []" "length fp \<le> 18" "n < 2562047"
  shows "\<exists>d. ParseLookback src (nat_digits n @ ''.'' @ fp @ ''h'') = Inr d \<and>
    \<bar>real_of_int d - (real n + real (digits_val fp) / 10 ^ length fp) * real_of_int time_Hour\<bar> < 1 + 1 / 100"
proof -
  let ?s = "nat_digits n @ ''.'' @ fp @ ''h''"
  from ParseDuration_fraction [OF assms] obtain d where d: "ParseDuration ?s = Some (int d)" "d \<le> 2 ^ 63 - 1"
    "\<bar>real d - (real n + real (digits_val fp) / 10 ^ length fp) * 3600000000000\<bar> < 1 + 1 / 100" by blast
  have dot: "\<not> is_digit (CHR ''.'')" by (simp add: is_digit_def byte_of_def)
  have "prefix_group x ?s = ([], ?s)" if "x \<noteq> CHR ''.''" for x
    using prefix_group_miss [OF dot, of x n "fp @ ''h''"] that by simp
  then have "extDurationPrefix ?s = ([], [], ?s)" by (simp add: extDurationPrefix_def)
  moreover have "?s \<noteq> ''0''" using arg_cong [of ?s "''0''" last] by auto
  ultimately have "ParseLookback src ?s = Inr (int d)"
    using d(1,2) by (simp add: ParseLookback_def in_int64_def)
  with d(3) show ?thesis by (simp add: time_Hour_def)
qed

section \<open>Properties\<close>

text \<open>
  C37: the value of a lookback. A lookback written in weeks, days and hours is read as the
  duration it names, in 64 bits: exactly when it fits, and otherwise wrapped around, without
  an error (only the hours alone are checked for overflow). Hours with a fraction are read to
  little more than a nanosecond, in spite of the floating-point arithmetic.
\<close>

theorem lookback_value:
  assumes "amount w \<le> max_int64" and "amount d \<le> max_int64" and "amount h * time_Hour \<le> max_int64"
  shows "ParseLookback src (lookback_text w d h) = Inr (s64 (lookback_hours w d h * time_Hour)) \<and>
    (lookback_hours w d h * time_Hour \<le> max_int64 \<longrightarrow>
      ParseLookback src (lookback_text w d h) = Inr (lookback_hours w d h * time_Hour)) \<and>
    (list_all is_digit fp \<and> fp \<noteq> [] \<and> length fp \<le> 18 \<and> n < 2562047 \<longrightarrow>
      (\<exists>t. ParseLookback src (nat_digits n @ ''.'' @ fp @ ''h'') = Inr t \<and>
        \<bar>real_of_int t - (real n + real (digits_val fp) / 10 ^ length fp) * real_of_int time_Hour\<bar> < 1 + 1 / 100))"
proof -
  have "0 \<le> lookback_hours w d h * time_Hour"
    by (simp add: lookback_hours_def amount_def time_Hour_def split: option.split)
  then have "s64 (lookback_hours w d h * time_Hour) = lookback_hours w d h * time_Hour"
    if "lookback_hours w d h * time_Hour \<le> max_int64"
    using that by (simp add: in_int64_def max_int64_def)
  then show ?thesis using ParseLookback_text [OF assms, of src] ParseLookback_fraction [of fp n src] by simp
qed

text \<open>A lookback of 30501 weeks, some 584 years, is read as less than 73 hours.\<close>

theorem lookback_value_witness:
  "ParseLookback ''dmhy'' (lookback_text (Some 2) None (Some 12)) = Inr (348 * time_Hour) \<and>
   ParseLookback ''dmhy'' (lookback_text (Some 30501) None None) = Inr 260726290448384"
proof
  show "ParseLookback ''dmhy'' (lookback_text (Some 2) None (Some 12)) = Inr (348 * time_Hour)"
    using lookback_value [of "Some 2" None "Some 12" "''dmhy''"]
    by (simp add: amount_def lookback_hours_def max_int64_def time_Hour_def s64_def)
  show "ParseLookback ''dmhy'' (lookback_text (Some 30501) None None) = Inr 260726290448384"
    using lookback_value [of "Some 30501" None None "''dmhy''"]
    by (simp add: amount_def lookback_hours_def max_int64_def time_Hour_def s64_def)
qed

end
