(* ===== verification/Flags.thy ===== *)
theory Flags
  imports Floating Lookback
begin

text \<open>
  Command lines: the part of the packages \<open>flag\<close> and \<open>strconv\<close> the commands use. A flag of a
  \<open>FlagSet\<close> updates the record \<open>'c\<close> it is bound to; \<open>parse_flags\<close> is \<open>FlagSet.Parse\<close>, which stops
  at the first argument that is no flag. Texts of errors are left out.
\<close>

section \<open>Definitions\<close>

text \<open>\<open>strconv.ParseInt\<close> with base 0 and 64 bits: the prefix of the text chooses the base.\<close>

definition int_base :: "string \<Rightarrow> int \<times> string" where
  "int_base s =
     (if s \<noteq> [] \<and> hd s = CHR ''0''
      then (if length s \<ge> 3 \<and> char_lower (s ! 1) = CHR ''b'' then (2, drop 2 s)
            else if length s \<ge> 3 \<and> char_lower (s ! 1) = CHR ''o'' then (8, drop 2 s)
            else if length s \<ge> 3 \<and> char_lower (s ! 1) = CHR ''x'' then (16, drop 2 s)
            else (8, drop 1 s))
      else (10, s))"

definition based_digit :: "int \<Rightarrow> char \<Rightarrow> bool" where
  "based_digit base c \<longleftrightarrow> (is_digit c \<or> letter c) \<and> digit_value c < base"

definition ParseInt0 :: "string \<Rightarrow> int option" where
  "ParseInt0 s =
     (case unsigned s of (neg, r) \<Rightarrow>
        if r = [] then None
        else case int_base r of (base, ds) \<Rightarrow>
          (let ns = filter (\<lambda>c. c \<noteq> CHR ''_'') ds;
               n = digits_value base ns;
               v = (if neg then - n else n)
           in if \<not> list_all (based_digit base) ns \<or> ns \<noteq> ds \<and> \<not> underscore_ok r \<or> \<not> in_int64 v then None
              else Some v))"

definition ParseBool :: "string \<Rightarrow> bool option" where
  "ParseBool s =
     (if s \<in> {''1'', ''t'', ''T'', ''true'', ''TRUE'', ''True''} then Some True
      else if s \<in> {''0'', ''f'', ''F'', ''false'', ''FALSE'', ''False''} then Some False
      else None)"

datatype 'c flag = BoolFlag "bool \<Rightarrow> 'c \<Rightarrow> 'c" | ArgFlag "string \<Rightarrow> 'c \<Rightarrow> 'c option"

datatype flag_error = BadFlagSyntax string | ErrHelp | NotDefined string | NeedsArgument string | InvalidFlagValue string string

datatype flag_arg = NotFlag | Terminator | BadSyntax | Named string "string option"

text \<open>How \<open>parseOne\<close> reads one argument.\<close>

definition flag_name :: "string \<Rightarrow> flag_arg" where
  "flag_name name =
     (case name of
        [] \<Rightarrow> BadSyntax
      | c # t \<Rightarrow>
          if c = CHR ''-'' \<or> c = CHR ''='' then BadSyntax
          else (case str_cut t (CHR ''='') of
                  None \<Rightarrow> Named name None
                | Some (u, v) \<Rightarrow> Named (c # u) (Some v)))"

definition flag_arg :: "string \<Rightarrow> flag_arg" where
  "flag_arg s =
     (if length s < 2 \<or> hd s \<noteq> CHR ''-'' then NotFlag
      else if s ! 1 = CHR ''-'' then (if length s = 2 then Terminator else flag_name (drop 2 s))
      else flag_name (drop 1 s))"

definition set_flag :: "(string \<Rightarrow> 'c flag option) \<Rightarrow> string \<Rightarrow> string \<Rightarrow> 'c \<Rightarrow> 'c option" where
  "set_flag formal name v c =
     (case formal name of
        None \<Rightarrow> None
      | Some (BoolFlag f) \<Rightarrow> map_option (\<lambda>b. f b c) (ParseBool v)
      | Some (ArgFlag f) \<Rightarrow> f v c)"

fun parse_flags :: "(string \<Rightarrow> 'c flag option) \<Rightarrow> string list \<Rightarrow> 'c \<Rightarrow> flag_error + ('c \<times> string list)" where
  "parse_flags formal [] c = Inr (c, [])"
| "parse_flags formal (s # args) c =
     (case flag_arg s of
        NotFlag \<Rightarrow> Inr (c, s # args)
      | Terminator \<Rightarrow> Inr (c, args)
      | BadSyntax \<Rightarrow> Inl (BadFlagSyntax s)
      | Named name (Some v) \<Rightarrow>
          (case formal name of
             None \<Rightarrow> Inl (if name = ''help'' \<or> name = ''h'' then ErrHelp else NotDefined name)
           | Some _ \<Rightarrow>
               (case set_flag formal name v c of
                  None \<Rightarrow> Inl (InvalidFlagValue name v)
                | Some c' \<Rightarrow> parse_flags formal args c'))
      | Named name None \<Rightarrow>
          (case formal name of
             None \<Rightarrow> Inl (if name = ''help'' \<or> name = ''h'' then ErrHelp else NotDefined name)
           | Some (BoolFlag f) \<Rightarrow> parse_flags formal args (f True c)
           | Some (ArgFlag f) \<Rightarrow>
               (case args of
                  [] \<Rightarrow> Inl (NeedsArgument name)
                | v # args' \<Rightarrow>
                    (case f v c of
                       None \<Rightarrow> Inl (InvalidFlagValue name v)
                     | Some c' \<Rightarrow> parse_flags formal args' c'))))"

text \<open>The flags of the types the commands use, bound to a field by its update.\<close>

definition string_flag :: "((string \<Rightarrow> string) \<Rightarrow> 'c \<Rightarrow> 'c) \<Rightarrow> 'c flag" where
  "string_flag upd = ArgFlag (\<lambda>v c. Some (upd (\<lambda>_. v) c))"

definition int_flag :: "((int \<Rightarrow> int) \<Rightarrow> 'c \<Rightarrow> 'c) \<Rightarrow> 'c flag" where
  "int_flag upd = ArgFlag (\<lambda>v c. map_option (\<lambda>n. upd (\<lambda>_. n) c) (ParseInt0 v))"

definition float_flag :: "((float_val \<Rightarrow> float_val) \<Rightarrow> 'c \<Rightarrow> 'c) \<Rightarrow> 'c flag" where
  "float_flag upd = ArgFlag (\<lambda>v c. map_option (\<lambda>n. upd (\<lambda>_. n) c) (ParseFloat v))"

definition duration_flag ::
  "((duration \<Rightarrow> duration) \<Rightarrow> 'c \<Rightarrow> 'c) \<Rightarrow> 'c flag" where
  "duration_flag upd = ArgFlag (\<lambda>v c. map_option (\<lambda>n. upd (\<lambda>_. n) c) (ParseDuration v))"

definition bool_flag :: "((bool \<Rightarrow> bool) \<Rightarrow> 'c \<Rightarrow> 'c) \<Rightarrow> 'c flag" where
  "bool_flag upd = BoolFlag (\<lambda>b. upd (\<lambda>_. b))"

section \<open>Lemmas\<close>

text \<open>
  A command line of settings, each written \<open>--name=value\<close>, \<open>-name=value\<close> or, for a flag with an
  argument, \<open>-name value\<close>.
\<close>

datatype setting = Joined bool string string | Split bool string string

fun setting_name :: "setting \<Rightarrow> string" where
  "setting_name (Joined d n v) = n"
| "setting_name (Split d n v) = n"

fun setting_value :: "setting \<Rightarrow> string" where
  "setting_value (Joined d n v) = v"
| "setting_value (Split d n v) = v"

definition dashes :: "bool \<Rightarrow> string" where "dashes d = (if d then ''--'' else ''-'')"

fun setting_args :: "setting \<Rightarrow> string list" where
  "setting_args (Joined d n v) = [dashes d @ n @ ''='' @ v]"
| "setting_args (Split d n v) = [dashes d @ n, v]"

definition command_line :: "setting list \<Rightarrow> string list" where
  "command_line as = concat (map setting_args as)"

definition is_arg_flag :: "'c flag option \<Rightarrow> bool" where
  "is_arg_flag f = (case f of Some (ArgFlag _) \<Rightarrow> True | _ \<Rightarrow> False)"

fun setting_ok :: "(string \<Rightarrow> 'c flag option) \<Rightarrow> setting \<Rightarrow> bool" where
  "setting_ok formal (Joined d n v) \<longleftrightarrow> formal n \<noteq> None"
| "setting_ok formal (Split d n v) \<longleftrightarrow> is_arg_flag (formal n)"

text \<open>The names of flags, as the sets of flags of the commands have them.\<close>

definition plain_name :: "string \<Rightarrow> bool" where
  "plain_name n \<longleftrightarrow> n \<noteq> [] \<and> hd n \<noteq> CHR ''-'' \<and> CHR ''='' \<notin> set n"

fun set_all :: "(string \<Rightarrow> 'c flag option) \<Rightarrow> setting list \<Rightarrow> 'c \<Rightarrow> 'c option" where
  "set_all formal [] c = Some c"
| "set_all formal (a # as) c =
     (case set_flag formal (setting_name a) (setting_value a) c of None \<Rightarrow> None | Some c' \<Rightarrow> set_all formal as c')"

lemma str_cut_none: "b \<notin> set s \<Longrightarrow> str_cut s b = None"
proof -
  assume "b \<notin> set s"
  then have none: "index_byte s b = None" by (induction s) auto
  show ?thesis by (simp only: str_cut_def none option.case)
qed

lemma index_byte_first: "b \<notin> set u \<Longrightarrow> index_byte (u @ b # v) b = Some (length u)"
  by (induction u) auto

lemma str_cut_first: "b \<notin> set u \<Longrightarrow> str_cut (u @ b # v) b = Some (u, v)"
  by (simp add: str_cut_def index_byte_first)

lemma flag_arg_dashes:
  assumes "plain_name n"
  shows "flag_arg (dashes d @ n @ s) = flag_name (n @ s)"
proof -
  obtain c t where "n = c # t" "c \<noteq> CHR ''-''" using assms by (cases n) (auto simp: plain_name_def)
  then show ?thesis by (simp add: flag_arg_def dashes_def)
qed

lemma flag_name_plain:
  assumes "plain_name n"
  shows "flag_name n = Named n None" "flag_name (n @ ''='' @ v) = Named n (Some v)"
proof -
  obtain c t where n: "n = c # t" "c \<noteq> CHR ''-''" "c \<noteq> CHR ''=''" "CHR ''='' \<notin> set t"
    using assms by (cases n) (auto simp: plain_name_def)
  then show "flag_name n = Named n None" "flag_name (n @ ''='' @ v) = Named n (Some v)"
    by (simp_all add: flag_name_def str_cut_none str_cut_first)
qed

text \<open>Such a command line is read as its settings, one after the other.\<close>

lemma parse_flags_settings:
  assumes "list_all (setting_ok formal) as" "\<And>n. formal n \<noteq> None \<Longrightarrow> plain_name n"
  shows "(case set_all formal as c of
      Some c' \<Rightarrow> parse_flags formal (command_line as) c = Inr (c', [])
    | None \<Rightarrow> \<exists>n v. parse_flags formal (command_line as) c = Inl (InvalidFlagValue n v))"
  using assms(1)
proof (induction as arbitrary: c)
  case (Cons a as)
  have ok: "setting_ok formal a" "plain_name (setting_name a)"
    using Cons(2) assms(2) [of "setting_name a"] by (cases a; auto simp: is_arg_flag_def split: option.splits)+
  have step: "parse_flags formal (command_line (a # as)) c =
      (case set_flag formal (setting_name a) (setting_value a) c of
         None \<Rightarrow> Inl (InvalidFlagValue (setting_name a) (setting_value a))
       | Some c' \<Rightarrow> parse_flags formal (command_line as) c')"
  proof (cases a)
    case (Joined d n v)
    with ok flag_arg_dashes [of n d "''='' @ v"] flag_name_plain(2) [of n v] show ?thesis
      by (auto simp: command_line_def set_flag_def split: option.split)
  next
    case (Split d n v)
    with ok flag_arg_dashes [of n d "[]"] flag_name_plain(1) [of n] show ?thesis
      by (auto simp: command_line_def set_flag_def is_arg_flag_def split: option.split flag.splits)
  qed
  show ?case
  proof (cases "set_flag formal (setting_name a) (setting_value a) c")
    case (Some c1)
    from Cons(1) [of c1] Cons(2) show ?thesis by (cases "set_all formal as c1") (simp_all add: step Some)
  qed (simp add: step)
qed (simp add: command_line_def)

text \<open>The value a command line gives to a name: the last one.\<close>

definition last_value :: "string \<Rightarrow> setting list \<Rightarrow> string option" where
  "last_value name as =
     (case filter (\<lambda>a. setting_name a = name) as of [] \<Rightarrow> None | b # bs \<Rightarrow> Some (setting_value (last (b # bs))))"

lemma last_value_Cons:
  "last_value name (a # as) =
     (case last_value name as of
        Some v \<Rightarrow> Some v
      | None \<Rightarrow> if setting_name a = name then Some (setting_value a) else None)"
  by (simp add: last_value_def split: list.split)

text \<open>A field bound to one flag has the last value given, read, or else keeps what it was.\<close>

definition flag_binds :: "(string \<Rightarrow> 'c flag option) \<Rightarrow> string \<Rightarrow> (string \<Rightarrow> 'a option) \<Rightarrow> ('c \<Rightarrow> 'a) \<Rightarrow> bool" where
  "flag_binds formal own rd g \<longleftrightarrow>
     (\<forall>n v c c'. set_flag formal n v c = Some c' \<longrightarrow>
        (if n = own then rd v = Some (g c') else g c' = g c))"

lemma set_all_field:
  assumes "flag_binds formal own rd g" "set_all formal as c = Some c'"
  shows "case last_value own as of None \<Rightarrow> g c' = g c | Some v \<Rightarrow> rd v = Some (g c')"
  using assms(2)
proof (induction as arbitrary: c)
  case (Cons a as)
  then obtain c1 where c1: "set_flag formal (setting_name a) (setting_value a) c = Some c1" "set_all formal as c1 = Some c'"
    by (auto split: option.splits)
  from Cons(1) [OF c1(2)] c1(1) assms(1) show ?case
    by (auto simp: last_value_Cons flag_binds_def split: option.splits if_splits)
qed (simp add: last_value_def)

text \<open>What the flags of a table do to a field.\<close>

definition flag_sets :: "'c flag \<Rightarrow> (string \<Rightarrow> 'a option) \<Rightarrow> ('c \<Rightarrow> 'a) \<Rightarrow> bool" where
  "flag_sets f rd g \<longleftrightarrow>
     (\<forall>v c c'. set_flag (\<lambda>_. Some f) [] v c = Some c' \<longrightarrow> rd v = Some (g c'))"

definition flag_keeps :: "'c flag \<Rightarrow> ('c \<Rightarrow> 'a) \<Rightarrow> bool" where
  "flag_keeps f g \<longleftrightarrow> (\<forall>v c c'. set_flag (\<lambda>_. Some f) [] v c = Some c' \<longrightarrow> g c' = g c)"

lemma flag_binds_table:
  assumes "list_all (\<lambda>(n, f). if n = own then flag_sets f rd g else flag_keeps f g) tbl"
  shows "flag_binds (map_of tbl) own rd g"
proof -
  have "if n = own then rd v = Some (g c') else g c' = g c" if s: "set_flag (map_of tbl) n v c = Some c'" for n v c c'
  proof -
    from s obtain f where f: "map_of tbl n = Some f" by (cases "map_of tbl n") (auto simp: set_flag_def)
    then have "set_flag (\<lambda>_. Some f) [] v c = Some c'" using s by (simp add: set_flag_def)
    with map_of_SomeD [OF f] assms show ?thesis
      by (cases "n = own") (auto simp: list_all_iff flag_sets_def flag_keeps_def)
  qed
  then show ?thesis unfolding flag_binds_def by blast
qed

lemmas flag_kinds = string_flag_def int_flag_def float_flag_def duration_flag_def bool_flag_def

lemma flag_effects:
  "(\<And>v c. g (upds (\<lambda>_. v) c) = v) \<Longrightarrow> flag_sets (string_flag upds) Some g"
  "(\<And>v c. gi (updi (\<lambda>_. v) c) = v) \<Longrightarrow> flag_sets (int_flag updi) ParseInt0 gi"
  "(\<And>v c. gf (updf (\<lambda>_. v) c) = v) \<Longrightarrow> flag_sets (float_flag updf) ParseFloat gf"
  "(\<And>v c. gd (updd (\<lambda>_. v) c) = v) \<Longrightarrow> flag_sets (duration_flag updd) ParseDuration gd"
  "(\<And>v c. gb (updb (\<lambda>_. v) c) = v) \<Longrightarrow> flag_sets (bool_flag updb) ParseBool gb"
  "(\<And>v c. g' (upds (\<lambda>_. v) c) = g' c) \<Longrightarrow> flag_keeps (string_flag upds) g'"
  "(\<And>v c. g' (updi (\<lambda>_. v) c) = g' c) \<Longrightarrow> flag_keeps (int_flag updi) g'"
  "(\<And>v c. g' (updf (\<lambda>_. v) c) = g' c) \<Longrightarrow> flag_keeps (float_flag updf) g'"
  "(\<And>v c. g' (updd (\<lambda>_. v) c) = g' c) \<Longrightarrow> flag_keeps (duration_flag updd) g'"
  "(\<And>v c. g' (updb (\<lambda>_. v) c) = g' c) \<Longrightarrow> flag_keeps (bool_flag updb) g'"
  by (auto simp: flag_sets_def flag_keeps_def set_flag_def flag_kinds)

end
