(* ===== verification/Infohash.thy ===== *)
theory Infohash
  imports Takuhai_Prelude
begin

unbundle bit_operations_syntax

text \<open>
  The canonical dedup key: \<open>internal/infohash/infohash.go\<close>, with the routines of
  \<open>encoding/base32\<close> and \<open>encoding/hex\<close> it calls, and \<open>isCanonicalInfohash\<close> of the
  store, which guards the same shape.

  Bytes are \<^typ>\<open>byte\<close>, so the shifts of the base32 decoder wrap as Go's \<open>uint8\<close> does.
  \<open>strings.ToUpper\<close> on a payload with a non-ASCII rune either leaves a byte outside the
  alphabet or shortens the payload below 32 characters; both are skips, as in the model,
  which leaves such bytes unchanged.
\<close>

section \<open>Definitions\<close>

datatype infohash_error = ErrSkipInfohash

subsection \<open>Base32 and hex\<close>

definition b32_alphabet :: string where
  "b32_alphabet = ''ABCDEFGHIJKLMNOPQRSTUVWXYZ234567''"

definition b32_val :: "char \<Rightarrow> byte option" where
  "b32_val c = map_option word_of_nat (index_byte b32_alphabet c)"

text \<open>
  One quantum of \<open>base32.StdEncoding\<close>: up to eight digits, ended early by padding. The
  result is the digits, the remaining input and whether padding ended the input.
\<close>

fun b32_quantum :: "byte list \<Rightarrow> string \<Rightarrow> (byte list \<times> string \<times> bool) option" where
  "b32_quantum ds [] = (if length ds = 8 then Some (ds, [], False) else None)"
| "b32_quantum ds (c # rest) =
     (if length ds = 8 then Some (ds, c # rest, False)
      else if c = CHR ''='' \<and> 2 \<le> length ds \<and> length rest < 8 then
        (if length rest + length ds < 7 then None
         else if \<not> list_all (\<lambda>p. p = CHR ''='') (take (7 - length ds) rest) then None
         else if length ds = 1 \<or> length ds = 3 \<or> length ds = 6 then None
         else Some (ds, rest, True))
      else case b32_val c of
        None \<Rightarrow> None
      | Some d \<Rightarrow> b32_quantum (ds @ [d]) rest)"

definition b32_bytes :: "byte list \<Rightarrow> byte list" where
  "b32_bytes ds =
     (if 2 \<le> length ds then [push_bit 3 (ds ! 0) OR drop_bit 2 (ds ! 1)] else []) @
     (if 4 \<le> length ds
      then [push_bit 6 (ds ! 1) OR push_bit 1 (ds ! 2) OR drop_bit 4 (ds ! 3)] else []) @
     (if 5 \<le> length ds then [push_bit 4 (ds ! 3) OR drop_bit 1 (ds ! 4)] else []) @
     (if 7 \<le> length ds
      then [push_bit 7 (ds ! 4) OR push_bit 2 (ds ! 5) OR drop_bit 3 (ds ! 6)] else []) @
     (if 8 \<le> length ds then [push_bit 5 (ds ! 6) OR ds ! 7] else [])"

lemma b32_quantum_rest:
  "b32_quantum ds src = Some (ds', rest, e) \<Longrightarrow> length rest + length ds' \<le> length src + length ds"
  by (induction ds src rule: b32_quantum.induct) (fastforce split: if_splits option.splits)+

lemma b32_quantum_full:
  "b32_quantum ds src = Some (ds', rest, False) \<Longrightarrow> length ds' = 8"
  by (induction ds src rule: b32_quantum.induct) (auto split: if_splits option.splits)

function b32_decode_loop :: "string \<Rightarrow> byte list option" where
  "b32_decode_loop src =
     (if src = [] then Some []
      else case b32_quantum [] src of
        None \<Rightarrow> None
      | Some (ds, rest, e) \<Rightarrow>
          if e then Some (b32_bytes ds)
          else map_option (\<lambda>bs. b32_bytes ds @ bs) (b32_decode_loop rest))"
  by pat_completeness auto
termination
proof (relation "measure length")
  fix src ds :: "byte list" and rest :: string and p q e and cs :: string
  assume "cs \<noteq> []" and "b32_quantum [] cs = Some p" and "(ds, q) = p" and "(rest, e) = q" and "\<not> e"
  then have "b32_quantum [] cs = Some (ds, rest, False)" by auto
  from b32_quantum_rest [OF this] b32_quantum_full [OF this]
  show "(rest, cs) \<in> measure length" by simp
qed simp

declare b32_decode_loop.simps [simp del]

text \<open>\<open>DecodeString\<close> drops carriage returns and line feeds first.\<close>

definition b32_decode :: "string \<Rightarrow> byte list option" where
  "b32_decode s = b32_decode_loop (filter (\<lambda>c. c \<noteq> CHR 0x0D \<and> c \<noteq> CHR 0x0A) s)"

definition hex_table :: string where
  "hex_table = ''0123456789abcdef''"

definition hex_byte :: "byte \<Rightarrow> string" where
  "hex_byte b = [hex_table ! unat (drop_bit 4 b), hex_table ! unat (b AND 15)]"

definition hex_encode :: "byte list \<Rightarrow> string" where
  "hex_encode bs = concat (map hex_byte bs)"

subsection \<open>Normalisation\<close>

definition is_lower_hex :: "char \<Rightarrow> bool" where
  "is_lower_hex c \<longleftrightarrow>
     \<not> ((byte_of c < 48 \<or> byte_of c > 57) \<and> (byte_of c < 97 \<or> byte_of c > 102))"

definition is_any_hex :: "char \<Rightarrow> bool" where
  "is_any_hex c \<longleftrightarrow>
     \<not> ((byte_of c < 48 \<or> byte_of c > 57) \<and> (byte_of c < 97 \<or> byte_of c > 102) \<and>
        (byte_of c < 65 \<or> byte_of c > 70))"

definition isHex40 :: "string \<Rightarrow> bool" where
  "isHex40 s \<longleftrightarrow> list_all is_any_hex s"

definition isCanonicalInfohash :: "string \<Rightarrow> bool" where
  "isCanonicalInfohash s \<longleftrightarrow> length s = 40 \<and> list_all is_lower_hex s"

definition canonicalBtih :: "string \<Rightarrow> infohash_error + string" where
  "canonicalBtih s =
     (if length s = 40 then
        (if isHex40 s then Inr (to_lower s) else Inl ErrSkipInfohash)
      else if length s = 32 then
        (case b32_decode (to_upper s) of
           None \<Rightarrow> Inl ErrSkipInfohash
         | Some b \<Rightarrow> if length b = 20 then Inr (hex_encode b) else Inl ErrSkipInfohash)
      else Inl ErrSkipInfohash)"

definition before_amp :: "string \<Rightarrow> string" where
  "before_amp t = (case index_byte t (CHR ''&'') of None \<Rightarrow> t | Some j \<Rightarrow> take j t)"

definition NormalizeInfohash :: "string \<Rightarrow> infohash_error + string" where
  "NormalizeInfohash raw =
     (let s = trim_space raw
      in if s = [] then Inl ErrSkipInfohash
         else case str_index s ''urn:btih:'' of
           Some i \<Rightarrow>
             canonicalBtih (before_amp (drop (i + length ''urn:btih:'') s))
         | None \<Rightarrow>
             if prefix ''magnet:'' s \<or> str_contains s ''urn:btmh:'' then Inl ErrSkipInfohash
             else canonicalBtih s)"

subsection \<open>Reference: the spellings of a v1 infohash\<close>

text \<open>RFC 4648 base32 of whole five-byte groups, as the reference the decoder is held to.\<close>

definition b32_char :: "byte \<Rightarrow> char" where
  "b32_char d = b32_alphabet ! unat d"

definition b32_digits :: "byte \<Rightarrow> byte \<Rightarrow> byte \<Rightarrow> byte \<Rightarrow> byte \<Rightarrow> byte list" where
  "b32_digits a b c d e =
     [drop_bit 3 a,
      push_bit 2 (take_bit 3 a) OR drop_bit 6 b,
      take_bit 5 (drop_bit 1 b),
      push_bit 4 (take_bit 1 b) OR drop_bit 4 c,
      push_bit 1 (take_bit 4 c) OR drop_bit 7 d,
      take_bit 5 (drop_bit 2 d),
      push_bit 3 (take_bit 2 d) OR drop_bit 5 e,
      take_bit 5 e]"

fun b32_encode :: "byte list \<Rightarrow> string" where
  "b32_encode (a # b # c # d # e # bs) = map b32_char (b32_digits a b c d e) @ b32_encode bs"
| "b32_encode _ = []"

definition spells :: "byte list \<Rightarrow> string \<Rightarrow> bool" where
  "spells b s \<longleftrightarrow> to_lower s = hex_encode b \<or> to_upper s = b32_encode b"

text \<open>The payload a magnet link carries after \<open>urn:btih:\<close>, and the characters it is made of.\<close>

definition is_alnum :: "char \<Rightarrow> bool" where
  "is_alnum c \<longleftrightarrow> is_digit c \<or> is_lower c \<or> is_upper c"

section \<open>Lemmas\<close>

subsection \<open>Base32 round trip\<close>

lemma bit_byte_high [simp]: "8 \<le> n \<Longrightarrow> \<not> bit (w :: byte) n"
  using bit_imp_le_length [of w n] by auto

lemma byte_eqI:
  fixes v w :: byte
  assumes "\<And>n. n \<in> {0, 1, 2, 3, 4, 5, 6, 7} \<Longrightarrow> bit v n = bit w n"
  shows "v = w"
proof (rule bit_word_eqI)
  fix n :: nat
  assume "n < LENGTH(8)"
  then have "n \<in> {0, 1, 2, 3, 4, 5, 6, 7}" by auto
  then show "bit v n = bit w n" by (rule assms)
qed

lemma b32_digits_bytes: "b32_bytes (b32_digits a b c d e) = [a, b, c, d, e]"
proof -
  have "push_bit 3 (drop_bit 3 a) OR drop_bit 2 (push_bit 2 (take_bit 3 a) OR drop_bit 6 b) = a"
    by (rule byte_eqI, unfold bit_or_iff bit_push_bit_iff bit_drop_bit_eq bit_take_bit_iff comp_def)
       (auto simp: numeral_eq_Suc)
  moreover have "push_bit 6 (push_bit 2 (take_bit 3 a) OR drop_bit 6 b) OR push_bit 1 (take_bit 5 (drop_bit 1 b))
      OR drop_bit 4 (push_bit 4 (take_bit 1 b) OR drop_bit 4 c) = b"
    by (rule byte_eqI, unfold bit_or_iff bit_push_bit_iff bit_drop_bit_eq bit_take_bit_iff comp_def)
       (auto simp: numeral_eq_Suc)
  moreover have "push_bit 4 (push_bit 4 (take_bit 1 b) OR drop_bit 4 c) OR
      drop_bit 1 (push_bit 1 (take_bit 4 c) OR drop_bit 7 d) = c"
    by (rule byte_eqI, unfold bit_or_iff bit_push_bit_iff bit_drop_bit_eq bit_take_bit_iff comp_def)
       (auto simp: numeral_eq_Suc)
  moreover have "push_bit 7 (push_bit 1 (take_bit 4 c) OR drop_bit 7 d) OR push_bit 2 (take_bit 5 (drop_bit 2 d))
      OR drop_bit 3 (push_bit 3 (take_bit 2 d) OR drop_bit 5 e) = d"
    by (rule byte_eqI, unfold bit_or_iff bit_push_bit_iff bit_drop_bit_eq bit_take_bit_iff comp_def)
       (auto simp: numeral_eq_Suc)
  moreover have "push_bit 5 (push_bit 3 (take_bit 2 d) OR drop_bit 5 e) OR (take_bit 5 e) = e"
    by (rule byte_eqI, unfold bit_or_iff bit_push_bit_iff bit_drop_bit_eq bit_take_bit_iff comp_def)
       (auto simp: numeral_eq_Suc)
  ultimately show ?thesis by (simp add: b32_bytes_def b32_digits_def)
qed

lemma byte_less_32:
  fixes w :: byte
  assumes "\<And>n. n \<in> {5, 6, 7} \<Longrightarrow> \<not> bit w n"
  shows "unat w < 32"
proof -
  have "take_bit 5 w = w"
    by (rule byte_eqI, unfold bit_take_bit_iff) (insert assms, fastforce)
  moreover have "unat (take_bit 5 w) < 2 ^ 5"
    unfolding unsigned_take_bit_eq by (rule take_bit_nat_less_exp)
  ultimately have "unat w < 2 ^ 5" by (simp only:)
  then show ?thesis by simp
qed

lemma b32_digits_small: "q \<in> set (b32_digits a b c d e) \<Longrightarrow> unat q < 32"
  by (rule byte_less_32)
     (unfold b32_digits_def, auto simp: bit_or_iff bit_push_bit_iff bit_drop_bit_eq bit_take_bit_iff
       simp del: One_nat_def push_bit_Suc push_bit_of_1)

lemma b32_val_table: "\<forall>n \<in> {..<32}. b32_val (b32_alphabet ! n) = Some (word_of_nat n)"
  by code_simp

lemma b32_chars_plain:
  "\<forall>c \<in> set b32_alphabet. char_upper (char_lower c) = c \<and> char_upper c = c \<and>
     c \<noteq> CHR ''='' \<and> c \<noteq> CHR 0x0A \<and> c \<noteq> CHR 0x0D \<and> c \<noteq> CHR ''&''"
  by (simp add: b32_alphabet_def char_upper_def char_lower_def is_upper_def is_lower_def byte_of_def
    char_of_def bit_0)

lemma b32_char_in: "unat d < 32 \<Longrightarrow> b32_char d \<in> set b32_alphabet"
  by (simp add: b32_char_def b32_alphabet_def nth_mem del: nth_Cons_numeral set_simps)

lemma b32_val_char: "unat d < 32 \<Longrightarrow> b32_val (b32_char d) = Some d"
  using b32_val_table by (auto simp: b32_char_def)

lemma b32_quantum_digits:
  "length ds0 + length ds = 8 \<Longrightarrow> \<forall>d \<in> set ds. unat d < 32 \<Longrightarrow>
   b32_quantum ds0 (map b32_char ds @ rest) = Some (ds0 @ ds, rest, False)"
proof (induction ds arbitrary: ds0)
  case Nil
  then show ?case by (cases rest) auto
next
  case (Cons d ds)
  have "b32_char d \<noteq> CHR ''=''"
    using Cons.prems b32_char_in b32_chars_plain by auto
  with Cons show ?case by (simp add: b32_val_char)
qed

lemma b32_decode_loop_encode: "5 dvd length b \<Longrightarrow> b32_decode_loop (b32_encode b) = Some b"
proof (induction b rule: b32_encode.induct)
  case (1 a b c d e bs)
  have "b32_quantum [] (map b32_char (b32_digits a b c d e) @ b32_encode bs)
      = Some (b32_digits a b c d e, b32_encode bs, False)"
    using b32_quantum_digits [of "[]" "b32_digits a b c d e"] b32_digits_small
    by (simp add: b32_digits_def)
  moreover have "map b32_char (b32_digits a b c d e) @ b32_encode bs \<noteq> []"
    by (simp add: b32_digits_def)
  moreover have "5 dvd length bs"
    using 1 by (simp add: numeral_eq_Suc) presburger
  ultimately show ?case
    using 1 by (subst b32_decode_loop.simps) (simp add: b32_digits_bytes)
qed (auto simp: b32_decode_loop.simps dest: dvd_imp_le)

lemma b32_encode_alphabet: "set (b32_encode b) \<subseteq> set b32_alphabet"
  by (induction b rule: b32_encode.induct) (auto intro: b32_char_in b32_digits_small)

lemma b32_decode_encode: "5 dvd length b \<Longrightarrow> b32_decode (b32_encode b) = Some b"
proof -
  assume "5 dvd length b"
  moreover have "filter (\<lambda>c. c \<noteq> CHR 0x0D \<and> c \<noteq> CHR 0x0A) (b32_encode b) = b32_encode b"
    using b32_encode_alphabet [of b] b32_chars_plain by (intro filter_True) blast
  ultimately show ?thesis by (simp add: b32_decode_def b32_decode_loop_encode)
qed

lemma length_b32_encode: "length (b32_encode b) = 8 * (length b div 5)"
proof (induction b rule: b32_encode.induct)
  case (1 a b c d e bs)
  have "length (a # b # c # d # e # bs) = 5 + length bs" by simp
  then have "length (a # b # c # d # e # bs) div 5 = Suc (length bs div 5)" by linarith
  with 1 show ?case by (simp add: b32_digits_def)
qed simp_all

lemma b32_valD: "b32_val c = Some d \<Longrightarrow> unat d < 32 \<and> c = b32_char d"
proof -
  assume "b32_val c = Some d"
  then obtain i where i: "index_byte b32_alphabet c = Some i" "d = word_of_nat i"
    by (auto simp: b32_val_def)
  from index_byte_Some [OF i(1)] have "i < 32" "b32_alphabet ! i = c"
    by (auto simp: b32_alphabet_def)
  with i(2) show ?thesis by (simp add: b32_char_def unat_of_nat)
qed

lemma bit_small_digit: "unat (d :: byte) < 32 \<Longrightarrow> 5 \<le> n \<Longrightarrow> \<not> bit d n"
proof
  assume "unat d < 32" "5 \<le> n" "bit d n"
  then have "bit (unat d) n" by (simp add: bit_unsigned_iff)
  moreover have "(2::nat) ^ 5 \<le> 2 ^ n" using \<open>5 \<le> n\<close> by (rule power_increasing) simp
  then have "unat d div 2 ^ n = 0" using \<open>unat d < 32\<close> by simp
  ultimately show False by (simp add: bit_iff_odd)
qed

lemma b32_bytes_digits:
  assumes "\<forall>d \<in> set [d0, d1, d2, d3, d4, d5, d6, d7]. unat d < 32"
  shows "map b32_char [d0, d1, d2, d3, d4, d5, d6, d7] = b32_encode (b32_bytes [d0, d1, d2, d3, d4, d5, d6, d7])"
proof -
  note high = bit_small_digit
  let ?a = "push_bit 3 d0 OR drop_bit 2 d1" and ?b = "push_bit 6 d1 OR push_bit 1 d2 OR drop_bit 4 d3"
  let ?c = "push_bit 4 d3 OR drop_bit 1 d4" and ?d = "push_bit 7 d4 OR push_bit 2 d5 OR drop_bit 3 d6"
  let ?e = "push_bit 5 d6 OR d7"
  have "b32_bytes [d0, d1, d2, d3, d4, d5, d6, d7] = [?a, ?b, ?c, ?d, ?e]"
    by (simp add: b32_bytes_def numeral_eq_Suc)
  moreover have "b32_digits ?a ?b ?c ?d ?e = [d0, d1, d2, d3, d4, d5, d6, d7]"
    unfolding b32_digits_def list.inject using assms
    by (intro conjI refl; intro byte_eqI; unfold bit_or_iff bit_push_bit_iff bit_drop_bit_eq bit_take_bit_iff comp_def)
       (auto simp: numeral_eq_Suc high)
  ultimately show ?thesis by simp
qed

lemma length8_conv:
  "length ds = 8 \<Longrightarrow> \<exists>d0 d1 d2 d3 d4 d5 d6 d7. ds = [d0, d1, d2, d3, d4, d5, d6, d7]"
  by (simp add: numeral_eq_Suc length_Suc_conv) blast

lemma b32_bytes_full:
  assumes "length ds = 8" and "\<forall>d \<in> set ds. unat d < 32"
  shows "map b32_char ds = b32_encode (b32_bytes ds) \<and> length (b32_bytes ds) = 5"
proof -
  obtain d0 d1 d2 d3 d4 d5 d6 d7 where ds: "ds = [d0, d1, d2, d3, d4, d5, d6, d7]"
    using length8_conv [OF assms(1)] by blast
  show ?thesis unfolding ds
    using b32_bytes_digits [of d0 d1 d2 d3 d4 d5 d6 d7] assms(2)
    by (simp add: ds) (simp add: b32_bytes_def)
qed

text \<open>What a quantum consumed: its digits, or its digits and padding to at least eight characters.\<close>

lemma b32_quantumD:
  "b32_quantum ds0 src = Some (ds, rest, e) \<Longrightarrow> length ds0 \<le> 8 \<Longrightarrow>
   \<exists>new. ds = ds0 @ new \<and> (\<forall>d \<in> set new. unat d < 32) \<and>
     (if e then length ds \<le> 7 \<and> 8 \<le> length ds0 + length src
      else length ds = 8 \<and> src = map b32_char new @ rest)"
proof (induction ds0 src rule: b32_quantum.induct)
  case (1 ds0)
  then show ?case by (auto split: if_splits)
next
  case (2 ds0 c cs)
  show ?case
  proof (cases "b32_val c")
    case None
    with 2 show ?thesis by (auto split: if_splits)
  next
    case (Some d)
    with 2 b32_valD [OF Some] show ?thesis by (fastforce split: if_splits)
  qed
qed

lemma b32_bytes_short: "length ds \<le> 7 \<Longrightarrow> length (b32_bytes ds) \<le> 4"
  by (simp add: b32_bytes_def)

lemma b32_encode_append5: "length x = 5 \<Longrightarrow> b32_encode (x @ y) = b32_encode x @ b32_encode y"
  by (auto simp: numeral_eq_Suc length_Suc_conv)

lemma b32_decode_loopD:
  "b32_decode_loop src = Some b \<Longrightarrow>
   8 * length b \<le> 5 * length src \<and> (8 * length b = 5 * length src \<longrightarrow> src = b32_encode b)"
proof (induction src arbitrary: b rule: b32_decode_loop.induct)
  case (1 src)
  show ?case
  proof (cases "src = []")
    case True
    with "1.prems" show ?thesis by (simp add: b32_decode_loop.simps)
  next
    case False
    with "1.prems" obtain ds rest e where q: "b32_quantum [] src = Some (ds, rest, e)"
      by (subst (asm) b32_decode_loop.simps) (auto split: option.splits)
    note d = b32_quantumD [OF q, simplified]
    show ?thesis
    proof (cases e)
      case True
      with q False "1.prems" have "b = b32_bytes ds" by (subst (asm) b32_decode_loop.simps) simp
      with d True b32_bytes_short [of ds] show ?thesis by auto
    next
      case full: False
      with q False "1.prems" obtain bs
        where bs: "b32_decode_loop rest = Some bs" "b = b32_bytes ds @ bs"
        by (subst (asm) b32_decode_loop.simps) auto
      from "1.IH" [OF False q refl refl full bs(1)] d full bs(2) b32_bytes_full [of ds]
      show ?thesis by (auto simp: b32_encode_append5 length_b32_encode)
    qed
  qed
qed

lemma filter_length_id: "length (filter P xs) = length xs \<Longrightarrow> filter P xs = xs"
proof (induction xs)
  case (Cons x xs)
  then show ?case using length_filter_le [of P xs] by (cases "P x") auto
qed simp

lemma b32_decode_20:
  assumes "b32_decode s = Some b" and "length b = 20" and "length s = 32"
  shows "s = b32_encode b"
proof -
  let ?f = "filter (\<lambda>c. c \<noteq> CHR 0x0D \<and> c \<noteq> CHR 0x0A) s"
  have d: "8 * length b \<le> 5 * length ?f" "8 * length b = 5 * length ?f \<longrightarrow> ?f = b32_encode b"
    using b32_decode_loopD [of ?f b] assms(1) by (auto simp: b32_decode_def)
  then have "length ?f = length s"
    using assms(2,3) length_filter_le [of "\<lambda>c. c \<noteq> CHR 0x0D \<and> c \<noteq> CHR 0x0A" s] by linarith
  then have "?f = s"
    by (rule filter_length_id)
  with d assms show ?thesis by simp
qed

subsection \<open>Hexadecimal\<close>

lemma hex_table_chars:
  "\<forall>c \<in> set hex_table. is_lower_hex c \<and> char_lower c = c"
  by (simp add: hex_table_def is_lower_hex_def char_lower_def is_upper_def byte_of_def)

lemma hex_index_bounds: "unat (drop_bit 4 (b :: byte)) < 16 \<and> unat (b AND 15) < 16"
proof
  have "b AND 15 = take_bit 4 b" by (simp add: take_bit_eq_mask mask_eq_exp_minus_1)
  moreover have "unat (take_bit 4 b) < 2 ^ 4"
    unfolding unsigned_take_bit_eq by (rule take_bit_nat_less_exp)
  ultimately show "unat (b AND 15) < 16" by simp
  have "unat (drop_bit 4 b) = unat b div 2 ^ 4"
    by (simp add: drop_bit_eq_div unat_div)
  moreover have "unat b < 2 ^ LENGTH(8)" by (rule unsigned_less)
  ultimately show "unat (drop_bit 4 b) < 16" by simp
qed

lemma hex_byte_set: "set (hex_byte b) \<subseteq> set hex_table"
proof -
  have "length hex_table = 16" by (simp add: hex_table_def)
  then show ?thesis using hex_index_bounds [of b] by (simp add: hex_byte_def)
qed

lemma hex_encode_set: "set (hex_encode b) \<subseteq> set hex_table"
  using hex_byte_set by (auto simp: hex_encode_def)

lemma length_hex_encode [simp]: "length (hex_encode b) = 2 * length b"
  by (induction b) (simp_all add: hex_encode_def hex_byte_def)

lemma hex_byte_inject: "hex_byte a = hex_byte b \<Longrightarrow> a = b"
proof -
  assume h: "hex_byte a = hex_byte b"
  have "distinct hex_table" by (simp add: hex_table_def)
  then have "unat (drop_bit 4 a) = unat (drop_bit 4 b)" "unat (a AND 15) = unat (b AND 15)"
    using h hex_index_bounds [of a] hex_index_bounds [of b]
    by (simp_all add: hex_byte_def nth_eq_iff_index_eq hex_table_def del: nth_Cons_numeral distinct.simps)
  then have eq: "drop_bit 4 a = drop_bit 4 b" "take_bit 4 a = take_bit 4 b"
    by (simp_all add: word_unat_eq_iff take_bit_eq_mask mask_eq_exp_minus_1)
  have "push_bit 4 (drop_bit 4 a) + take_bit 4 a = push_bit 4 (drop_bit 4 b) + take_bit 4 b"
    by (simp only: eq)
  then show "a = b" by (simp only: bits_ident)
qed

lemma hex_encode_inject: "length a = length b \<Longrightarrow> hex_encode a = hex_encode b \<Longrightarrow> a = b"
proof (induction a b rule: list_induct2)
  case (Cons x xs y ys)
  then have "hex_byte x @ hex_encode xs = hex_byte y @ hex_encode ys"
    by (simp add: hex_encode_def)
  then have "hex_byte x = hex_byte y" "hex_encode xs = hex_encode ys"
    by (simp_all add: hex_byte_def)
  with Cons.IH hex_byte_inject show ?case by simp
qed simp

subsection \<open>Alphanumeric payloads\<close>

lemma is_alnum_solid: "is_alnum c \<Longrightarrow> solid c"
  by (rule solid_ascii) (auto simp: is_alnum_def is_digit_def is_lower_def is_upper_def)

lemma is_alnum_not_punct: "is_alnum c \<Longrightarrow> c \<noteq> CHR ''&'' \<and> c \<noteq> CHR '':''"
  by (auto simp: is_alnum_def is_digit_def is_lower_def is_upper_def byte_of_def)

lemma is_alnum_lower: "is_alnum (char_lower c) \<longleftrightarrow> is_alnum c"
  by (auto simp: char_lower_def is_alnum_def is_digit_def is_lower_def is_upper_def)

lemma is_alnum_upper: "is_alnum (char_upper c) \<longleftrightarrow> is_alnum c"
  by (auto simp: char_upper_def is_alnum_def is_digit_def is_lower_def is_upper_def)

lemma hex_alnum: "is_any_hex c \<Longrightarrow> is_alnum c"
  by (auto simp: is_any_hex_def is_alnum_def is_digit_def is_lower_def is_upper_def)

lemma lower_hex_any: "is_lower_hex c \<Longrightarrow> is_any_hex c \<and> char_lower c = c"
  by (auto simp: is_lower_hex_def is_any_hex_def char_lower_def is_upper_def)

lemma any_hex_lower: "is_lower_hex (char_lower c) \<longleftrightarrow> is_any_hex c"
  by (auto simp: is_any_hex_def is_lower_hex_def char_lower_def is_upper_def)

lemma b32_alphabet_alnum: "\<forall>c \<in> set b32_alphabet. is_alnum c"
  by (simp add: b32_alphabet_def is_alnum_def is_digit_def is_lower_def is_upper_def byte_of_def)

lemma spells_alnum: "spells b s \<Longrightarrow> c \<in> set s \<Longrightarrow> is_alnum c"
proof -
  assume "spells b s" and c: "c \<in> set s"
  then consider "to_lower s = hex_encode b" | "to_upper s = b32_encode b"
    by (auto simp: spells_def)
  then show ?thesis
  proof cases
    case 1
    then have "char_lower c \<in> set hex_table"
      using c hex_encode_set [of b] by (auto simp: to_lower_def simp flip: 1)
    then show ?thesis
      using hex_table_chars lower_hex_any hex_alnum is_alnum_lower by blast
  next
    case 2
    then have "char_upper c \<in> set b32_alphabet"
      using c b32_encode_alphabet [of b] by (auto simp: to_upper_def simp flip: 2)
    then show ?thesis using b32_alphabet_alnum is_alnum_upper by blast
  qed
qed

lemma hex_table_codes:
  "\<forall>n \<in> {..<10}. hex_table ! n = char_of (48 + n)" "\<forall>n \<in> {10..<16}. hex_table ! n = char_of (87 + n)"
  by code_simp+

lemma lower_hex_index: "is_lower_hex c \<Longrightarrow> \<exists>n < 16. c = hex_table ! n"
proof -
  assume "is_lower_hex c"
  then consider "48 \<le> byte_of c" "byte_of c < 58" | "97 \<le> byte_of c" "byte_of c < 103"
    by (fastforce simp: is_lower_hex_def)
  then show ?thesis
  proof cases
    case 1
    then have "hex_table ! (byte_of c - 48) = c"
      using hex_table_codes(1) by simp
    with 1 show ?thesis by (intro exI [of _ "byte_of c - 48"]) simp
  next
    case 2
    then have "hex_table ! (byte_of c - 87) = c"
      using hex_table_codes(2) [rule_format, of "byte_of c - 87"] by fastforce
    with 2 show ?thesis by (intro exI [of _ "byte_of c - 87"]) auto
  qed
qed

lemma unat_byte_of_nat: "k < 256 \<Longrightarrow> unat (word_of_nat k :: byte) = k"
  by (simp add: unat_of_nat)

lemma hex_byte_unat:
  assumes "unat w = 16 * m + n" and "m < 16" and "n < 16"
  shows "hex_byte w = [hex_table ! m, hex_table ! n]"
proof -
  have "unat (drop_bit 4 w) = m"
    using assms by (simp add: drop_bit_eq_div unat_div)
  moreover have "w AND 15 = take_bit 4 w" by (simp add: take_bit_eq_mask mask_eq_exp_minus_1)
  then have "unat (w AND 15) = n"
    using assms by (simp add: unsigned_take_bit_eq take_bit_eq_mod unat_mod)
  ultimately show ?thesis by (simp add: hex_byte_def)
qed

lemma hex_encode_surj: "list_all is_lower_hex k \<Longrightarrow> even (length k) \<Longrightarrow> \<exists>b. hex_encode b = k"
proof (induction k rule: induct_list012)
  case (3 x y zs)
  then obtain b m n where "hex_encode b = zs" "m < 16" "n < 16" "x = hex_table ! m" "y = hex_table ! n"
    using lower_hex_index by auto blast
  then have "hex_encode (word_of_nat (16 * m + n) # b) = x # y # zs"
    using hex_byte_unat [OF unat_byte_of_nat, of m n] by (simp add: hex_encode_def)
  then show ?case by blast
next
  case 1
  have "hex_encode [] = []" by (simp add: hex_encode_def)
  then show ?case by blast
qed simp

subsection \<open>Normalisation\<close>

lemma isCanonical_hex_encode: "length b = 20 \<Longrightarrow> isCanonicalInfohash (hex_encode b)"
  using hex_encode_set [of b] hex_table_chars by (auto simp: isCanonicalInfohash_def list_all_iff)

lemma canonical_surj: "isCanonicalInfohash k \<Longrightarrow> \<exists>b. length b = 20 \<and> hex_encode b = k"
  using hex_encode_surj [of k] by (force simp: isCanonicalInfohash_def)

lemma to_lower_hex40: "length s = 40 \<Longrightarrow> isCanonicalInfohash (to_lower s) \<longleftrightarrow> isHex40 s"
  by (auto simp: isCanonicalInfohash_def isHex40_def to_lower_def list_all_iff any_hex_lower)

lemma canonicalBtih_spells:
  assumes "length b = 20" and "spells b s"
  shows "canonicalBtih s = Inr (hex_encode b)"
proof -
  from assms(2) consider "to_lower s = hex_encode b" | "to_upper s = b32_encode b"
    by (auto simp: spells_def)
  then show ?thesis
  proof cases
    case 1
    from arg_cong [OF this, of length] have "length s = 40" using assms(1) by (simp add: to_lower_def)
    with 1 assms(1) show ?thesis
      using to_lower_hex40 [of s] isCanonical_hex_encode [of b] by (simp add: canonicalBtih_def)
  next
    case 2
    from arg_cong [OF this, of length] have "length s = 32"
      using assms(1) by (simp add: to_upper_def length_b32_encode)
    with 2 assms(1) show ?thesis by (simp add: canonicalBtih_def b32_decode_encode)
  qed
qed

lemma canonicalBtih_spellsD:
  assumes "canonicalBtih s = Inr k"
  shows "\<exists>b. length b = 20 \<and> k = hex_encode b \<and> spells b s"
proof (cases "length s = 40")
  case True
  with assms have "isCanonicalInfohash (to_lower s)" "k = to_lower s"
    using to_lower_hex40 [of s] by (auto simp: canonicalBtih_def split: if_splits)
  with canonical_surj show ?thesis unfolding spells_def by metis
next
  case False
  with assms obtain b where "length s = 32" "b32_decode (to_upper s) = Some b" "length b = 20"
      "k = hex_encode b"
    by (auto simp: canonicalBtih_def split: if_splits option.splits)
  with b32_decode_20 [of "to_upper s" b] show ?thesis
    by (auto simp: spells_def to_upper_def)
qed

lemma canonicalBtih_canonical: "canonicalBtih s = Inr k \<Longrightarrow> isCanonicalInfohash k"
  using canonicalBtih_spellsD isCanonical_hex_encode by blast

lemma before_amp_sublist: "sublist (before_amp t) t"
  by (auto simp: before_amp_def split: option.splits)

lemma before_amp_append:
  assumes "CHR ''&'' \<notin> set s" and "t = [] \<or> hd t = CHR ''&''"
  shows "before_amp (s @ t) = s"
proof (cases t)
  case Nil
  moreover have "index_byte s (CHR ''&'') = None" using assms(1) by simp
  ultimately show ?thesis by (simp add: before_amp_def del: index_byte_None)
next
  case (Cons c v)
  with assms(2) index_byte_append [OF assms(1)] show ?thesis by (simp add: before_amp_def)
qed

lemma NormalizeInfohash_payload:
  "NormalizeInfohash raw = Inr k \<Longrightarrow> \<exists>s. sublist s raw \<and> canonicalBtih s = Inr k"
proof -
  assume n: "NormalizeInfohash raw = Inr k"
  have sub: "sublist s raw" if "sublist s (trim_space raw)" for s
    using that trim_space_sublist [of raw] by (rule sublist_order.order_trans)
  show ?thesis
  proof (cases "str_index (trim_space raw) ''urn:btih:''")
    case None
    with n have "canonicalBtih (trim_space raw) = Inr k"
      by (simp add: NormalizeInfohash_def Let_def split: if_splits)
    with sub show ?thesis by blast
  next
    case (Some i)
    let ?t = "drop (i + length ''urn:btih:'') (trim_space raw)"
    from n Some have "canonicalBtih (before_amp ?t) = Inr k"
      by (simp add: NormalizeInfohash_def Let_def split: if_splits)
    moreover have "sublist (before_amp ?t) (trim_space raw)"
      by (rule sublist_order.order_trans [OF before_amp_sublist sublist_drop])
    ultimately show ?thesis using sub by blast
  qed
qed

lemma canonical_alnum: "isCanonicalInfohash k \<Longrightarrow> list_all is_alnum k"
  using lower_hex_any hex_alnum by (fastforce simp: isCanonicalInfohash_def list_all_iff)

lemma alnum_not_sublist: "list_all is_alnum s \<Longrightarrow> CHR '':'' \<in> set p \<Longrightarrow> \<not> sublist p s"
  using is_alnum_not_punct by (fastforce simp: list_all_iff dest: set_mono_sublist)

text \<open>A bare alphanumeric payload reaches \<^const>\<open>canonicalBtih\<close> unchanged.\<close>

lemma NormalizeInfohash_bare:
  assumes "list_all is_alnum s" and "s \<noteq> []"
  shows "NormalizeInfohash s = canonicalBtih s"
proof -
  have "trim_space s = s"
    using assms(1) is_alnum_solid by (intro trim_space_all_solid) (auto simp: list_all_iff)
  moreover have "str_index s ''urn:btih:'' = None" "\<not> str_contains s ''urn:btmh:''"
    using alnum_not_sublist [OF assms(1)] by (simp_all add: str_index_None str_contains_iff)
  moreover have "\<not> prefix ''magnet:'' s"
    using alnum_not_sublist [OF assms(1), of "''magnet:''"] by (auto dest: prefix_imp_sublist)
  ultimately show ?thesis using assms(2) by (simp add: NormalizeInfohash_def Let_def)
qed

lemma str_index_extend:
  "str_index (u @ p) p = Some (length u) \<Longrightarrow> str_index (u @ p @ v) p = Some (length u)"
proof (induction u)
  case Nil
  then show ?case by (simp add: str_index_self)
next
  case (Cons c u)
  have "\<not> prefix p ((c # u) @ p)"
    using Cons.prems by (auto split: if_splits)
  then have "\<not> prefix p ((c # u) @ p @ v)"
    by (metis append.assoc append_eq_append_conv2 le_add2 length_append prefix_def prefix_length_prefix prefixI)
  with Cons show ?case by (auto split: if_splits)
qed

lemma NormalizeInfohash_urn:
  assumes u: "u \<noteq> []" "solid (hd u)" "str_index (u @ ''urn:btih:'') ''urn:btih:'' = Some (length u)"
    and s: "list_all is_alnum s" and tail: "tail = [] \<or> hd tail = CHR ''&''"
  shows "NormalizeInfohash (u @ ''urn:btih:'' @ s @ tail) = canonicalBtih s"
proof -
  obtain c u' where c: "u = c # u'" "solid c" using u(1,2) by (cases u) auto
  have amp: "CHR ''&'' \<notin> set s" using s is_alnum_not_punct by (auto simp: list_all_iff)
  have colon: "solid (CHR '':'')" and "solid (CHR ''&'')" by (simp_all add: solid_ascii byte_of_def)
  have "\<exists>t. trim_space (u @ ''urn:btih:'' @ s @ tail) = u @ ''urn:btih:'' @ s @ t \<and> (t = [] \<or> hd t = CHR ''&'')"
  proof (cases tail)
    case Nil
    have "trim_right s = s"
      using s trim_right_solid [of "last s" "butlast s" "[]"] is_alnum_solid
      by (cases s rule: rev_cases) (auto simp: list_all_iff)
    then show ?thesis
      using trim_space_solid_between [OF c(2) colon, of "u' @ ''urn:btih''" s] Nil c(1) by simp
  next
    case (Cons d rest)
    with tail show ?thesis
      using trim_space_solid_between [OF c(2) \<open>solid (CHR ''&'')\<close>, of "u' @ ''urn:btih:'' @ s" rest] c(1)
      by (intro exI [of _ "CHR ''&'' # trim_right rest"]) simp
  qed
  then obtain t where t: "trim_space (u @ ''urn:btih:'' @ s @ tail) = u @ ''urn:btih:'' @ s @ t"
      "t = [] \<or> hd t = CHR ''&''" by blast
  have "str_index (u @ ''urn:btih:'' @ s @ t) ''urn:btih:'' = Some (length u)"
    using str_index_extend [OF u(3), of "s @ t"] by simp
  moreover have "before_amp (s @ t) = s"
    using before_amp_append [OF amp t(2)] .
  ultimately show ?thesis
    using t(1) u(1) by (simp add: NormalizeInfohash_def Let_def)
qed

lemma NormalizeInfohash_isCanonical: "NormalizeInfohash raw = Inr k \<Longrightarrow> isCanonicalInfohash k"
  using NormalizeInfohash_payload canonicalBtih_canonical by blast

lemma NormalizeInfohash_fixed:
  assumes k: "isCanonicalInfohash k"
  shows "NormalizeInfohash k = Inr k"
proof -
  from k obtain b where "length b = 20" "hex_encode b = k" using canonical_surj by blast
  moreover have "to_lower k = k"
    using k lower_hex_any by (auto simp: isCanonicalInfohash_def to_lower_def list_all_iff intro: map_idI)
  ultimately have "canonicalBtih k = Inr k"
    using canonicalBtih_spells [of b k] by (simp add: spells_def)
  moreover have "k \<noteq> []" using k by (auto simp: isCanonicalInfohash_def)
  ultimately show ?thesis using NormalizeInfohash_bare [OF canonical_alnum [OF k]] by simp
qed

section \<open>Properties\<close>

text \<open>
  C1. Soundness and completeness of the normaliser on what it accepts: a successful
  \<open>NormalizeInfohash\<close> returns the lowercase hex of a 20-byte hash that the input really
  spells, in hex or in base32, so no two different hashes share a key.
\<close>

theorem NormalizeInfohash_sound:
  assumes "NormalizeInfohash raw = Inr k"
  shows "\<exists>b s. length b = 20 \<and> k = hex_encode b \<and> spells b s \<and> sublist s raw \<and>
    isCanonicalInfohash k"
  using NormalizeInfohash_payload [OF assms] canonicalBtih_spellsD isCanonical_hex_encode by metis

theorem NormalizeInfohash_sound_witness:
  "\<exists>b s. length b = 20 \<and> ''4b7e3a050b355055f3cd149c5e68d9ea4576b692'' = hex_encode b \<and> spells b s \<and>
     sublist s ''JN7DUBILGVIFL46NCSOF42GZ5JCXNNUS'' \<and>
     isCanonicalInfohash ''4b7e3a050b355055f3cd149c5e68d9ea4576b692''"
proof (rule NormalizeInfohash_sound)
  show "NormalizeInfohash ''JN7DUBILGVIFL46NCSOF42GZ5JCXNNUS'' = Inr ''4b7e3a050b355055f3cd149c5e68d9ea4576b692''"
    by code_simp
qed

text \<open>
  C2. The dedup linchpin: every spelling of one 20-byte hash, in any letter case, bare or after
  \<open>urn:btih:\<close> in a magnet link with or without further parameters, normalises to the same key.
\<close>

theorem NormalizeInfohash_dedup:
  assumes "length b = 20" and "spells b s"
    and "u \<noteq> []" and "solid (hd u)"
    and "str_index (u @ ''urn:btih:'') ''urn:btih:'' = Some (length u)"
    and "tail = [] \<or> hd tail = CHR ''&''"
  shows "NormalizeInfohash s = Inr (hex_encode b) \<and>
    NormalizeInfohash (u @ ''urn:btih:'' @ s @ tail) = Inr (hex_encode b)"
proof
  have s: "list_all is_alnum s" using spells_alnum [OF assms(2)] by (simp add: list_all_iff)
  note c = canonicalBtih_spells [OF assms(1,2)]
  then have "s \<noteq> []" by (auto simp: canonicalBtih_def)
  with s c show "NormalizeInfohash s = Inr (hex_encode b)" by (simp add: NormalizeInfohash_bare)
  from s c show "NormalizeInfohash (u @ ''urn:btih:'' @ s @ tail) = Inr (hex_encode b)"
    using NormalizeInfohash_urn [OF assms(3,4,5) s assms(6)] by simp
qed

theorem NormalizeInfohash_dedup_witness:
  "NormalizeInfohash ''JN7DUBILGVIFL46NCSOF42GZ5JCXNNUS''
     = Inr (hex_encode [0x4b, 0x7e, 0x3a, 0x05, 0x0b, 0x35, 0x50, 0x55, 0xf3, 0xcd,
                        0x14, 0x9c, 0x5e, 0x68, 0xd9, 0xea, 0x45, 0x76, 0xb6, 0x92]) \<and>
   NormalizeInfohash (''magnet:?xt='' @ ''urn:btih:'' @ ''JN7DUBILGVIFL46NCSOF42GZ5JCXNNUS'' @ ''&dn=x'')
     = Inr (hex_encode [0x4b, 0x7e, 0x3a, 0x05, 0x0b, 0x35, 0x50, 0x55, 0xf3, 0xcd,
                        0x14, 0x9c, 0x5e, 0x68, 0xd9, 0xea, 0x45, 0x76, 0xb6, 0x92])"
proof (rule NormalizeInfohash_dedup)
  show "spells [0x4b, 0x7e, 0x3a, 0x05, 0x0b, 0x35, 0x50, 0x55, 0xf3, 0xcd,
      0x14, 0x9c, 0x5e, 0x68, 0xd9, 0xea, 0x45, 0x76, 0xb6, 0x92] ''JN7DUBILGVIFL46NCSOF42GZ5JCXNNUS''"
    by code_simp
  show "solid (hd ''magnet:?xt='')" by (simp add: solid_ascii byte_of_def)
  show "str_index (''magnet:?xt='' @ ''urn:btih:'') ''urn:btih:'' = Some (length ''magnet:?xt='')"
    by simp
qed simp_all

text \<open>
  Normalisation is a projection: a canonical key is its own normal form, so normalising a
  second time (as the REST handler followed by the dispatcher does) changes nothing.
\<close>

lemma NormalizeInfohash_idempotent:
  assumes "NormalizeInfohash raw = Inr k"
  shows "NormalizeInfohash k = Inr k"
  using NormalizeInfohash_fixed [OF NormalizeInfohash_isCanonical [OF assms]] .

end
