(* ===== verification/Refs.thy ===== *)
theory Refs
  imports Takuhai_Prelude
begin

text \<open>
  The ref-shape guard of \<open>internal/cursor/cursor.go\<close>: \<open>refRe\<close> and \<open>ValidateRef\<close>.
  A ref is \<open>namespace:value\<close>; the value is opaque.
\<close>

section \<open>Definitions\<close>

datatype cursor_error = ErrInvalidRef | ErrInvalidCursor

definition ns_head :: "char \<Rightarrow> bool" where
  "ns_head c \<longleftrightarrow> is_lower c"

definition ns_tail :: "char \<Rightarrow> bool" where
  "ns_tail c \<longleftrightarrow> is_lower c \<or> is_digit c \<or> c = CHR ''_'' \<or> c = CHR ''-''"

text \<open>\<open>.\<close> of Go's regular expressions matches every character but the line feed.\<close>

definition re_dot :: "char \<Rightarrow> bool" where
  "re_dot c \<longleftrightarrow> c \<noteq> CHR 0x0A"

text \<open>The three parts of \<open>^[a-z][a-z0-9_-]*:.+$\<close>, matched left to right.\<close>

definition match_value :: "string \<Rightarrow> bool" where
  "match_value s \<longleftrightarrow> s \<noteq> [] \<and> list_all re_dot s"

fun match_namespace :: "string \<Rightarrow> bool" where
  "match_namespace [] = False"
| "match_namespace (c # cs) =
     ((c = CHR '':'' \<and> match_value cs) \<or> (ns_tail c \<and> match_namespace cs))"

definition refRe :: "string \<Rightarrow> bool" where
  "refRe s = (case s of [] \<Rightarrow> False | c # cs \<Rightarrow> ns_head c \<and> match_namespace cs)"

definition ValidateRef :: "string \<Rightarrow> cursor_error option" where
  "ValidateRef ref = (if \<not> refRe ref then Some ErrInvalidRef else None)"

section \<open>Lemmas\<close>

lemma match_namespace_iff:
  "match_namespace s \<longleftrightarrow>
   (\<exists>u v. s = u @ CHR '':'' # v \<and> list_all ns_tail u \<and> match_value v)"
proof (induction s)
  case (Cons c s)
  show ?case
  proof
    assume "match_namespace (c # s)"
    then consider "c = CHR '':''" "match_value s" | "ns_tail c" "match_namespace s" by auto
    then show "\<exists>u v. c # s = u @ CHR '':'' # v \<and> list_all ns_tail u \<and> match_value v"
    proof cases
      case 1
      then show ?thesis by (intro exI [of _ "[]"] exI [of _ s]) auto
    next
      case 2
      with Cons obtain u v where "s = u @ CHR '':'' # v" "list_all ns_tail u" "match_value v" by auto
      with 2 show ?thesis by (intro exI [of _ "c # u"] exI [of _ v]) auto
    qed
  next
    assume "\<exists>u v. c # s = u @ CHR '':'' # v \<and> list_all ns_tail u \<and> match_value v"
    then obtain u v where *: "c # s = u @ CHR '':'' # v" "list_all ns_tail u" "match_value v" by auto
    with Cons.IH show "match_namespace (c # s)" by (cases u) auto
  qed
qed simp

text \<open>The language of the pattern: a namespace, the first colon, and a value on one line.\<close>

lemma ValidateRef_iff:
  "ValidateRef s = None \<longleftrightarrow>
   (\<exists>n u v. s = n # u @ CHR '':'' # v \<and> is_lower n \<and> list_all ns_tail u \<and>
     v \<noteq> [] \<and> CHR 0x0A \<notin> set v)"
  by (cases s)
     (auto simp: ValidateRef_def refRe_def match_namespace_iff ns_head_def match_value_def
        re_dot_def list_all_iff)

end
