(* ===== verification/Sql.thy ===== *)
theory Sql
  imports Takuhai_Prelude
begin

text \<open>
  The few SQL constructs the store's statements are made of, on tables as lists of rows:
  \<open>UPDATE ... WHERE\<close>, \<open>ORDER BY ... DESC\<close>, \<open>count(*) FILTER\<close>, \<open>COALESCE\<close>, \<open>NULLIF\<close>, and the
  lemmas about keys, lookups and sorted results that every statement shares.
\<close>

section \<open>Definitions\<close>

definition update_where :: "('r \<Rightarrow> bool) \<Rightarrow> ('r \<Rightarrow> 'r) \<Rightarrow> 'r list \<Rightarrow> 'r list" where
  "update_where P f rows = map (\<lambda>r. if P r then f r else r) rows"

definition order_desc :: "('r \<Rightarrow> 'k::linorder) \<Rightarrow> 'r list \<Rightarrow> 'r list" where
  "order_desc k rows = rev (sort_key k rows)"

definition count_where :: "('r \<Rightarrow> bool) \<Rightarrow> 'r list \<Rightarrow> nat" where
  "count_where P rows = length (filter P rows)"

definition coalesce :: "'a option \<Rightarrow> 'a option \<Rightarrow> 'a option" where
  "coalesce a b = (case a of None \<Rightarrow> b | Some x \<Rightarrow> Some x)"

definition nullif_empty :: "string option \<Rightarrow> string option" where
  "nullif_empty x = (if x = Some [] then None else x)"

section \<open>Lemmas: updates and keys\<close>

named_theorems sql_simps "the effect of SQL statements on tables"

lemma length_update_where [simp, sql_simps]: "length (update_where P f rows) = length rows"
  by (simp add: update_where_def)

lemma set_update_where [sql_simps]:
  "set (update_where P f rows) = (\<lambda>r. if P r then f r else r) ` set rows"
  by (simp add: update_where_def)

lemma map_update_where [sql_simps]:
  "(\<And>r. k (f r) = k r) \<Longrightarrow> map k (update_where P f rows) = map k rows"
  by (simp add: update_where_def)

lemma update_where_cong:
  "(\<And>r. r \<in> set rows \<Longrightarrow> P r = Q r) \<Longrightarrow> (\<And>r. r \<in> set rows \<Longrightarrow> P r \<Longrightarrow> f r = g r) \<Longrightarrow>
   update_where P f rows = update_where Q g rows"
  by (simp add: update_where_def)

lemma update_where_none: "(\<And>r. r \<in> set rows \<Longrightarrow> \<not> P r) \<Longrightarrow> update_where P f rows = rows"
  by (simp add: update_where_def map_idI)

lemma find_update_where:
  assumes "\<And>r. k (f r) = k r"
  shows "find (\<lambda>r. k r = x) (update_where P f rows) =
    map_option (\<lambda>r. if P r then f r else r) (find (\<lambda>r. k r = x) rows)"
  by (induction rows) (auto simp: update_where_def assms)

lemma find_key_iff:
  "distinct (map k rows) \<Longrightarrow> find (\<lambda>r. k r = x) rows = Some r \<longleftrightarrow> r \<in> set rows \<and> k r = x"
  by (induction rows) (auto simp: image_iff)

lemma find_key_None: "find (\<lambda>r. k r = x) rows = None \<longleftrightarrow> x \<notin> k ` set rows"
  by (auto simp: find_None_iff)

lemma find_append: "find P (xs @ ys) = (case find P xs of None \<Rightarrow> find P ys | Some x \<Rightarrow> Some x)"
  by (induction xs) auto

lemma distinct_key_inject:
  "distinct (map k rows) \<Longrightarrow> a \<in> set rows \<Longrightarrow> b \<in> set rows \<Longrightarrow> k a = k b \<Longrightarrow> a = b"
  by (metis find_key_iff option.inject)

lemma filter_update_where:
  "(\<And>r. Q (f r) = Q r) \<Longrightarrow> filter Q (update_where P f rows) = update_where P f (filter Q rows)"
  by (induction rows) (auto simp: update_where_def)

lemma count_where_le: "count_where P rows \<le> length rows"
  by (simp add: count_where_def)

lemma count_where_append [sql_simps]:
  "count_where P (xs @ ys) = count_where P xs + count_where P ys"
  by (simp add: count_where_def)

lemma coalesce_simps [simp]: "coalesce (Some x) b = Some x" "coalesce None b = b"
  by (simp_all add: coalesce_def)

section \<open>Lemmas: ordering\<close>

lemma set_order_desc [simp]: "set (order_desc k rows) = set rows"
  by (simp add: order_desc_def)

lemma length_order_desc [simp]: "length (order_desc k rows) = length rows"
  by (simp add: order_desc_def)

lemma distinct_order_desc [simp]: "distinct (order_desc k rows) = distinct rows"
  by (simp add: order_desc_def)

lemma order_desc_Nil [simp]: "order_desc k [] = []"
  by (simp add: order_desc_def)

lemma order_desc_eq_Nil [simp]: "order_desc k rows = [] \<longleftrightarrow> rows = []"
  by (metis length_0_conv length_order_desc)

lemma order_desc_single [simp]: "order_desc k [x] = [x]"
  by (simp add: order_desc_def)

lemma sorted_order_desc: "sorted_wrt (\<lambda>a b. k b \<le> k a) (order_desc k rows)"
  using sorted_sort_key [of k rows]
  by (simp add: order_desc_def sorted_wrt_rev sorted_map)

lemma insort_key_map:
  "(\<And>x. k (g x) = k' x) \<Longrightarrow> insort_key k (g x) (map g xs) = map g (insort_key k' x xs)"
  by (induction xs) auto

lemma sort_key_map:
  "(\<And>x. k (g x) = k' x) \<Longrightarrow> sort_key k (map g xs) = map g (sort_key k' xs)"
  by (induction xs) (auto simp: insort_key_map)

lemma sorted_desc_strict:
  fixes k :: "'r \<Rightarrow> 'k::linorder"
  assumes "sorted_wrt (\<lambda>a b. k b \<le> k a) xs" "distinct (map k xs)"
  shows "sorted_wrt (\<lambda>a b. k b < k a) xs"
  using assms by (induction xs) (auto simp: order.strict_iff_order intro: rev_image_eqI)

lemma order_desc_map:
  "(\<And>x. k (g x) = k' x) \<Longrightarrow> order_desc k (map g xs) = map g (order_desc k' xs)"
  by (simp add: order_desc_def sort_key_map [of k g k'] rev_map)

text \<open>With distinct keys the descending order of a set of rows is unique.\<close>

lemma sorted_desc_unique:
  fixes k :: "'r \<Rightarrow> 'k::linorder"
  assumes "sorted_wrt (\<lambda>a b. k b \<le> k a) xs" "sorted_wrt (\<lambda>a b. k b \<le> k a) ys"
    and "set xs = set ys" "distinct (map k xs)" "distinct (map k ys)"
  shows "xs = ys"
proof -
  have "sorted (map k (rev xs))" "sorted (map k (rev ys))"
    using assms(1,2) by (simp_all add: sorted_map sorted_wrt_rev)
  moreover have "distinct (map k (rev xs))" "distinct (map k (rev ys))"
    using assms(4,5) by (simp_all add: rev_map [symmetric])
  ultimately have "map k (rev xs) = map k (rev ys)"
    using assms(3) by (intro sorted_distinct_set_unique) auto
  moreover have "inj_on k (set (rev xs) \<union> set (rev ys))"
    using assms(3,4) by (simp add: distinct_map)
  ultimately have "rev xs = rev ys" by (simp only: inj_on_map_eq_map)
  then show ?thesis by simp
qed

lemma order_desc_filter:
  "order_desc k (filter P rows) = filter P (order_desc k rows)"
  by (simp add: order_desc_def filter_sort [symmetric] rev_filter [symmetric])

lemma sorted_wrt_take: "sorted_wrt P xs \<Longrightarrow> sorted_wrt P (take n xs)"
  by (metis append_take_drop_id sorted_wrt_append)

lemma sorted_wrt_take_drop:
  "sorted_wrt P xs \<Longrightarrow> a \<in> set (take n xs) \<Longrightarrow> b \<in> set (drop n xs) \<Longrightarrow> P a b"
  by (metis append_take_drop_id sorted_wrt_append)

end
