(* ===== verification/Store.thy ===== *)
theory Store
  imports Infohash Refs Sql
begin

text \<open>
  The store: the interface types of \<open>internal/store/store.go\<close> and the PostgreSQL
  implementation \<open>internal/store/postgres/store.go\<close> over the tables of \<open>db/migrations\<close>.

  \<^item> The database is a record of tables, each a list of row records, and the two
    \<open>BIGSERIAL\<close> sequences. Every statement of the source is a definition on it; an operation
    runs its statements on a working copy, the transaction, and either commits it or rolls
    back. A sequence keeps its advances over a rollback, as PostgreSQL's do.
  \<^item> \<open>pool\<close> is what the driver and the server contribute, as parameters: \<open>tz\<close>, the encoding
    of a \<open>time.Time\<close> into a \<open>TIMESTAMPTZ\<close>; \<open>zone\<close>, the offset of the local zone the driver
    returns times in; \<open>fails\<close>, which calls return an error, whatever
    its cause; \<open>lostAck\<close>, whether a commit that reports an error was applied
    nevertheless; \<open>locked\<close>, the rows other transactions hold when \<open>SKIP LOCKED\<close> looks.
  \<^item> \<open>clock\<close> is the reading of the injected clock in the call. An operation reads it once.
  \<^item> \<open>TEXT\<close> is compared by bytes. Infohashes are lowercase hex, on which every collation
    agrees with that.
\<close>

section \<open>The store interface\<close>

datatype dbcall =
    BeginTx | Commit
  | UpsertRelease | InsertRawItem | RecomputeRepresentative
  | ExhaustOldAttempts | SelectAndLease | CollectLeased
  | LoadRawItems string | CollectRawItems string
  | LoadLease | UpdateRelease | AppendMatchEvent
  | SelectQueueStats | SelectCatalogStats
  | SelectRelease | LoadMatchEvents | CollectMatchEvents
  | SelectMagnets | ScanMagnets | PingPool
  | SelectReleases | CollectReleases

datatype store_error =
    ErrNoSuchRelease string
  | ErrNoActiveLease string
  | ErrStaleLease string
  | RefError cursor_error
  | InvalidStatus string
  | ImpossibleStatus string
  | BatchExceedsCap nat
  | NilPool
  | DbError dbcall string

record IngestParams =
  ipInfohash :: string
  ipSource :: string
  ipSourceID :: string
  ipTitle :: string
  ipURL :: string
  ipMagnet :: string
  ipSizeBytes :: int
  ipPublishedAt :: time

record IngestOutcome =
  oNew :: bool
  oUpdated :: bool
  oDuplicate :: bool
  oConflict :: bool

record ClaimParams =
  cpLimit :: int
  cpLeaseSeconds :: int

record RawItemDetail =
  rdID :: int
  rdSource :: string
  rdSourceID :: string
  rdTitle :: string
  rdURL :: "string option"
  rdPublishedAt :: time
  rdIngestedAt :: time

record ClaimedRelease =
  clInfohash :: string
  clClaimToken :: int
  clAttemptCount :: int
  clLeaseExpires :: time
  clRawItems :: "RawItemDetail list"

record ClaimResult =
  Items :: "ClaimedRelease list"

record SubmitParams =
  spInfohash :: string
  spClaimToken :: int
  spStatus :: string
  spRef :: string
  spConfidence :: "float64 option"
  spReason :: string

record QueueStats =
  qsAvailable :: nat
  qsLeased :: nat
  qsUnmatched :: nat
  qsMatched :: nat
  qsSuppressed :: nat
  qsExhausted :: nat

record CatalogStats =
  csRawPosts :: nat
  csInfohashes :: nat
  csRefs :: nat

record MatchEventDetail =
  mdID :: int
  mdStatus :: string
  mdRef :: "string option"
  mdConfidence :: "float64 option"
  mdReason :: "string option"
  mdCreatedAt :: time

record ReleaseQuery =
  rqRef :: string
  rqSince :: "time option"
  rqLimit :: int
  rqCursor :: string

record ReleaseItem =
  riInfohash :: string
  riRef :: string
  riTitle :: string
  riSizeBytes :: int
  riPublishedAt :: time
  riConfidence :: float64
  riSources :: "string list"

record ReleasePage =
  Releases :: "ReleaseItem list"
  rpNextCursor :: string

record ReleaseDetail =
  dInfohash :: string
  dTitle :: string
  dMagnet :: "string option"
  dSizeBytes :: "int option"
  dPublishedAt :: time
  dSources :: "string list"
  dMatchStatus :: string
  dRef :: "string option"
  dConfidence :: "float64 option"
  dFirstMatchedAt :: "time option"
  dAttemptCount :: int
  dCreatedAt :: time
  dUpdatedAt :: time
  dRawItems :: "RawItemDetail list"
  dMatchEvents :: "MatchEventDetail list"

section \<open>The schema\<close>

datatype match_status = Unmatched | Matched | Suppressed | Exhausted

fun status_text :: "match_status \<Rightarrow> string" where
  "status_text Unmatched = ''unmatched''"
| "status_text Matched = ''matched''"
| "status_text Suppressed = ''suppressed''"
| "status_text Exhausted = ''exhausted''"

text \<open>The cast of a text parameter to the enumeration; anything else is a server error.\<close>

definition status_of :: "string \<Rightarrow> match_status option" where
  "status_of s = find (\<lambda>m. status_text m = s) [Unmatched, Matched, Suppressed, Exhausted]"

record release =
  r_infohash :: string
  r_title :: string
  r_magnet :: "string option"
  r_size_bytes :: "int option"
  r_published_at :: time
  r_sources :: "string list"
  r_match_status :: match_status
  r_ref :: "string option"
  r_confidence :: "float64 option"
  r_first_matched_at :: "time option"
  r_attempt_count :: int
  r_claimed_at :: "time option"
  r_lease_expires_at :: "time option"
  r_claim_token :: int
  r_created_at :: time
  r_updated_at :: time

record raw_item =
  i_id :: int
  i_infohash :: string
  i_source :: string
  i_source_id :: string
  i_title :: string
  i_url :: "string option"
  i_published_at :: time
  i_ingested_at :: time

record match_event =
  e_id :: int
  e_infohash :: string
  e_status :: match_status
  e_ref :: "string option"
  e_confidence :: "float64 option"
  e_reason :: "string option"
  e_created_at :: time

record database =
  releases :: "release list"
  raw_items :: "raw_item list"
  match_events :: "match_event list"
  raw_items_seq :: int
  match_events_seq :: int

definition empty_database :: database where
  "empty_database =
     \<lparr>releases = [], raw_items = [], match_events = [], raw_items_seq = 1, match_events_seq = 1\<rparr>"

section \<open>The store and its statements\<close>

record Pool =
  tz :: "time \<Rightarrow> time"
  zone :: "time \<Rightarrow> int"
  fails :: "dbcall \<Rightarrow> string option"
  lostAck :: bool
  locked :: "string \<Rightarrow> bool"

record StoreConfig =
  QueueMaxAttempts :: int

record Store =
  pool :: Pool
  clock :: time
  cfg :: StoreConfig

definition defaultClaimLimit :: int where "defaultClaimLimit = 1"
definition maxClaimLimit :: int where "maxClaimLimit = 500"
definition defaultLeaseSeconds :: int where "defaultLeaseSeconds = 300"
definition defaultReleasesLimit :: int where "defaultReleasesLimit = 50"
definition maxReleasesLimit :: int where "maxReleasesLimit = 500"
definition maxMagnetsBatch :: nat where "maxMagnetsBatch = 500"

text \<open>\<open>wall\<close> is the reading of \<open>store.RealClock\<close>, used when no clock is injected.\<close>

definition NewStoreWithConfig :: "time \<Rightarrow> Pool \<Rightarrow> time option \<Rightarrow> StoreConfig \<Rightarrow> Store" where
  "NewStoreWithConfig wall p clk c =
     \<lparr>pool = p,
      clock = (case clk of None \<Rightarrow> wall | Some t \<Rightarrow> t),
      cfg = (if QueueMaxAttempts c \<le> 0 then c\<lparr>QueueMaxAttempts := 3\<rparr> else c)\<rparr>"

definition NewStore :: "time \<Rightarrow> Pool \<Rightarrow> time option \<Rightarrow> Store" where
  "NewStore wall p clk = NewStoreWithConfig wall p clk \<lparr>QueueMaxAttempts = 0\<rparr>"

definition ts :: "Store \<Rightarrow> time \<Rightarrow> time" where
  "ts s t = tz (pool s) t"

definition db_err :: "Store \<Rightarrow> dbcall \<Rightarrow> store_error option" where
  "db_err s c = map_option (DbError c) (fails (pool s) c)"

text \<open>What is left of a transaction that is rolled back: the advances of the sequences.\<close>

definition rollback :: "database \<Rightarrow> database \<Rightarrow> database" where
  "rollback db tx =
     db\<lparr>raw_items_seq := raw_items_seq tx, match_events_seq := match_events_seq tx\<rparr>"

definition commit_tx ::
  "Store \<Rightarrow> database \<Rightarrow> database \<Rightarrow> 'a \<Rightarrow> (store_error + 'a) \<times> database" where
  "commit_tx s db tx v =
     (case db_err s Commit of
        Some err \<Rightarrow> (Inl err, if lostAck (pool s) then tx else rollback db tx)
      | None \<Rightarrow> (Inr v, tx))"

definition find_release :: "database \<Rightarrow> string \<Rightarrow> release option" where
  "find_release db ih = find (\<lambda>r. r_infohash r = ih) (releases db)"

definition items_of :: "database \<Rightarrow> string \<Rightarrow> raw_item list" where
  "items_of db ih = filter (\<lambda>i. i_infohash i = ih) (raw_items db)"

definition events_of :: "database \<Rightarrow> string \<Rightarrow> match_event list" where
  "events_of db ih = filter (\<lambda>e. e_infohash e = ih) (match_events db)"

section \<open>Ingest\<close>

definition ingestSeeds :: "IngestParams \<Rightarrow> string option \<times> int option" where
  "ingestSeeds p =
     (if ipMagnet p \<noteq> [] then Some (ipMagnet p) else None,
      if ipSizeBytes p \<noteq> 0 then Some (ipSizeBytes p) else None)"

definition new_release ::
  "Store \<Rightarrow> IngestParams \<Rightarrow> string option \<Rightarrow> int option \<Rightarrow> time \<Rightarrow> release" where
  "new_release s p magnet sizeBytes nw =
     \<lparr>r_infohash = ipInfohash p, r_title = ipTitle p, r_magnet = magnet,
      r_size_bytes = sizeBytes, r_published_at = ts s (ipPublishedAt p),
      r_sources = [ipSource p], r_match_status = Unmatched, r_ref = None,
      r_confidence = None, r_first_matched_at = None, r_attempt_count = 0,
      r_claimed_at = None, r_lease_expires_at = None, r_claim_token = 0,
      r_created_at = ts s nw, r_updated_at = ts s nw\<rparr>"

text \<open>\<open>INSERT INTO releases ... ON CONFLICT DO UPDATE ... RETURNING (xmax = 0)\<close>.\<close>

definition upsert_release ::
  "Store \<Rightarrow> database \<Rightarrow> IngestParams \<Rightarrow> string option \<Rightarrow> int option \<Rightarrow> time \<Rightarrow> bool \<times> database"
where
  "upsert_release s db p magnet sizeBytes nw =
     (if find_release db (ipInfohash p) \<noteq> None then (False, db)
      else (True, db\<lparr>releases := releases db @ [new_release s p magnet sizeBytes nw]\<rparr>))"

text \<open>\<open>INSERT INTO raw_items ... ON CONFLICT DO NOTHING\<close>; the default of \<open>id\<close> is drawn first.\<close>

definition insert_raw_item ::
  "Store \<Rightarrow> database \<Rightarrow> IngestParams \<Rightarrow> time \<Rightarrow> bool \<times> database" where
  "insert_raw_item s db p nw =
     (let n = raw_items_seq db; db' = db\<lparr>raw_items_seq := n + 1\<rparr>
      in if \<exists>i \<in> set (raw_items db). i_source i = ipSource p \<and> i_source_id i = ipSourceID p
         then (False, db')
         else (True, db'\<lparr>raw_items := raw_items db @
                [\<lparr>i_id = n, i_infohash = ipInfohash p, i_source = ipSource p,
                  i_source_id = ipSourceID p, i_title = ipTitle p, i_url = Some (ipURL p),
                  i_published_at = ts s (ipPublishedAt p), i_ingested_at = ts s nw\<rparr>]\<rparr>))"

text \<open>The three aggregates of \<open>recomputeRepresentative\<close> over the raw items of a release.\<close>

definition rep_title :: "raw_item list \<Rightarrow> string option" where
  "rep_title items =
     (case order_desc (\<lambda>i. (i_published_at i, i_id i)) items of
        [] \<Rightarrow> None
      | i # _ \<Rightarrow> Some (i_title i))"

definition rep_published_at :: "raw_item list \<Rightarrow> time option" where
  "rep_published_at items =
     (if items = [] then None else Some (Min (set (map i_published_at items))))"

definition rep_sources :: "raw_item list \<Rightarrow> string list option" where
  "rep_sources items =
     (if items = [] then None else Some (sort (remdups (map i_source items))))"

text \<open>An aggregate that is \<open>NULL\<close> violates the \<open>NOT NULL\<close> constraint of its column.\<close>

definition represent ::
  "raw_item list \<Rightarrow> string option \<Rightarrow> int option \<Rightarrow> time \<Rightarrow> release \<Rightarrow> release option" where
  "represent items magnet sizeBytes nw r =
     (case (rep_title items, rep_published_at items, rep_sources items) of
        (Some t, Some pub, Some srcs) \<Rightarrow>
          Some (r\<lparr>r_title := t, r_published_at := pub, r_sources := srcs,
                  r_magnet := coalesce (r_magnet r) magnet,
                  r_size_bytes := coalesce (r_size_bytes r) sizeBytes,
                  r_updated_at := nw\<rparr>)
      | _ \<Rightarrow> None)"

definition recomputeRepresentative ::
  "Store \<Rightarrow> database \<Rightarrow> string \<Rightarrow> string option \<Rightarrow> int option \<Rightarrow> time \<Rightarrow>
   (store_error + unit) \<times> database" where
  "recomputeRepresentative s tx ih magnet sizeBytes nw =
     (case db_err s RecomputeRepresentative of
        Some err \<Rightarrow> (Inl err, tx)
      | None \<Rightarrow>
          if \<exists>r \<in> set (releases tx). r_infohash r = ih \<and>
               represent (items_of tx ih) magnet sizeBytes (ts s nw) r = None
          then (Inl (DbError RecomputeRepresentative ''null value violates not-null constraint''), tx)
          else (Inr (), tx\<lparr>releases :=
            update_where (\<lambda>r. r_infohash r = ih)
              (\<lambda>r. case represent (items_of tx ih) magnet sizeBytes (ts s nw) r of
                     Some r' \<Rightarrow> r' | None \<Rightarrow> r)
              (releases tx)\<rparr>))"

definition upsertTx ::
  "Store \<Rightarrow> database \<Rightarrow> IngestParams \<Rightarrow> string option \<Rightarrow> int option \<Rightarrow> time \<Rightarrow>
   (store_error + bool \<times> bool) \<times> database" where
  "upsertTx s tx p magnet sizeBytes nw =
     (case db_err s UpsertRelease of
        Some err \<Rightarrow> (Inl err, tx)
      | None \<Rightarrow>
          (let (created, tx1) = upsert_release s tx p magnet sizeBytes nw
           in case db_err s InsertRawItem of
                Some err \<Rightarrow> (Inl err, tx1)
              | None \<Rightarrow>
                  (let (inserted, tx2) = insert_raw_item s tx1 p nw
                   in if \<not> created \<and> inserted
                      then case recomputeRepresentative s tx2 (ipInfohash p) magnet sizeBytes nw of
                             (Inl err, tx3) \<Rightarrow> (Inl err, tx3)
                           | (Inr _, tx3) \<Rightarrow> (Inr (created, inserted), tx3)
                      else (Inr (created, inserted), tx2))))"

definition no_outcome :: IngestOutcome where
  "no_outcome = \<lparr>oNew = False, oUpdated = False, oDuplicate = False, oConflict = False\<rparr>"

definition IngestN ::
  "Store \<Rightarrow> database \<Rightarrow> IngestParams \<Rightarrow> (store_error + IngestOutcome) \<times> database" where
  "IngestN s db p =
     (if \<not> isCanonicalInfohash (ipInfohash p) then (Inr (no_outcome\<lparr>oDuplicate := True\<rparr>), db)
      else
        (let nw = clock s; (magnet, sizeBytes) = ingestSeeds p
         in case db_err s BeginTx of
              Some err \<Rightarrow> (Inl err, db)
            | None \<Rightarrow>
                (case upsertTx s db p magnet sizeBytes nw of
                   (Inl err, tx) \<Rightarrow> (Inl err, rollback db tx)
                 | (Inr (created, inserted), tx) \<Rightarrow>
                     if created \<and> \<not> inserted
                     then (Inr (no_outcome\<lparr>oConflict := True\<rparr>), rollback db tx)
                     else commit_tx s db tx
                       (if created then no_outcome\<lparr>oNew := True\<rparr>
                        else if inserted then no_outcome\<lparr>oUpdated := True\<rparr>
                        else no_outcome\<lparr>oDuplicate := True\<rparr>))))"

section \<open>Claim\<close>

definition lease_free :: "time \<Rightarrow> release \<Rightarrow> bool" where
  "lease_free nw r \<longleftrightarrow> (case r_lease_expires_at r of None \<Rightarrow> True | Some t \<Rightarrow> t \<le> nw)"

definition exhaust_old :: "time \<Rightarrow> int \<Rightarrow> release list \<Rightarrow> release list" where
  "exhaust_old nw maxAttempts =
     update_where
       (\<lambda>r. r_match_status r = Unmatched \<and> r_attempt_count r \<ge> maxAttempts \<and> lease_free nw r)
       (\<lambda>r. r\<lparr>r_match_status := Exhausted, r_claimed_at := None, r_lease_expires_at := None,
              r_updated_at := nw\<rparr>)"

definition queue_key :: "release \<Rightarrow> time \<times> string" where
  "queue_key r = (r_published_at r, r_infohash r)"

definition claimable :: "time \<Rightarrow> int \<Rightarrow> release \<Rightarrow> bool" where
  "claimable nw maxAttempts r \<longleftrightarrow>
     r_match_status r = Unmatched \<and> r_attempt_count r < maxAttempts \<and> lease_free nw r"

text \<open>\<open>FOR UPDATE SKIP LOCKED\<close> drops the locked rows before \<open>LIMIT\<close> counts.\<close>

definition select_claimable ::
  "(string \<Rightarrow> bool) \<Rightarrow> time \<Rightarrow> int \<Rightarrow> int \<Rightarrow> release list \<Rightarrow> string list" where
  "select_claimable lck nw maxAttempts limit rows =
     map r_infohash (take (nat limit)
       (filter (\<lambda>r. \<not> lck (r_infohash r))
         (order_desc queue_key (filter (claimable nw maxAttempts) rows))))"

definition lease_rows :: "time \<Rightarrow> time \<Rightarrow> string list \<Rightarrow> release list \<Rightarrow> release list" where
  "lease_rows nw expires picked =
     update_where (\<lambda>r. r_infohash r \<in> set picked)
       (\<lambda>r. r\<lparr>r_claimed_at := Some nw, r_lease_expires_at := Some expires,
              r_claim_token := r_claim_token r + 1, r_updated_at := nw\<rparr>)"

definition raw_item_detail :: "raw_item \<Rightarrow> RawItemDetail" where
  "raw_item_detail i =
     \<lparr>rdID = i_id i, rdSource = i_source i, rdSourceID = i_source_id i, rdTitle = i_title i,
      rdURL = nullif_empty (i_url i), rdPublishedAt = i_published_at i,
      rdIngestedAt = i_ingested_at i\<rparr>"

definition rawItemsFor :: "Store \<Rightarrow> database \<Rightarrow> string \<Rightarrow> store_error + RawItemDetail list" where
  "rawItemsFor s tx ih =
     (case db_err s (LoadRawItems ih) of
        Some err \<Rightarrow> Inl err
      | None \<Rightarrow>
          (case db_err s (CollectRawItems ih) of
             Some err \<Rightarrow> Inl err
           | None \<Rightarrow> Inr (map raw_item_detail (sort_key i_id (items_of tx ih)))))"

fun claim_items :: "Store \<Rightarrow> database \<Rightarrow> release list \<Rightarrow> store_error + ClaimedRelease list" where
  "claim_items s tx [] = Inr []"
| "claim_items s tx (r # rs) =
     (case rawItemsFor s tx (r_infohash r) of
        Inl err \<Rightarrow> Inl err
      | Inr raw \<Rightarrow>
          (case claim_items s tx rs of
             Inl err \<Rightarrow> Inl err
           | Inr items \<Rightarrow>
               Inr (\<lparr>clInfohash = r_infohash r, clClaimToken = r_claim_token r,
                     clAttemptCount = r_attempt_count r,
                     clLeaseExpires = (case r_lease_expires_at r of Some t \<Rightarrow> t | None \<Rightarrow> zero_time),
                     clRawItems = raw\<rparr> # items)))"

definition claim_limit :: "ClaimParams \<Rightarrow> int" where
  "claim_limit p =
     (let limit = (if cpLimit p \<le> 0 then defaultClaimLimit else cpLimit p)
      in if limit > maxClaimLimit then maxClaimLimit else limit)"

definition lease_expiry :: "Store \<Rightarrow> ClaimParams \<Rightarrow> time" where
  "lease_expiry s p =
     (let leaseSeconds = (if cpLeaseSeconds p \<le> 0 then defaultLeaseSeconds else cpLeaseSeconds p)
      in time_Add (clock s) (s64 (leaseSeconds * time_Second)))"

definition Claim ::
  "Store \<Rightarrow> database \<Rightarrow> ClaimParams \<Rightarrow> (store_error + ClaimResult) \<times> database" where
  "Claim s db p =
     (let nw = clock s; limit = claim_limit p; leaseExpires = lease_expiry s p;
          maxAttempts = QueueMaxAttempts (cfg s)
      in case db_err s BeginTx of
           Some err \<Rightarrow> (Inl err, db)
         | None \<Rightarrow>
       (case db_err s ExhaustOldAttempts of
           Some err \<Rightarrow> (Inl err, db)
         | None \<Rightarrow>
           (let tx1 = db\<lparr>releases := exhaust_old (ts s nw) maxAttempts (releases db)\<rparr>
            in case db_err s SelectAndLease of
                 Some err \<Rightarrow> (Inl err, rollback db tx1)
               | None \<Rightarrow>
                   (let picked = select_claimable (locked (pool s)) (ts s nw) maxAttempts limit
                                   (releases tx1);
                        tx2 = tx1\<lparr>releases := lease_rows (ts s nw) (ts s leaseExpires) picked
                                               (releases tx1)\<rparr>;
                        claimed = order_desc queue_key
                                    (filter (\<lambda>r. r_infohash r \<in> set picked) (releases tx2))
                    in case db_err s CollectLeased of
                         Some err \<Rightarrow> (Inl err, rollback db tx2)
                       | None \<Rightarrow>
                           (case claim_items s tx2 claimed of
                              Inl err \<Rightarrow> (Inl err, rollback db tx2)
                            | Inr items \<Rightarrow> commit_tx s db tx2 \<lparr>Items = items\<rparr>)))))"

section \<open>Submit\<close>

definition validateSubmit :: "SubmitParams \<Rightarrow> store_error option" where
  "validateSubmit p =
     (if spStatus p = ''matched'' then map_option RefError (ValidateRef (spRef p))
      else if spStatus p = ''unmatched'' \<or> spStatus p = ''suppressed'' then None
      else Some (InvalidStatus (spStatus p)))"

definition nullableRef :: "string \<Rightarrow> string \<Rightarrow> string option" where
  "nullableRef status ref = (if status = ''matched'' then Some ref else None)"

definition nullableConfidence :: "string \<Rightarrow> float64 option \<Rightarrow> float64 option" where
  "nullableConfidence status confidence =
     (if (status = ''matched'' \<or> status = ''suppressed'') \<and> confidence \<noteq> None
      then confidence else None)"

definition mark_matched :: "string \<Rightarrow> float64 option \<Rightarrow> time \<Rightarrow> release \<Rightarrow> release" where
  "mark_matched ref conf nw r =
     r\<lparr>r_match_status := Matched, r_ref := Some ref, r_confidence := conf,
       r_first_matched_at := coalesce (r_first_matched_at r) (Some nw),
       r_claimed_at := None, r_lease_expires_at := None, r_updated_at := nw\<rparr>"

definition mark_closed :: "match_status \<Rightarrow> int \<Rightarrow> time \<Rightarrow> release \<Rightarrow> release" where
  "mark_closed st attempts nw r =
     r\<lparr>r_match_status := st, r_attempt_count := attempts, r_ref := None, r_confidence := None,
       r_claimed_at := None, r_lease_expires_at := None, r_updated_at := nw\<rparr>"

definition mark_missed :: "int \<Rightarrow> time \<Rightarrow> release \<Rightarrow> release" where
  "mark_missed attempts nw r = r\<lparr>r_attempt_count := attempts, r_updated_at := nw\<rparr>"

text \<open>The \<open>switch finalStatus\<close> of \<open>Submit\<close>: the row update, or the error of its \<open>default\<close>.\<close>

definition submit_update ::
  "SubmitParams \<Rightarrow> string \<Rightarrow> int \<Rightarrow> time \<Rightarrow> store_error + (release \<Rightarrow> release)" where
  "submit_update p finalStatus newAttemptCount nw =
     (if finalStatus = ''matched'' then
        Inr (mark_matched (spRef p) (nullableConfidence finalStatus (spConfidence p)) nw)
      else if finalStatus = ''suppressed'' \<or> finalStatus = ''exhausted'' then
        (case status_of finalStatus of
           None \<Rightarrow> Inl (DbError UpdateRelease ''invalid input value for enum'')
         | Some st \<Rightarrow> Inr (mark_closed st newAttemptCount nw))
      else if finalStatus = ''unmatched'' then Inr (mark_missed newAttemptCount nw)
      else Inl (InvalidStatus (spStatus p)))"

definition append_match_event ::
  "database \<Rightarrow> string \<Rightarrow> match_status \<Rightarrow> string option \<Rightarrow> float64 option \<Rightarrow> string \<Rightarrow> time \<Rightarrow> database"
where
  "append_match_event tx ih st ref conf reason nw =
     tx\<lparr>match_events := match_events tx @
          [\<lparr>e_id = match_events_seq tx, e_infohash = ih, e_status = st, e_ref = ref,
            e_confidence = conf, e_reason = Some reason, e_created_at = nw\<rparr>],
        match_events_seq := match_events_seq tx + 1\<rparr>"

definition Submit ::
  "Store \<Rightarrow> database \<Rightarrow> SubmitParams \<Rightarrow> (store_error + unit) \<times> database" where
  "Submit s db p =
     (case validateSubmit p of
        Some err \<Rightarrow> (Inl err, db)
      | None \<Rightarrow>
    (let nw = clock s; ih = spInfohash p
     in case db_err s BeginTx of
        Some err \<Rightarrow> (Inl err, db)
      | None \<Rightarrow>
    (case db_err s LoadLease of
        Some err \<Rightarrow> (Inl err, db)
      | None \<Rightarrow>
    (case find_release db ih of
        None \<Rightarrow> (Inl (ErrNoSuchRelease ih), db)
      | Some r \<Rightarrow>
          if r_claim_token r \<noteq> spClaimToken p \<or>
             (case r_lease_expires_at r of None \<Rightarrow> True | Some t \<Rightarrow> \<not> t > nw)
          then (Inl (ErrStaleLease ih), db)
          else if r_match_status r \<noteq> Unmatched then (Inl (ErrNoActiveLease ih), db)
          else
            (let newAttemptCount =
                   (if spStatus p = ''unmatched'' then r_attempt_count r + 1 else r_attempt_count r);
                 exhausted = spStatus p = ''unmatched'' \<and>
                             newAttemptCount \<ge> QueueMaxAttempts (cfg s);
                 finalStatus = (if exhausted then ''exhausted'' else spStatus p);
                 clearLease = (exhausted \<or> spStatus p = ''matched'' \<or> spStatus p = ''suppressed'')
             in case submit_update p finalStatus newAttemptCount (ts s nw) of
                  Inl err \<Rightarrow> (Inl err, db)
                | Inr f \<Rightarrow>
             (case db_err s UpdateRelease of
                  Some err \<Rightarrow> (Inl err, db)
                | None \<Rightarrow>
                    (let tx1 = db\<lparr>releases :=
                           update_where (\<lambda>r. r_infohash r = ih) f (releases db)\<rparr>
                     in if \<not> clearLease \<and> finalStatus \<noteq> ''unmatched''
                        then (Inl (ImpossibleStatus finalStatus), rollback db tx1)
                        else case db_err s AppendMatchEvent of
                          Some err \<Rightarrow> (Inl err, rollback db tx1)
                        | None \<Rightarrow>
                            (case status_of finalStatus of
                               None \<Rightarrow> (Inl (DbError AppendMatchEvent ''invalid input value for enum''),
                                        rollback db tx1)
                             | Some st \<Rightarrow>
                                 commit_tx s db
                                   (append_match_event tx1 ih st
                                      (nullableRef finalStatus (spRef p))
                                      (nullableConfidence finalStatus (spConfidence p))
                                      (spReason p) (ts s nw))
                                   ()))))))))"

section \<open>Statistics and lookups\<close>

definition lease_live :: "time \<Rightarrow> release \<Rightarrow> bool" where
  "lease_live nw r \<longleftrightarrow> (case r_lease_expires_at r of None \<Rightarrow> False | Some t \<Rightarrow> t > nw)"

definition QueueStats_op :: "Store \<Rightarrow> database \<Rightarrow> store_error + QueueStats" where
  "QueueStats_op s db =
     (let nw = ts s (clock s); rows = releases db
      in case db_err s SelectQueueStats of
           Some err \<Rightarrow> Inl err
         | None \<Rightarrow> Inr
             \<lparr>qsAvailable = count_where (claimable nw (QueueMaxAttempts (cfg s))) rows,
              qsLeased = count_where (\<lambda>r. r_match_status r = Unmatched \<and> lease_live nw r) rows,
              qsUnmatched = count_where (\<lambda>r. r_match_status r = Unmatched) rows,
              qsMatched = count_where (\<lambda>r. r_match_status r = Matched) rows,
              qsSuppressed = count_where (\<lambda>r. r_match_status r = Suppressed) rows,
              qsExhausted = count_where (\<lambda>r. r_match_status r = Exhausted) rows\<rparr>)"

definition CatalogStats_op :: "Store \<Rightarrow> database \<Rightarrow> store_error + CatalogStats" where
  "CatalogStats_op s db =
     (case db_err s SelectCatalogStats of
        Some err \<Rightarrow> Inl err
      | None \<Rightarrow> Inr
          \<lparr>csRawPosts = length (raw_items db),
           csInfohashes = length (releases db),
           csRefs = length (remdups (map r_ref
             (filter (\<lambda>r. r_ref r \<noteq> None \<and> r_ref r \<noteq> Some []) (releases db))))\<rparr>)"

definition match_event_detail :: "match_event \<Rightarrow> MatchEventDetail" where
  "match_event_detail e =
     \<lparr>mdID = e_id e, mdStatus = status_text (e_status e), mdRef = e_ref e,
      mdConfidence = e_confidence e, mdReason = nullif_empty (e_reason e),
      mdCreatedAt = e_created_at e\<rparr>"

definition releaseMatchEvents ::
  "Store \<Rightarrow> database \<Rightarrow> string \<Rightarrow> store_error + MatchEventDetail list" where
  "releaseMatchEvents s tx ih =
     (case db_err s LoadMatchEvents of
        Some err \<Rightarrow> Inl err
      | None \<Rightarrow>
          (case db_err s CollectMatchEvents of
             Some err \<Rightarrow> Inl err
           | None \<Rightarrow> Inr (map match_event_detail
               (sort_key (\<lambda>e. (e_created_at e, e_id e)) (events_of tx ih)))))"

definition release_detail ::
  "release \<Rightarrow> RawItemDetail list \<Rightarrow> MatchEventDetail list \<Rightarrow> ReleaseDetail" where
  "release_detail r raws events =
     \<lparr>dInfohash = r_infohash r, dTitle = r_title r, dMagnet = r_magnet r,
      dSizeBytes = r_size_bytes r, dPublishedAt = r_published_at r, dSources = r_sources r,
      dMatchStatus = status_text (r_match_status r), dRef = r_ref r,
      dConfidence = r_confidence r, dFirstMatchedAt = r_first_matched_at r,
      dAttemptCount = r_attempt_count r, dCreatedAt = r_created_at r,
      dUpdatedAt = r_updated_at r, dRawItems = raws, dMatchEvents = events\<rparr>"

definition GetRelease :: "Store \<Rightarrow> database \<Rightarrow> string \<Rightarrow> store_error + ReleaseDetail" where
  "GetRelease s db ih =
     (case db_err s BeginTx of
        Some err \<Rightarrow> Inl err
      | None \<Rightarrow>
     (case db_err s SelectRelease of
        Some err \<Rightarrow> Inl err
      | None \<Rightarrow>
     (case find_release db ih of
        None \<Rightarrow> Inl (ErrNoSuchRelease ih)
      | Some r \<Rightarrow>
     (case rawItemsFor s db ih of
        Inl err \<Rightarrow> Inl err
      | Inr raws \<Rightarrow>
     (case releaseMatchEvents s db ih of
        Inl err \<Rightarrow> Inl err
      | Inr events \<Rightarrow>
     (case db_err s Commit of
        Some err \<Rightarrow> Inl err
      | None \<Rightarrow> Inr (release_detail r raws events)))))))"

fun magnet_row :: "release \<Rightarrow> (string \<times> string) option" where
  "magnet_row r = (case r_magnet r of None \<Rightarrow> None | Some m \<Rightarrow> Some (r_infohash r, m))"

definition ResolveMagnets ::
  "Store \<Rightarrow> database \<Rightarrow> string list \<Rightarrow> store_error + (string \<rightharpoonup> string)" where
  "ResolveMagnets s db infohashes =
     (if length infohashes > maxMagnetsBatch then Inl (BatchExceedsCap (length infohashes))
      else if infohashes = [] then Inr Map.empty
      else case db_err s SelectMagnets of
        Some err \<Rightarrow> Inl err
      | None \<Rightarrow>
          (case db_err s ScanMagnets of
             Some err \<Rightarrow> Inl err
           | None \<Rightarrow> Inr (foldl (\<lambda>out (ih, magnet). out(ih \<mapsto> magnet)) Map.empty
               (List.map_filter magnet_row
                 (filter (\<lambda>r. r_infohash r \<in> set infohashes) (releases db))))))"

definition Ping :: "Store option \<Rightarrow> store_error + unit" where
  "Ping sp =
     (case sp of
        None \<Rightarrow> Inl NilPool
      | Some s \<Rightarrow> (case db_err s PingPool of Some err \<Rightarrow> Inl err | None \<Rightarrow> Inr ()))"

end
