(* ===== verification/Store_Effects.thy ===== *)
theory Store_Effects
  imports Store
begin

text \<open>
  What each operation of the store can do to the tables. An operation either leaves them as
  they are (an error, a rollback, a duplicate) or has exactly one effect, named here:
  \<open>ingest_new\<close>, \<open>ingest_more\<close>, \<open>claim_effect\<close> and \<open>submit_effect\<close>. The theories above reason
  about these effects and never unfold the operations again.
\<close>

section \<open>Definitions\<close>

definition same_tables :: "database \<Rightarrow> database \<Rightarrow> bool" where
  "same_tables db db' \<longleftrightarrow>
     releases db' = releases db \<and> raw_items db' = raw_items db \<and>
     match_events db' = match_events db \<and>
     raw_items_seq db \<le> raw_items_seq db' \<and> match_events_seq db \<le> match_events_seq db'"

definition known_release :: "database \<Rightarrow> IngestParams \<Rightarrow> bool" where
  "known_release db p \<longleftrightarrow> find_release db (ipInfohash p) \<noteq> None"

definition known_post :: "database \<Rightarrow> IngestParams \<Rightarrow> bool" where
  "known_post db p \<longleftrightarrow>
     (\<exists>i \<in> set (raw_items db). i_source i = ipSource p \<and> i_source_id i = ipSourceID p)"

definition new_item :: "Store \<Rightarrow> database \<Rightarrow> IngestParams \<Rightarrow> raw_item" where
  "new_item s db p =
     \<lparr>i_id = raw_items_seq db, i_infohash = ipInfohash p, i_source = ipSource p,
      i_source_id = ipSourceID p, i_title = ipTitle p, i_url = Some (ipURL p),
      i_published_at = ts s (ipPublishedAt p), i_ingested_at = ts s (clock s)\<rparr>"

definition add_item :: "Store \<Rightarrow> database \<Rightarrow> IngestParams \<Rightarrow> database" where
  "add_item s db p =
     db\<lparr>raw_items := raw_items db @ [new_item s db p], raw_items_seq := raw_items_seq db + 1\<rparr>"

definition ingest_new :: "Store \<Rightarrow> database \<Rightarrow> IngestParams \<Rightarrow> database" where
  "ingest_new s db p =
     (add_item s db p)\<lparr>releases := releases db @
        [new_release s p (fst (ingestSeeds p)) (snd (ingestSeeds p)) (clock s)]\<rparr>"

text \<open>The representative row of a non-empty group of raw items.\<close>

definition rep_row :: "raw_item list \<Rightarrow> IngestParams \<Rightarrow> time \<Rightarrow> release \<Rightarrow> release" where
  "rep_row items p nw r =
     r\<lparr>r_title := the (rep_title items), r_published_at := the (rep_published_at items),
       r_sources := the (rep_sources items),
       r_magnet := coalesce (r_magnet r) (fst (ingestSeeds p)),
       r_size_bytes := coalesce (r_size_bytes r) (snd (ingestSeeds p)),
       r_updated_at := nw\<rparr>"

definition ingest_more :: "Store \<Rightarrow> database \<Rightarrow> IngestParams \<Rightarrow> database" where
  "ingest_more s db p =
     (add_item s db p)\<lparr>releases :=
        update_where (\<lambda>r. r_infohash r = ipInfohash p)
          (rep_row (items_of db (ipInfohash p) @ [new_item s db p]) p (ts s (clock s)))
          (releases db)\<rparr>"

definition picked :: "Store \<Rightarrow> database \<Rightarrow> ClaimParams \<Rightarrow> string list" where
  "picked s db p =
     select_claimable (locked (pool s)) (ts s (clock s)) (QueueMaxAttempts (cfg s))
       (claim_limit p) (exhaust_old (ts s (clock s)) (QueueMaxAttempts (cfg s)) (releases db))"

definition claim_effect :: "Store \<Rightarrow> database \<Rightarrow> ClaimParams \<Rightarrow> database" where
  "claim_effect s db p =
     db\<lparr>releases := lease_rows (ts s (clock s)) (ts s (lease_expiry s p)) (picked s db p)
          (exhaust_old (ts s (clock s)) (QueueMaxAttempts (cfg s)) (releases db))\<rparr>"

text \<open>The disposition a submit leads to, and what it does to the row it fences.\<close>

definition submit_attempts :: "SubmitParams \<Rightarrow> release \<Rightarrow> int" where
  "submit_attempts p r =
     (if spStatus p = ''unmatched'' then r_attempt_count r + 1 else r_attempt_count r)"

definition submit_status :: "Store \<Rightarrow> SubmitParams \<Rightarrow> release \<Rightarrow> match_status" where
  "submit_status s p r =
     (if spStatus p = ''matched'' then Matched
      else if spStatus p = ''suppressed'' then Suppressed
      else if submit_attempts p r \<ge> QueueMaxAttempts (cfg s) then Exhausted else Unmatched)"

definition submit_row :: "Store \<Rightarrow> SubmitParams \<Rightarrow> release \<Rightarrow> release \<Rightarrow> release" where
  "submit_row s p r =
     (case submit_status s p r of
        Matched \<Rightarrow> mark_matched (spRef p) (spConfidence p) (ts s (clock s))
      | Unmatched \<Rightarrow> mark_missed (submit_attempts p r) (ts s (clock s))
      | st \<Rightarrow> mark_closed st (submit_attempts p r) (ts s (clock s)))"

definition submit_effect :: "Store \<Rightarrow> database \<Rightarrow> SubmitParams \<Rightarrow> release \<Rightarrow> database" where
  "submit_effect s db p r =
     append_match_event
       (db\<lparr>releases := update_where (\<lambda>r'. r_infohash r' = spInfohash p) (submit_row s p r)
             (releases db)\<rparr>)
       (spInfohash p) (submit_status s p r)
       (if submit_status s p r = Matched then Some (spRef p) else None)
       (if submit_status s p r \<in> {Matched, Suppressed} then spConfidence p else None)
       (spReason p) (ts s (clock s))"

text \<open>The guard of a submit: the token is current and the lease has not lapsed.\<close>

definition holds_lease :: "Store \<Rightarrow> SubmitParams \<Rightarrow> release \<Rightarrow> bool" where
  "holds_lease s p r \<longleftrightarrow> r_claim_token r = spClaimToken p \<and> lease_live (clock s) r"

text \<open>The item a claim returns for a leased row.\<close>

definition claimed_release :: "database \<Rightarrow> release \<Rightarrow> ClaimedRelease" where
  "claimed_release db r =
     \<lparr>clInfohash = r_infohash r, clClaimToken = r_claim_token r,
      clAttemptCount = r_attempt_count r,
      clLeaseExpires = (case r_lease_expires_at r of Some t \<Rightarrow> t | None \<Rightarrow> zero_time),
      clRawItems = map raw_item_detail (sort_key i_id (items_of db (r_infohash r)))\<rparr>"

text \<open>The leased rows in the order a claim returns them.\<close>

definition claimed_rows :: "Store \<Rightarrow> database \<Rightarrow> ClaimParams \<Rightarrow> release list" where
  "claimed_rows s db p =
     order_desc queue_key
       (filter (\<lambda>r. r_infohash r \<in> set (picked s db p)) (releases (claim_effect s db p)))"

text \<open>The \<open>finalStatus\<close> of a submit, as text.\<close>

definition submit_final :: "Store \<Rightarrow> SubmitParams \<Rightarrow> release \<Rightarrow> string" where
  "submit_final s p r =
     (if spStatus p = ''unmatched'' \<and> submit_attempts p r \<ge> QueueMaxAttempts (cfg s)
      then ''exhausted'' else spStatus p)"

text \<open>The outcome a store without failing calls reports for a post.\<close>

definition ingest_outcome :: "database \<Rightarrow> IngestParams \<Rightarrow> IngestOutcome" where
  "ingest_outcome db p =
     (if \<not> isCanonicalInfohash (ipInfohash p) then no_outcome\<lparr>oDuplicate := True\<rparr>
      else if known_release db p then
        (if known_post db p then no_outcome\<lparr>oDuplicate := True\<rparr> else no_outcome\<lparr>oUpdated := True\<rparr>)
      else if known_post db p then no_outcome\<lparr>oConflict := True\<rparr>
      else no_outcome\<lparr>oNew := True\<rparr>)"

text \<open>No call to the server fails.\<close>

definition reliable :: "Store \<Rightarrow> bool" where
  "reliable s \<longleftrightarrow> (\<forall>c. fails (pool s) c = None)"

section \<open>Lemmas\<close>

lemma same_tables_refl [simp]: "same_tables db db"
  by (simp add: same_tables_def)

lemma same_tables_rollback [simp]:
  "raw_items_seq db \<le> raw_items_seq tx \<Longrightarrow> match_events_seq db \<le> match_events_seq tx \<Longrightarrow>
   same_tables db (rollback db tx)"
  by (simp add: same_tables_def rollback_def)

lemma rollback_simps [simp]:
  "releases (rollback db tx) = releases db" "raw_items (rollback db tx) = raw_items db"
  "match_events (rollback db tx) = match_events db"
  by (simp_all add: rollback_def)

lemma rep_title_Some: "items \<noteq> [] \<Longrightarrow> \<exists>t. rep_title items = Some t"
  by (auto simp: rep_title_def split: list.splits)

lemma represent_nonempty:
  "items \<noteq> [] \<Longrightarrow>
   represent items (fst (ingestSeeds p)) (snd (ingestSeeds p)) nw r = Some (rep_row items p nw r)"
  using rep_title_Some [of items]
  by (auto simp: represent_def rep_row_def rep_published_at_def rep_sources_def)

lemma recompute_effect:
  assumes "db_err s RecomputeRepresentative = None" and "items_of tx ih \<noteq> []"
  shows "recomputeRepresentative s tx ih (fst (ingestSeeds p)) (snd (ingestSeeds p)) nw =
    (Inr (), tx\<lparr>releases := update_where (\<lambda>r. r_infohash r = ih)
       (rep_row (items_of tx ih) p (ts s nw)) (releases tx)\<rparr>)"
  using assms by (simp add: recomputeRepresentative_def represent_nonempty)

lemma upsert_release_eq:
  "upsert_release s db p m z nw =
    (\<not> known_release db p,
     if known_release db p then db
     else db\<lparr>releases := releases db @ [new_release s p m z nw]\<rparr>)"
  by (simp add: upsert_release_def known_release_def)

lemma insert_raw_item_eq:
  "insert_raw_item s db p (clock s) =
    (\<not> known_post db p,
     if known_post db p then db\<lparr>raw_items_seq := raw_items_seq db + 1\<rparr> else add_item s db p)"
  by (simp add: insert_raw_item_def known_post_def add_item_def new_item_def Let_def)

text \<open>What a transaction of \<open>upsertTx\<close> without a failing call computes.\<close>

lemma known_post_releases [simp]: "known_post (db\<lparr>releases := R\<rparr>) p = known_post db p"
  by (simp add: known_post_def)

lemma add_item_releases [simp]:
  "releases (add_item s db p) = releases db"
  "match_events (add_item s db p) = match_events db"
  "raw_items (add_item s db p) = raw_items db @ [new_item s db p]"
  "raw_items_seq (add_item s db p) = raw_items_seq db + 1"
  "match_events_seq (add_item s db p) = match_events_seq db"
  by (simp_all add: add_item_def)

lemma items_of_add_item [simp]:
  "items_of (add_item s db p) ih =
    (if ih = ipInfohash p then items_of db ih @ [new_item s db p] else items_of db ih)"
  by (simp add: items_of_def add_item_def new_item_def)

lemma add_item_of_new:
  "add_item s (db\<lparr>releases := R\<rparr>) p = (add_item s db p)\<lparr>releases := R\<rparr>"
  by (simp add: add_item_def new_item_def)

text \<open>The outcomes of a successful \<open>upsertTx\<close>, and its sequences.\<close>

lemma upsertTx_ok:
  assumes "upsertTx s db p (fst (ingestSeeds p)) (snd (ingestSeeds p)) (clock s) = (Inr (c, i), tx)"
  shows "c = (\<not> known_release db p) \<and> i = (\<not> known_post db p) \<and>
    (c \<and> i \<longrightarrow> tx = ingest_new s db p) \<and> (\<not> c \<and> i \<longrightarrow> tx = ingest_more s db p) \<and>
    (\<not> c \<and> \<not> i \<longrightarrow> tx = db\<lparr>raw_items_seq := raw_items_seq db + 1\<rparr>)"
proof -
  from assms have "db_err s UpsertRelease = None" "db_err s InsertRawItem = None"
    by (auto simp: upsertTx_def Let_def split: option.splits prod.splits)
  note * = assms [unfolded upsertTx_def this option.case Let_def upsert_release_eq
    insert_raw_item_eq prod.case]
  show ?thesis
  proof (cases "known_release db p \<and> \<not> known_post db p")
    case True
    with * have "db_err s RecomputeRepresentative = None"
      by (auto simp: recomputeRepresentative_def split: option.splits)
    from recompute_effect [OF this, of "add_item s db p" "ipInfohash p" p "clock s"] True *
    show ?thesis by (simp add: ingest_more_def)
  next
    case False
    with * show ?thesis
      by (auto simp: ingest_new_def add_item_of_new split: if_splits)
  qed
qed

lemma upsertTx_seq:
  "upsertTx s db p m z nw = (res, tx) \<Longrightarrow>
   raw_items_seq db \<le> raw_items_seq tx \<and> match_events_seq tx = match_events_seq db"
  by (auto simp: upsertTx_def upsert_release_def insert_raw_item_def Let_def
      recomputeRepresentative_def split: option.splits if_splits prod.splits sum.splits)

section \<open>The effect of each operation\<close>

lemma same_tables_seq:
  "raw_items_seq db \<le> n \<Longrightarrow> same_tables db (db\<lparr>raw_items_seq := n\<rparr>)"
  by (simp add: same_tables_def)

lemma IngestN_canonical:
  assumes "isCanonicalInfohash (ipInfohash p)"
    and "upsertTx s db p (fst (ingestSeeds p)) (snd (ingestSeeds p)) (clock s) = (ures, tx)"
  shows "IngestN s db p =
    (case db_err s BeginTx of
       Some err \<Rightarrow> (Inl err, db)
     | None \<Rightarrow>
         (case ures of
            Inl err \<Rightarrow> (Inl err, rollback db tx)
          | Inr (c, i) \<Rightarrow>
              if c \<and> \<not> i then (Inr (ingest_outcome db p), rollback db tx)
              else commit_tx s db tx (ingest_outcome db p)))"
proof (cases ures)
  case (Inl e)
  with assms show ?thesis by (simp add: IngestN_def Let_def case_prod_beta split: option.split)
next
  case (Inr ci)
  obtain c i where ci: "ci = (c, i)" by fastforce
  from upsertTx_ok [of s db p c i tx] assms(2) Inr ci
  have "c = (\<not> known_release db p)" "i = (\<not> known_post db p)" by auto
  with assms Inr ci show ?thesis
    by (simp add: IngestN_def Let_def case_prod_beta ingest_outcome_def split: option.split)
qed

lemma IngestN_invalid:
  "\<not> isCanonicalInfohash (ipInfohash p) \<Longrightarrow> IngestN s db p = (Inr (ingest_outcome db p), db)"
  by (simp add: IngestN_def ingest_outcome_def)

lemma ingest_outcome_exclusive:
  "ingest_outcome db p \<in> {no_outcome\<lparr>oNew := True\<rparr>, no_outcome\<lparr>oUpdated := True\<rparr>,
     no_outcome\<lparr>oDuplicate := True\<rparr>, no_outcome\<lparr>oConflict := True\<rparr>}"
  by (simp add: ingest_outcome_def)

lemma commit_tx_cases:
  "commit_tx s db tx v = (res, db') \<Longrightarrow>
   res = Inr v \<and> db' = tx \<or> (\<exists>m. res = Inl (DbError Commit m)) \<and> lostAck (pool s) \<and> db' = tx \<or>
   (\<exists>m. res = Inl (DbError Commit m)) \<and> db' = rollback db tx"
  by (auto simp: commit_tx_def db_err_def split: option.splits if_splits)

text \<open>
  The effect of an ingest, and how the result reports it. Only a commit whose acknowledgement
  is lost can report an error for an effect that took place.
\<close>

lemma IngestN_effect:
  assumes "IngestN s db p = (res, db')"
  shows "(res = Inr (ingest_outcome db p) \<or> (\<exists>e. res = Inl e)) \<and>
    (same_tables db db' \<and> (res = Inr (ingest_outcome db p) \<longrightarrow> known_post db p \<or> \<not> isCanonicalInfohash (ipInfohash p)) \<or>
     isCanonicalInfohash (ipInfohash p) \<and> \<not> known_post db p \<and>
      (res = Inr (ingest_outcome db p) \<or> lostAck (pool s) \<and> (\<exists>m. res = Inl (DbError Commit m))) \<and>
      (if known_release db p then db' = ingest_more s db p else db' = ingest_new s db p))"
proof (cases "isCanonicalInfohash (ipInfohash p)")
  case True
  obtain ures tx where u:
    "upsertTx s db p (fst (ingestSeeds p)) (snd (ingestSeeds p)) (clock s) = (ures, tx)"
    by fastforce
  note seq = upsertTx_seq [OF u] and eq = assms [unfolded IngestN_canonical [OF True u]]
  consider e where "db_err s BeginTx = Some e" | e where "db_err s BeginTx = None" "ures = Inl e"
    | c i where "db_err s BeginTx = None" "ures = Inr (c, i)"
    by (cases "db_err s BeginTx"; cases ures) auto
  then show ?thesis
  proof cases
    case (3 c i)
    have *: "c = (\<not> known_release db p)" "i = (\<not> known_post db p)"
      "c \<and> i \<Longrightarrow> tx = ingest_new s db p" "\<not> c \<and> i \<Longrightarrow> tx = ingest_more s db p"
      "\<not> c \<and> \<not> i \<Longrightarrow> tx = db\<lparr>raw_items_seq := raw_items_seq db + 1\<rparr>"
      using upsertTx_ok [of s db p c i tx] u 3 by auto
    show ?thesis
    proof (cases "c \<and> \<not> i")
      case True
      with eq 3 seq * show ?thesis by auto
    next
      case False
      with eq 3 have "commit_tx s db tx (ingest_outcome db p) = (res, db')" by auto
      from commit_tx_cases [OF this] False seq * True show ?thesis
        by (cases i) (auto simp: same_tables_seq)
    qed
  qed (use eq seq in auto)
next
  case False
  with assms IngestN_invalid [OF False, of s db] show ?thesis by auto
qed

lemma claim_items_ok:
  "claim_items s tx rs = Inr items \<Longrightarrow> items = map (claimed_release tx) rs"
  by (induction rs arbitrary: items)
     (auto simp: rawItemsFor_def claimed_release_def split: sum.splits option.splits)

lemma Claim_effect:
  assumes "Claim s db p = (res, db')"
  shows "same_tables db db' \<or> db' = claim_effect s db p"
  using assms
  by (auto simp: Claim_def Let_def commit_tx_def claim_effect_def picked_def
      split: option.splits sum.splits if_splits)

lemma Claim_ok:
  assumes "Claim s db p = (Inr res, db')"
  shows "db' = claim_effect s db p \<and>
    Items res = map (claimed_release db) (claimed_rows s db p)"
proof -
  have "claimed_release (db\<lparr>releases := R\<rparr>) = claimed_release db" for R
    by (simp add: claimed_release_def items_of_def fun_eq_iff)
  with assms show ?thesis
    by (auto simp: Claim_def Let_def commit_tx_def claim_effect_def claimed_rows_def picked_def
        dest!: claim_items_ok split: option.splits sum.splits if_splits)
qed

lemma status_of_simps [simp]:
  "status_of ''unmatched'' = Some Unmatched" "status_of ''matched'' = Some Matched"
  "status_of ''suppressed'' = Some Suppressed" "status_of ''exhausted'' = Some Exhausted"
  by (simp_all add: status_of_def)

lemma submit_final_eq:
  assumes "validateSubmit p = None"
  shows "submit_update p (submit_final s p r) (submit_attempts p r) (ts s (clock s)) =
      Inr (submit_row s p r)"
    and "status_of (submit_final s p r) = Some (submit_status s p r)"
    and "nullableRef (submit_final s p r) (spRef p) =
      (if submit_status s p r = Matched then Some (spRef p) else None)"
    and "nullableConfidence (submit_final s p r) (spConfidence p) =
      (if submit_status s p r \<in> {Matched, Suppressed} then spConfidence p else None)"
    and "submit_final s p r = ''matched'' \<or> submit_final s p r = ''suppressed'' \<or>
      submit_final s p r = ''exhausted'' \<or> submit_final s p r = ''unmatched''"
  using assms
  by (auto simp: validateSubmit_def submit_update_def submit_row_def submit_status_def
      submit_attempts_def submit_final_def nullableRef_def nullableConfidence_def split: if_splits)

text \<open>\<open>Submit\<close> in one view: validate, load, check the fence, then one effect.\<close>

lemma Submit_eq:
  "Submit s db p =
    (case validateSubmit p of Some err \<Rightarrow> (Inl err, db) | None \<Rightarrow>
    (case db_err s BeginTx of Some err \<Rightarrow> (Inl err, db) | None \<Rightarrow>
    (case db_err s LoadLease of Some err \<Rightarrow> (Inl err, db) | None \<Rightarrow>
    (case find_release db (spInfohash p) of
       None \<Rightarrow> (Inl (ErrNoSuchRelease (spInfohash p)), db)
     | Some r \<Rightarrow>
         if \<not> holds_lease s p r then (Inl (ErrStaleLease (spInfohash p)), db)
         else if r_match_status r \<noteq> Unmatched then (Inl (ErrNoActiveLease (spInfohash p)), db)
         else case db_err s UpdateRelease of Some err \<Rightarrow> (Inl err, db) | None \<Rightarrow>
           (case db_err s AppendMatchEvent of Some err \<Rightarrow> (Inl err, db) | None \<Rightarrow>
              commit_tx s db (submit_effect s db p r) ())))))"
proof (cases "validateSubmit p")
  case None
  have stale: "(r_claim_token r \<noteq> spClaimToken p \<or>
      (case r_lease_expires_at r of None \<Rightarrow> True | Some t \<Rightarrow> \<not> clock s < t)) = (\<not> holds_lease s p r)" for r
    by (auto simp: holds_lease_def lease_live_def split: option.splits)
  have fin: "(if spStatus p = ''unmatched'' \<and> submit_attempts p r \<ge> QueueMaxAttempts (cfg s)
      then ''exhausted'' else spStatus p) = submit_final s p r" for r
    by (simp add: submit_final_def)
  have att: "(if spStatus p = ''unmatched'' then r_attempt_count r + 1 else r_attempt_count r) =
      submit_attempts p r" for r
    by (simp add: submit_attempts_def)
  have clear: "((spStatus p = ''unmatched'' \<and> submit_attempts p r \<ge> QueueMaxAttempts (cfg s)) \<or>
      spStatus p = ''matched'' \<or> spStatus p = ''suppressed'') \<or> submit_final s p r = ''unmatched''" for r
    using None by (auto simp: validateSubmit_def submit_final_def split: if_splits)
  have rb: "rollback db (db\<lparr>releases := R\<rparr>) = db" for R
    by (simp add: rollback_def)
  show ?thesis
    unfolding Submit_def Let_def stale att fin submit_final_eq [OF None]
    using None clear
    by (simp add: rb submit_effect_def split: option.splits) blast
next
  case (Some e)
  then show ?thesis by (simp add: Submit_def)
qed

lemma submit_effect_seq [simp]:
  "raw_items_seq (submit_effect s db p r) = raw_items_seq db"
  "match_events_seq (submit_effect s db p r) = match_events_seq db + 1"
  by (simp_all add: submit_effect_def append_match_event_def)

lemma Submit_effect:
  assumes "Submit s db p = (res, db')"
  shows "same_tables db db' \<and> (\<exists>e. res = Inl e) \<or>
    (\<exists>r. find_release db (spInfohash p) = Some r \<and> holds_lease s p r \<and>
      r_match_status r = Unmatched \<and> validateSubmit p = None \<and> db' = submit_effect s db p r \<and>
      (res = Inr () \<or> lostAck (pool s) \<and> (\<exists>m. res = Inl (DbError Commit m))))"
proof -
  from assms [unfolded Submit_eq] consider "db' = db" "\<exists>e. res = Inl e"
    | r where "find_release db (spInfohash p) = Some r" "holds_lease s p r"
        "r_match_status r = Unmatched" "validateSubmit p = None"
        "commit_tx s db (submit_effect s db p r) () = (res, db')"
    by (auto split: option.splits if_splits)
  then show ?thesis
    by cases (auto dest!: commit_tx_cases)
qed

end
