(* ===== verification/Store_Inv.thy ===== *)
theory Store_Inv
  imports Store_Effects
begin

text \<open>
  The invariant of the store's database and that every operation keeps it: keys are unique,
  references resolve, the representative columns of a release are the aggregates of its raw
  items, and the queue columns agree with the disposition and with the log of match events.
\<close>

section \<open>Definitions\<close>

definition keys_ok :: "database \<Rightarrow> bool" where
  "keys_ok db \<longleftrightarrow>
     distinct (map r_infohash (releases db)) \<and>
     distinct (map i_id (raw_items db)) \<and>
     distinct (map (\<lambda>i. (i_source i, i_source_id i)) (raw_items db)) \<and>
     distinct (map e_id (match_events db)) \<and>
     (\<forall>i \<in> set (raw_items db). i_id i < raw_items_seq db) \<and>
     (\<forall>e \<in> set (match_events db). e_id e < match_events_seq db)"

definition refs_ok :: "database \<Rightarrow> bool" where
  "refs_ok db \<longleftrightarrow>
     i_infohash ` set (raw_items db) = r_infohash ` set (releases db) \<and>
     e_infohash ` set (match_events db) \<subseteq> r_infohash ` set (releases db)"

definition rep_ok :: "raw_item list \<Rightarrow> release \<Rightarrow> bool" where
  "rep_ok items r \<longleftrightarrow>
     rep_title items = Some (r_title r) \<and> rep_published_at items = Some (r_published_at r) \<and>
     rep_sources items = Some (r_sources r)"

text \<open>The dispositions other than a miss that the log of a release records.\<close>

definition dispositions :: "match_event list \<Rightarrow> match_status list" where
  "dispositions es = filter (\<lambda>st. st \<noteq> Unmatched) (map e_status es)"

definition missed :: "match_event \<Rightarrow> bool" where
  "missed e \<longleftrightarrow> e_status e = Unmatched \<or> e_status e = Exhausted"

definition queue_ok :: "match_event list \<Rightarrow> release \<Rightarrow> bool" where
  "queue_ok es r \<longleftrightarrow>
     r_attempt_count r = int (count_where missed es) \<and>
     0 \<le> r_claim_token r \<and>
     (r_lease_expires_at r = None \<longleftrightarrow> r_claimed_at r = None) \<and>
     (r_lease_expires_at r \<noteq> None \<longrightarrow> r_match_status r = Unmatched \<and> 0 < r_claim_token r) \<and>
     (case r_match_status r of
        Unmatched \<Rightarrow> dispositions es = []
      | Exhausted \<Rightarrow> dispositions es = [] \<or> dispositions es = [Exhausted]
      | st \<Rightarrow> dispositions es = [st]) \<and>
     (if r_match_status r = Matched
      then (\<exists>ref. r_ref r = Some ref \<and> ValidateRef ref = None) \<and> r_first_matched_at r \<noteq> None
      else r_ref r = None \<and> r_confidence r = None \<and> r_first_matched_at r = None)"

definition db_inv :: "database \<Rightarrow> bool" where
  "db_inv db \<longleftrightarrow>
     keys_ok db \<and> refs_ok db \<and>
     (\<forall>r \<in> set (releases db).
        isCanonicalInfohash (r_infohash r) \<and>
        rep_ok (items_of db (r_infohash r)) r \<and> queue_ok (events_of db (r_infohash r)) r)"

section \<open>Lemmas\<close>

lemma db_inv_empty: "db_inv empty_database"
  by (simp add: db_inv_def keys_ok_def refs_ok_def empty_database_def)

lemma same_tables_of:
  "same_tables db db' \<Longrightarrow> items_of db' = items_of db \<and> events_of db' = events_of db"
  by (simp add: same_tables_def items_of_def events_of_def fun_eq_iff)

lemma db_inv_same:
  assumes "same_tables db db'" and "db_inv db"
  shows "db_inv db'"
proof -
  from assms have "keys_ok db'" "refs_ok db'"
    by (auto simp: db_inv_def keys_ok_def refs_ok_def same_tables_def)
  with assms show ?thesis
    using same_tables_of [OF assms(1)] by (simp add: db_inv_def same_tables_def)
qed

lemma find_release_iff:
  "keys_ok db \<Longrightarrow> find_release db ih = Some r \<longleftrightarrow> r \<in> set (releases db) \<and> r_infohash r = ih"
  by (simp add: find_release_def find_key_iff keys_ok_def)

lemma db_invD:
  assumes "db_inv db" and "find_release db ih = Some r"
  shows "r_infohash r = ih" "isCanonicalInfohash ih" "rep_ok (items_of db ih) r"
    "queue_ok (events_of db ih) r"
  using assms find_release_iff [of db ih r] by (auto simp: db_inv_def)

subsection \<open>Ingest\<close>

lemma new_item_infohash [simp]: "i_infohash (new_item s db p) = ipInfohash p"
  by (simp add: new_item_def)

lemma new_item_simps [simp]:
  "i_id (new_item s db p) = raw_items_seq db" "i_source (new_item s db p) = ipSource p"
  "i_source_id (new_item s db p) = ipSourceID p" "i_title (new_item s db p) = ipTitle p"
  "i_published_at (new_item s db p) = ts s (ipPublishedAt p)"
  by (simp_all add: new_item_def)

lemma keys_ok_add_item:
  "keys_ok db \<Longrightarrow> \<not> known_post db p \<Longrightarrow> keys_ok (add_item s db p)"
  by (auto simp: keys_ok_def known_post_def)

lemma rep_row_ok: "items \<noteq> [] \<Longrightarrow> rep_ok items (rep_row items p nw r)"
  using rep_title_Some [of items]
  by (auto simp: rep_ok_def rep_row_def rep_published_at_def rep_sources_def)

lemma rep_row_simps [simp]:
  "r_infohash (rep_row items p nw r) = r_infohash r"
  "r_match_status (rep_row items p nw r) = r_match_status r"
  "r_attempt_count (rep_row items p nw r) = r_attempt_count r"
  "r_claim_token (rep_row items p nw r) = r_claim_token r"
  "r_lease_expires_at (rep_row items p nw r) = r_lease_expires_at r"
  "r_claimed_at (rep_row items p nw r) = r_claimed_at r"
  "r_ref (rep_row items p nw r) = r_ref r"
  "r_confidence (rep_row items p nw r) = r_confidence r"
  "r_first_matched_at (rep_row items p nw r) = r_first_matched_at r"
  by (simp_all add: rep_row_def)

lemma queue_ok_rep_row: "queue_ok es (rep_row items p nw r) = queue_ok es r"
  by (simp add: queue_ok_def)

lemma no_events_for:
  "refs_ok db \<Longrightarrow> find_release db ih = None \<Longrightarrow> items_of db ih = [] \<and> events_of db ih = []"
  by (auto simp: refs_ok_def find_release_def find_key_None items_of_def events_of_def filter_empty_conv)

lemma queue_ok_new_release: "queue_ok [] (new_release s p m z nw)"
  by (simp add: queue_ok_def new_release_def count_where_def dispositions_def)

lemma rep_ok_new_release: "rep_ok [new_item s db p] (new_release s p m z nw)"
  by (simp add: rep_ok_def new_release_def rep_title_def rep_published_at_def rep_sources_def)

lemma new_release_infohash [simp]: "r_infohash (new_release s p m z nw) = ipInfohash p"
  by (simp add: new_release_def)

lemma db_inv_ingest_new:
  assumes "db_inv db" "isCanonicalInfohash (ipInfohash p)" "\<not> known_post db p" "\<not> known_release db p"
  shows "db_inv (ingest_new s db p)"
proof -
  let ?db = "ingest_new s db p"
  from assms have k: "keys_ok db" "refs_ok db" and f: "find_release db (ipInfohash p) = None"
    by (auto simp: db_inv_def known_release_def)
  then have fresh: "ipInfohash p \<notin> r_infohash ` set (releases db)"
    by (simp add: find_release_def find_key_None)
  from keys_ok_add_item [OF k(1) assms(3), of s] fresh have "keys_ok ?db"
    by (simp add: keys_ok_def ingest_new_def)
  moreover from k(2) have "refs_ok ?db"
    by (auto simp: refs_ok_def ingest_new_def)
  moreover have "items_of ?db = items_of (add_item s db p)" "events_of ?db = events_of db"
    by (simp_all add: ingest_new_def items_of_def events_of_def fun_eq_iff)
  moreover note no_events_for [OF k(2) f]
  ultimately show ?thesis
    using assms fresh rep_ok_new_release queue_ok_new_release
    by (auto simp: db_inv_def ingest_new_def image_iff)
qed

lemma db_inv_ingest_more:
  assumes "db_inv db" "\<not> known_post db p" "known_release db p"
  shows "db_inv (ingest_more s db p)"
proof -
  let ?db = "ingest_more s db p"
  from assms have k: "keys_ok db" "refs_ok db" by (auto simp: db_inv_def)
  have inf: "r_infohash ` set (releases ?db) = r_infohash ` set (releases db)"
    by (simp add: ingest_more_def map_update_where flip: set_map)
  from assms(3) have known: "ipInfohash p \<in> r_infohash ` set (releases db)"
    by (auto simp: known_release_def find_release_def find_key_None)
  from keys_ok_add_item [OF k(1) assms(2), of s] have "keys_ok ?db"
    by (simp add: keys_ok_def ingest_more_def map_update_where)
  moreover from k(2) inf known have "refs_ok ?db"
    by (auto simp: refs_ok_def ingest_more_def)
  moreover have "items_of ?db = items_of (add_item s db p)" "events_of ?db = events_of db"
    by (simp_all add: ingest_more_def items_of_def events_of_def fun_eq_iff)
  ultimately show ?thesis
    using assms(1)
    by (auto simp: db_inv_def ingest_more_def set_update_where rep_row_ok queue_ok_rep_row)
qed

lemma db_inv_IngestN: "db_inv db \<Longrightarrow> db_inv (snd (IngestN s db p))"
  using IngestN_effect [of s db p "fst (IngestN s db p)" "snd (IngestN s db p)"]
    db_inv_same db_inv_ingest_new db_inv_ingest_more
  by (auto split: if_splits)

subsection \<open>Updates of the queue columns\<close>

text \<open>
  An update of the releases that keeps their keys and representative columns, under a log that
  only grows, keeps the invariant when it keeps each row's queue columns consistent.
\<close>

lemma db_inv_update:
  assumes inv: "db_inv db"
    and rows: "releases db' = map f (releases db)" "raw_items db' = raw_items db"
      "raw_items_seq db' = raw_items_seq db"
    and rep: "\<And>r. r_infohash (f r) = r_infohash r" "\<And>r. r_title (f r) = r_title r"
      "\<And>r. r_published_at (f r) = r_published_at r" "\<And>r. r_sources (f r) = r_sources r"
    and log: "keys_ok db \<Longrightarrow> keys_ok (db\<lparr>match_events := match_events db', match_events_seq := match_events_seq db'\<rparr>)"
      "e_infohash ` set (match_events db') \<subseteq> r_infohash ` set (releases db)"
    and queue: "\<And>r. r \<in> set (releases db) \<Longrightarrow> queue_ok (events_of db (r_infohash r)) r \<Longrightarrow>
      queue_ok (events_of db' (r_infohash r)) (f r)"
  shows "db_inv db'"
proof -
  from rep(1) have m: "r_infohash \<circ> f = r_infohash" by (simp add: fun_eq_iff)
  from inv log(1) rows m have "keys_ok db'"
    by (simp add: db_inv_def keys_ok_def)
  moreover from inv log(2) rows rep have "refs_ok db'"
    by (simp add: db_inv_def refs_ok_def image_image)
  moreover have "items_of db' = items_of db"
    using rows by (simp add: items_of_def fun_eq_iff)
  ultimately show ?thesis
    using inv rows rep queue by (auto simp: db_inv_def rep_ok_def)
qed

subsection \<open>Claim\<close>

definition sweep_row :: "Store \<Rightarrow> release \<Rightarrow> release" where
  "sweep_row s r =
     (if r_match_status r = Unmatched \<and> r_attempt_count r \<ge> QueueMaxAttempts (cfg s) \<and>
         lease_free (ts s (clock s)) r
      then r\<lparr>r_match_status := Exhausted, r_claimed_at := None, r_lease_expires_at := None,
             r_updated_at := ts s (clock s)\<rparr>
      else r)"

definition lease_row :: "Store \<Rightarrow> ClaimParams \<Rightarrow> release \<Rightarrow> release" where
  "lease_row s p r =
     r\<lparr>r_claimed_at := Some (ts s (clock s)), r_lease_expires_at := Some (ts s (lease_expiry s p)),
       r_claim_token := r_claim_token r + 1, r_updated_at := ts s (clock s)\<rparr>"

definition claim_row :: "Store \<Rightarrow> database \<Rightarrow> ClaimParams \<Rightarrow> release \<Rightarrow> release" where
  "claim_row s db p r =
     (if r_infohash r \<in> set (picked s db p) then lease_row s p (sweep_row s r) else sweep_row s r)"

lemma exhaust_old_sweep:
  "exhaust_old (ts s (clock s)) (QueueMaxAttempts (cfg s)) rows = map (sweep_row s) rows"
  by (simp add: exhaust_old_def update_where_def sweep_row_def)

lemma sweep_row_simps [simp]:
  "r_infohash (sweep_row s r) = r_infohash r" "r_title (sweep_row s r) = r_title r"
  "r_published_at (sweep_row s r) = r_published_at r" "r_sources (sweep_row s r) = r_sources r"
  "r_claim_token (sweep_row s r) = r_claim_token r"
  "r_attempt_count (sweep_row s r) = r_attempt_count r"
  "r_magnet (sweep_row s r) = r_magnet r"
  by (simp_all add: sweep_row_def)

lemma claim_row_simps [simp]:
  "r_infohash (claim_row s db p r) = r_infohash r" "r_title (claim_row s db p r) = r_title r"
  "r_published_at (claim_row s db p r) = r_published_at r"
  "r_sources (claim_row s db p r) = r_sources r"
  "r_attempt_count (claim_row s db p r) = r_attempt_count r"
  "r_magnet (claim_row s db p r) = r_magnet r"
  by (simp_all add: claim_row_def lease_row_def)

lemma claim_effect_rows:
  "claim_effect s db p = db\<lparr>releases := map (claim_row s db p) (releases db)\<rparr>"
  by (simp add: claim_effect_def exhaust_old_sweep lease_rows_def update_where_def claim_row_def
      lease_row_def comp_def)

text \<open>A picked row was claimable when the claim looked.\<close>

lemma picked_claimable:
  assumes "ih \<in> set (picked s db p)"
  shows "\<exists>r \<in> set (releases db). r_infohash r = ih \<and> sweep_row s r = r \<and>
    claimable (ts s (clock s)) (QueueMaxAttempts (cfg s)) r"
proof -
  from assms obtain r where r: "r \<in> set (releases db)" "ih = r_infohash (sweep_row s r)"
      "claimable (ts s (clock s)) (QueueMaxAttempts (cfg s)) (sweep_row s r)"
    by (auto simp: picked_def select_claimable_def exhaust_old_sweep dest!: in_set_takeD)
  from r(3) have "sweep_row s r = r" by (auto simp: claimable_def sweep_row_def split: if_splits)
  with r show ?thesis by auto
qed

lemma picked_row:
  assumes "keys_ok db" "r \<in> set (releases db)" "r_infohash r \<in> set (picked s db p)"
  shows "sweep_row s r = r \<and> claimable (ts s (clock s)) (QueueMaxAttempts (cfg s)) r"
  using picked_claimable [OF assms(3)] assms(1,2) distinct_key_inject [of r_infohash "releases db"]
  by (auto simp: keys_ok_def)

lemma queue_ok_claim_row:
  assumes "keys_ok db" "r \<in> set (releases db)" "queue_ok es r"
  shows "queue_ok es (claim_row s db p r)"
proof (cases "r_infohash r \<in> set (picked s db p)")
  case True
  from picked_row [OF assms(1,2) this] True assms(3) show ?thesis
    by (auto simp: claim_row_def lease_row_def queue_ok_def claimable_def)
next
  case False
  with assms(3) show ?thesis
    by (auto simp: claim_row_def sweep_row_def queue_ok_def)
qed

lemma db_inv_claim_effect: "db_inv db \<Longrightarrow> db_inv (claim_effect s db p)"
proof (rule db_inv_update [where f = "claim_row s db p" and db = db])
  assume "db_inv db"
  then show "e_infohash ` set (match_events (claim_effect s db p)) \<subseteq> r_infohash ` set (releases db)"
    by (simp add: claim_effect_rows db_inv_def refs_ok_def)
  fix r
  assume "r \<in> set (releases db)" "queue_ok (events_of db (r_infohash r)) r"
  with \<open>db_inv db\<close> show "queue_ok (events_of (claim_effect s db p) (r_infohash r)) (claim_row s db p r)"
    by (simp add: claim_effect_rows events_of_def db_inv_def queue_ok_claim_row)
qed (simp_all add: claim_effect_rows keys_ok_def)

lemma db_inv_Claim: "db_inv db \<Longrightarrow> db_inv (snd (Claim s db p))"
  using Claim_effect [of s db p "fst (Claim s db p)" "snd (Claim s db p)"]
    db_inv_same db_inv_claim_effect by auto

subsection \<open>Submit\<close>

lemma submit_row_simps [simp]:
  "r_infohash (submit_row s p r r') = r_infohash r'" "r_title (submit_row s p r r') = r_title r'"
  "r_published_at (submit_row s p r r') = r_published_at r'"
  "r_sources (submit_row s p r r') = r_sources r'"
  "r_claim_token (submit_row s p r r') = r_claim_token r'"
  "r_magnet (submit_row s p r r') = r_magnet r'"
  by (simp_all add: submit_row_def mark_matched_def mark_closed_def mark_missed_def
      split: match_status.split)

lemma submit_effect_simps:
  "releases (submit_effect s db p r) =
     update_where (\<lambda>r'. r_infohash r' = spInfohash p) (submit_row s p r) (releases db)"
  "raw_items (submit_effect s db p r) = raw_items db"
  "map e_infohash (match_events (submit_effect s db p r)) =
     map e_infohash (match_events db) @ [spInfohash p]"
  "map e_id (match_events (submit_effect s db p r)) =
     map e_id (match_events db) @ [match_events_seq db]"
  by (simp_all add: submit_effect_def append_match_event_def)

lemma events_of_submit_effect:
  "ih \<noteq> spInfohash p \<Longrightarrow> events_of (submit_effect s db p r) ih = events_of db ih"
  "map e_status (events_of (submit_effect s db p r) (spInfohash p)) =
     map e_status (events_of db (spInfohash p)) @ [submit_status s p r]"
  by (simp_all add: submit_effect_def append_match_event_def events_of_def)

lemma count_missed: "count_where missed es = length (filter (\<lambda>st. st = Unmatched \<or> st = Exhausted) (map e_status es))"
  by (simp add: count_where_def filter_map comp_def missed_def [abs_def])

lemma queue_ok_submit:
  assumes "queue_ok es r" "r_match_status r = Unmatched" "validateSubmit p = None"
    and "lease_live t r" and "map e_status es' = map e_status es @ [submit_status s p r]"
  shows "queue_ok es' (submit_row s p r r)"
  using assms
  by (auto simp: queue_ok_def submit_row_def submit_status_def submit_attempts_def dispositions_def
      count_missed mark_matched_def mark_closed_def mark_missed_def validateSubmit_def
      split: if_splits)

lemma db_inv_submit_effect:
  assumes inv: "db_inv db" and r: "find_release db (spInfohash p) = Some r"
    and ok: "holds_lease s p r" "r_match_status r = Unmatched" "validateSubmit p = None"
  shows "db_inv (submit_effect s db p r)"
proof (rule db_inv_update [OF inv, where f = "\<lambda>r'. if r_infohash r' = spInfohash p
    then submit_row s p r r' else r'"])
  let ?db = "submit_effect s db p r"
  from inv have k: "keys_ok db" by (simp add: db_inv_def)
  have rin: "r \<in> set (releases db)" "r_infohash r = spInfohash p"
    using find_release_iff [OF k, of "spInfohash p" r] r by auto
  show "releases ?db = map (\<lambda>r'. if r_infohash r' = spInfohash p then submit_row s p r r' else r') (releases db)"
    by (simp add: submit_effect_simps update_where_def)
  have "set (map e_infohash (match_events ?db)) = insert (spInfohash p) (e_infohash ` set (match_events db))"
    by (simp only: submit_effect_simps) simp
  moreover from rin have "spInfohash p \<in> r_infohash ` set (releases db)" by force
  ultimately show "e_infohash ` set (match_events ?db) \<subseteq> r_infohash ` set (releases db)"
    using inv by (simp add: db_inv_def refs_ok_def)
  show "keys_ok (db\<lparr>match_events := match_events ?db, match_events_seq := match_events_seq ?db\<rparr>)"
    using k by (auto simp: keys_ok_def submit_effect_simps submit_effect_def append_match_event_def)
  fix r'
  assume "r' \<in> set (releases db)" "queue_ok (events_of db (r_infohash r')) r'"
  moreover have "r' = r" if "r_infohash r' = spInfohash p"
    using that calculation rin k distinct_key_inject [of r_infohash "releases db"]
    by (auto simp: keys_ok_def)
  ultimately show "queue_ok (events_of ?db (r_infohash r'))
      (if r_infohash r' = spInfohash p then submit_row s p r r' else r')"
    using ok queue_ok_submit [OF _ ok(2,3), of _ "clock s" _ s]
    by (auto simp: events_of_submit_effect holds_lease_def)
qed (simp_all add: submit_effect_simps)

lemma db_inv_Submit: "db_inv db \<Longrightarrow> db_inv (snd (Submit s db p))"
  using Submit_effect [of s db p "fst (Submit s db p)" "snd (Submit s db p)"]
    db_inv_same db_inv_submit_effect by fastforce

end
