(* ===== verification/Store_Sample.thy ===== *)
theory Store_Sample
  imports Store_Inv
begin

text \<open>
  A small history of the store, evaluated: one release is ingested, claimed, and claimed again
  after its lease lapsed. The properties of the store are instantiated at these states. The
  driver of the sample truncates times to microseconds, as pgx does.
\<close>

definition sample_hash :: string where
  "sample_hash = replicate 40 (CHR ''a'')"

definition sample_pool :: Pool where
  "sample_pool =
     \<lparr>tz = (\<lambda>t. t - t mod 1000), zone = (\<lambda>_. 0), fails = (\<lambda>_. None), lostAck = False, locked = (\<lambda>_. False)\<rparr>"

definition sample_store :: "time \<Rightarrow> Store" where
  "sample_store t = \<lparr>pool = sample_pool, clock = t, cfg = \<lparr>QueueMaxAttempts = 3\<rparr>\<rparr>"

definition sample_ingest :: IngestParams where
  "sample_ingest =
     \<lparr>ipInfohash = sample_hash, ipSource = ''nyaa'', ipSourceID = ''1'', ipTitle = ''t'',
      ipURL = [], ipMagnet = ''m'', ipSizeBytes = 7, ipPublishedAt = 5001\<rparr>"

definition sample_item :: raw_item where
  "sample_item =
     \<lparr>i_id = 1, i_infohash = sample_hash, i_source = ''nyaa'', i_source_id = ''1'',
      i_title = ''t'', i_url = Some [], i_published_at = 5000, i_ingested_at = 0\<rparr>"

definition sample_row :: "int \<Rightarrow> time option \<Rightarrow> time option \<Rightarrow> time \<Rightarrow> release" where
  "sample_row tok claimed lse upd =
     \<lparr>r_infohash = sample_hash, r_title = ''t'', r_magnet = Some ''m'', r_size_bytes = Some 7,
      r_published_at = 5000, r_sources = [''nyaa''], r_match_status = Unmatched, r_ref = None,
      r_confidence = None, r_first_matched_at = None, r_attempt_count = 0,
      r_claimed_at = claimed, r_lease_expires_at = lse, r_claim_token = tok,
      r_created_at = 0, r_updated_at = upd\<rparr>"

definition sample_db :: "release \<Rightarrow> database" where
  "sample_db r =
     \<lparr>releases = [r], raw_items = [sample_item], match_events = [], raw_items_seq = 2,
      match_events_seq = 1\<rparr>"

text \<open>The states after the ingest, after the first claim, and after the second.\<close>

definition sample_db1 :: database where
  "sample_db1 = sample_db (sample_row 0 None None 0)"

definition sample_db2 :: database where
  "sample_db2 = sample_db (sample_row 1 (Some 1000) (Some 300000001000) 1000)"

definition sample_db3 :: database where
  "sample_db3 = sample_db (sample_row 2 (Some 300000001000) (Some 360000001000) 300000001000)"

definition sample_claimed :: "int \<Rightarrow> time \<Rightarrow> ClaimedRelease" where
  "sample_claimed tok lse =
     \<lparr>clInfohash = sample_hash, clClaimToken = tok, clAttemptCount = 0, clLeaseExpires = lse,
      clRawItems = [raw_item_detail sample_item]\<rparr>"

definition sample_submit :: "int \<Rightarrow> string \<Rightarrow> SubmitParams" where
  "sample_submit tok st =
     \<lparr>spInfohash = sample_hash, spClaimToken = tok, spStatus = st, spRef = ''tvdb:1'',
      spConfidence = None, spReason = []\<rparr>"

lemma sample_step1:
  "IngestN (sample_store 0) empty_database sample_ingest =
     (Inr (no_outcome\<lparr>oNew := True\<rparr>), sample_db1)"
  by code_simp

lemma sample_step2:
  "Claim (sample_store 1000) sample_db1 \<lparr>cpLimit = 1, cpLeaseSeconds = 300\<rparr> =
     (Inr \<lparr>Items = [sample_claimed 1 300000001000]\<rparr>, sample_db2)"
  by code_simp

lemma sample_step3:
  "Claim (sample_store 300000001234) sample_db2 \<lparr>cpLimit = 9, cpLeaseSeconds = 60\<rparr> =
     (Inr \<lparr>Items = [sample_claimed 2 360000001000]\<rparr>, sample_db3)"
  by code_simp

lemma sample_inv: "db_inv sample_db1" "db_inv sample_db2" "db_inv sample_db3"
proof -
  show 1: "db_inv sample_db1"
    using db_inv_IngestN [OF db_inv_empty, of "sample_store 0" sample_ingest]
    unfolding sample_step1 by simp
  show 2: "db_inv sample_db2"
    using db_inv_Claim [OF 1, of "sample_store 1000" "\<lparr>cpLimit = 1, cpLeaseSeconds = 300\<rparr>"]
    unfolding sample_step2 by simp
  show "db_inv sample_db3"
    using db_inv_Claim [OF 2, of "sample_store 300000001234" "\<lparr>cpLimit = 9, cpLeaseSeconds = 60\<rparr>"]
    unfolding sample_step3 by simp
qed

end
