(* ===== verification/Runs.thy ===== *)
theory Runs
  imports Main
begin

text \<open>
  Runs of labelled step relations, and the two interfaces the store's proofs rest on: a
  system with an invariant, and a forward simulation of one system by another. A guard \<open>G\<close>
  on the labels says which steps a run may take.
\<close>

section \<open>Definitions\<close>

inductive runs :: "('l \<Rightarrow> 's \<Rightarrow> 's \<Rightarrow> bool) \<Rightarrow> ('l \<Rightarrow> bool) \<Rightarrow> 's \<Rightarrow> 's \<Rightarrow> bool"
  for step G where
  stop: "runs step G s s"
| more: "step l s t \<Longrightarrow> G l \<Longrightarrow> runs step G t u \<Longrightarrow> runs step G s u"

section \<open>Lemmas\<close>

lemma runs_single: "step l s t \<Longrightarrow> G l \<Longrightarrow> runs step G s t"
  by (blast intro: runs.intros)

lemma runs_trans: "runs step G s t \<Longrightarrow> runs step G t u \<Longrightarrow> runs step G s u"
  by (induction rule: runs.induct) (auto intro: runs.more)

lemma runs_weaken: "runs step G s t \<Longrightarrow> (\<And>l. G l \<Longrightarrow> H l) \<Longrightarrow> runs step H s t"
  by (induction rule: runs.induct) (auto intro: runs.intros)

section \<open>A system with an invariant\<close>

locale step_system =
  fixes step :: "'l \<Rightarrow> 's \<Rightarrow> 's \<Rightarrow> bool" and inv :: "'s \<Rightarrow> bool"
  assumes step_inv: "step l s t \<Longrightarrow> inv s \<Longrightarrow> inv t"
begin

lemma runs_inv: "runs step G s t \<Longrightarrow> inv s \<Longrightarrow> inv t"
  by (induction rule: runs.induct) (auto intro: step_inv)

text \<open>A predicate that the permitted steps keep, given the invariant, holds after the run.\<close>

lemma runs_keep:
  assumes "\<And>l s t. step l s t \<Longrightarrow> G l \<Longrightarrow> inv s \<Longrightarrow> P s \<Longrightarrow> P t"
  shows "runs step G s t \<Longrightarrow> inv s \<Longrightarrow> P s \<Longrightarrow> P t"
  by (induction rule: runs.induct) (auto intro: assms step_inv)

end

section \<open>Forward simulation\<close>

text \<open>
  \<open>R c a\<close> relates a concrete state to an abstract one, \<open>lab\<close> gives the abstract label of a
  concrete step. Every concrete step from a related pair is matched by an abstract step.
\<close>

locale forward_simulation = step_system step inv
  for step :: "'l \<Rightarrow> 's \<Rightarrow> 's \<Rightarrow> bool" and inv :: "'s \<Rightarrow> bool" +
  fixes astep :: "'m \<Rightarrow> 'a \<Rightarrow> 'a \<Rightarrow> bool" and lab :: "'l \<Rightarrow> 'm" and R :: "'x \<Rightarrow> 's \<Rightarrow> 'a \<Rightarrow> bool"
  assumes simulate: "step l s t \<Longrightarrow> inv s \<Longrightarrow> R x s a \<Longrightarrow> \<exists>b. astep (lab l) a b \<and> R x t b"
begin

lemma runs_simulate:
  "runs step G s t \<Longrightarrow> inv s \<Longrightarrow> R x s a \<Longrightarrow>
   \<exists>b. runs astep (\<lambda>m. \<exists>l. G l \<and> m = lab l) a b \<and> R x t b"
proof (induction arbitrary: a rule: runs.induct)
  case (stop s)
  then show ?case by (blast intro: runs.stop)
next
  case (more l s t u)
  from simulate [OF more.hyps(1) more.prems] obtain b where b: "astep (lab l) a b" "R x t b" by blast
  with more.IH [OF step_inv [OF more.hyps(1) more.prems(1)]] obtain c
    where "runs astep (\<lambda>m. \<exists>l. G l \<and> m = lab l) b c" "R x u c" by blast
  with b more.hyps(2) show ?case by (blast intro: runs.more)
qed

end

end
