(* ===== verification/Ticket.thy ===== *)
theory Ticket
  imports Runs Takuhai_Prelude
begin

text \<open>
  The contract of the work queue, for one release: a ticket that is open, with its number of
  misses, its fencing token and its lease, or closed for good. A label of a step carries the
  time as the database sees it, the time as the process sees it, and the attempt limit. The
  store's operations refine this machine; its properties are proved here once.
\<close>

section \<open>Definitions\<close>

datatype verdict = VMatched | VSuppressed | VExhausted

datatype ticket =
    Open (misses: int) (token: int) (lease: "time option")
  | Closed (verdict_of: verdict) (misses: int) (token: int)

record moment =
  dbTime :: time
  procTime :: time
  maxMisses :: int

definition free_at :: "time \<Rightarrow> time option \<Rightarrow> bool" where
  "free_at t l \<longleftrightarrow> (case l of None \<Rightarrow> True | Some e \<Rightarrow> e \<le> t)"

inductive ticket_step :: "moment \<Rightarrow> ticket \<Rightarrow> ticket \<Rightarrow> bool" where
  idle: "ticket_step m a a"
| grant: "n < maxMisses m \<Longrightarrow> free_at (dbTime m) l \<Longrightarrow>
    ticket_step m (Open n k l) (Open n (k + 1) (Some e))"
| miss: "procTime m < e \<Longrightarrow> n + 1 < maxMisses m \<Longrightarrow>
    ticket_step m (Open n k (Some e)) (Open (n + 1) k (Some e))"
| last_miss: "procTime m < e \<Longrightarrow> maxMisses m \<le> n + 1 \<Longrightarrow>
    ticket_step m (Open n k (Some e)) (Closed VExhausted (n + 1) k)"
| settle: "procTime m < e \<Longrightarrow> v = VMatched \<or> v = VSuppressed \<Longrightarrow>
    ticket_step m (Open n k (Some e)) (Closed v n k)"
| sweep: "maxMisses m \<le> n \<Longrightarrow> free_at (dbTime m) l \<Longrightarrow>
    ticket_step m (Open n k l) (Closed VExhausted n k)"

inductive_cases ticket_stepE: "ticket_step m a b"
inductive_simps ticket_step_closed: "ticket_step m (Closed v n k) b"

section \<open>Lemmas\<close>

text \<open>The misses of a ticket never exceed the limit, and an open ticket has one left.\<close>

definition within :: "int \<Rightarrow> ticket \<Rightarrow> bool" where
  "within m t \<longleftrightarrow>
     0 \<le> misses t \<and> misses t \<le> m \<and> (case t of Open n _ _ \<Rightarrow> n < m | Closed _ _ _ \<Rightarrow> True)"

interpretation tickets: step_system ticket_step "\<lambda>_. True"
  by unfold_locales

lemma ticket_step_within:
  "ticket_step l a b \<Longrightarrow> maxMisses l = m \<Longrightarrow> within m a \<Longrightarrow> within m b"
  by (auto simp: within_def elim!: ticket_stepE)

lemma ticket_runs_within:
  "runs ticket_step (\<lambda>l. maxMisses l = m) a b \<Longrightarrow> within m a \<Longrightarrow> within m b"
  using tickets.runs_keep [of "\<lambda>l. maxMisses l = m" "within m" a b] ticket_step_within by blast

lemma ticket_step_token: "ticket_step l a b \<Longrightarrow> token a \<le> token b"
  by (auto elim!: ticket_stepE)

lemma ticket_runs_token: "runs ticket_step G a b \<Longrightarrow> token a \<le> token b"
  using tickets.runs_keep [of G "\<lambda>c. token a \<le> token c" a b] ticket_step_token
  by (meson order.trans order.refl)

lemma ticket_runs_closed: "runs ticket_step G (Closed v n k) b \<Longrightarrow> b = Closed v n k"
  using tickets.runs_keep [of G "\<lambda>c. c = Closed v n k" "Closed v n k" b]
  by (auto simp: ticket_step_closed)

text \<open>While a lease runs, the ticket is granted to nobody else.\<close>

definition held_until :: "int \<Rightarrow> time \<Rightarrow> ticket \<Rightarrow> bool" where
  "held_until k e t \<longleftrightarrow>
     token t = k \<and> (case t of Open _ _ l \<Rightarrow> l = Some e | Closed _ _ _ \<Rightarrow> True)"

lemma ticket_step_held:
  "ticket_step l a b \<Longrightarrow> dbTime l < e \<Longrightarrow> held_until k e a \<Longrightarrow> held_until k e b"
  by (auto simp: held_until_def free_at_def elim!: ticket_stepE)

lemma ticket_runs_held:
  "runs ticket_step (\<lambda>l. dbTime l < e) a b \<Longrightarrow> held_until k e a \<Longrightarrow> held_until k e b"
  using tickets.runs_keep [of "\<lambda>l. dbTime l < e" "held_until k e" a b] ticket_step_held by blast

end
