(* ===== verification/Store_Queue.thy ===== *)
theory Store_Queue
  imports Store_Sample Ticket
begin

text \<open>
  The store as a step system: every run of ingests, claims and submits, by any processes,
  with any failing calls. Each release refines the ticket machine of \<open>Ticket\<close>, which gives
  the queue's properties: fencing tokens, exclusive leases, final dispositions, and the
  bound on attempts.
\<close>

section \<open>Definitions\<close>

inductive store_step :: "Store \<Rightarrow> database \<Rightarrow> database \<Rightarrow> bool" where
  ingest: "IngestN s db p = (res, db') \<Longrightarrow> store_step s db db'"
| claim: "Claim s db q = (res', db') \<Longrightarrow> store_step s db db'"
| submit: "Submit s db u = (res'', db') \<Longrightarrow> store_step s db db'"

inductive_cases store_stepE: "store_step s db db'"

abbreviation any_store :: "Store \<Rightarrow> bool" where
  "any_store \<equiv> \<lambda>_. True"

definition reachable :: "database \<Rightarrow> bool" where
  "reachable db \<longleftrightarrow> runs store_step any_store empty_database db"

text \<open>The ticket a row stands for, and the moment of a call.\<close>

definition ticket_of :: "release \<Rightarrow> ticket" where
  "ticket_of r =
     (case r_match_status r of
        Unmatched \<Rightarrow> Open (r_attempt_count r) (r_claim_token r) (r_lease_expires_at r)
      | Matched \<Rightarrow> Closed VMatched (r_attempt_count r) (r_claim_token r)
      | Suppressed \<Rightarrow> Closed VSuppressed (r_attempt_count r) (r_claim_token r)
      | Exhausted \<Rightarrow> Closed VExhausted (r_attempt_count r) (r_claim_token r))"

definition has_ticket :: "string \<Rightarrow> database \<Rightarrow> ticket \<Rightarrow> bool" where
  "has_ticket ih db t \<longleftrightarrow> map_option ticket_of (find_release db ih) = Some t"

definition moment_of :: "Store \<Rightarrow> moment" where
  "moment_of s =
     \<lparr>dbTime = ts s (clock s), procTime = clock s, maxMisses = QueueMaxAttempts (cfg s)\<rparr>"

text \<open>What a disposition fixes of a row.\<close>

definition disposed_alike :: "release \<Rightarrow> release \<Rightarrow> bool" where
  "disposed_alike r r' \<longleftrightarrow>
     r_match_status r' = r_match_status r \<and> r_ref r' = r_ref r \<and>
     r_confidence r' = r_confidence r \<and> r_first_matched_at r' = r_first_matched_at r \<and>
     r_attempt_count r' = r_attempt_count r \<and> r_claim_token r' = r_claim_token r \<and>
     r_lease_expires_at r' = None"

text \<open>The claimable rows no other transaction holds, newest first.\<close>

definition claim_queue :: "Store \<Rightarrow> database \<Rightarrow> release list" where
  "claim_queue s db =
     order_desc queue_key
       (filter (\<lambda>r. claimable (ts s (clock s)) (QueueMaxAttempts (cfg s)) r \<and>
                    \<not> locked (pool s) (r_infohash r)) (releases db))"

section \<open>Lemmas: the row of a release after each effect\<close>

lemma find_release_same: "same_tables db db' \<Longrightarrow> find_release db' ih = find_release db ih"
  by (simp add: same_tables_def find_release_def)

lemma find_release_new:
  "find_release db ih = Some r \<Longrightarrow> find_release (ingest_new s db p) ih = Some r"
  by (simp add: find_release_def ingest_new_def find_append)

lemma find_release_fresh:
  "\<not> known_release db p \<Longrightarrow> find_release (ingest_new s db p) (ipInfohash p) =
   Some (new_release s p (fst (ingestSeeds p)) (snd (ingestSeeds p)) (clock s))"
  by (simp add: find_release_def ingest_new_def find_append known_release_def)

lemma find_release_more:
  "find_release (ingest_more s db p) ih =
   map_option (\<lambda>r. if r_infohash r = ipInfohash p
     then rep_row (items_of db (ipInfohash p) @ [new_item s db p]) p (ts s (clock s)) r else r)
   (find_release db ih)"
  by (simp add: find_release_def ingest_more_def find_update_where)

lemma find_release_claim:
  "find_release (claim_effect s db p) ih = map_option (claim_row s db p) (find_release db ih)"
proof -
  have "find (\<lambda>r. r_infohash r = ih) (map (claim_row s db p) rows) =
      map_option (claim_row s db p) (find (\<lambda>r. r_infohash r = ih) rows)" for rows
    by (induction rows) auto
  then show ?thesis by (simp add: find_release_def claim_effect_rows)
qed

lemma find_release_submit:
  "find_release (submit_effect s db p r) ih =
   map_option (\<lambda>r'. if r_infohash r' = spInfohash p then submit_row s p r r' else r')
     (find_release db ih)"
  by (simp add: find_release_def submit_effect_simps find_update_where)

lemmas find_release_effects =
  find_release_same find_release_new find_release_more find_release_claim find_release_submit

lemma find_release_infohash: "find_release db ih = Some r \<Longrightarrow> r_infohash r = ih"
  by (auto simp: find_release_def dest: find_SomeD)

section \<open>Each release refines the ticket machine\<close>

lemma ticket_rep_row [simp]: "ticket_of (rep_row items p nw r) = ticket_of r"
  by (simp add: ticket_of_def split: match_status.split)

lemma ticket_claim_row:
  assumes "keys_ok db" "r \<in> set (releases db)"
  shows "ticket_step (moment_of s) (ticket_of r) (ticket_of (claim_row s db p r))"
proof (cases "r_infohash r \<in> set (picked s db p)")
  case True
  from picked_row [OF assms True] have "sweep_row s r = r" "r_match_status r = Unmatched"
    "r_attempt_count r < QueueMaxAttempts (cfg s)" "free_at (ts s (clock s)) (r_lease_expires_at r)"
    by (auto simp: claimable_def lease_free_def free_at_def)
  with True show ?thesis
    by (auto simp: claim_row_def lease_row_def ticket_of_def moment_of_def intro: ticket_step.grant)
next
  case False
  then show ?thesis
    by (auto simp: claim_row_def sweep_row_def ticket_of_def moment_of_def lease_free_def free_at_def
        intro: ticket_step.idle ticket_step.sweep)
qed

lemma ticket_submit_row:
  assumes "holds_lease s p r" "r_match_status r = Unmatched" "validateSubmit p = None"
  shows "ticket_step (moment_of s) (ticket_of r) (ticket_of (submit_row s p r r))"
proof -
  from assms(1) obtain e where "r_lease_expires_at r = Some e" "clock s < e"
    by (auto simp: holds_lease_def lease_live_def split: option.splits)
  with assms(2,3) show ?thesis
    by (auto simp: submit_row_def submit_status_def submit_attempts_def mark_matched_def
        mark_closed_def mark_missed_def ticket_of_def moment_of_def validateSubmit_def
        intro: ticket_step.intros split: if_splits)
qed

text \<open>The ways one step can change the row of a release.\<close>

lemma store_step_row:
  assumes step: "store_step s db db'" and r: "find_release db ih = Some r"
  obtains (same) "find_release db' ih = Some r"
    | (rep) items p where "find_release db' ih = Some (rep_row items p (ts s (clock s)) r)"
    | (claim) p where "find_release db' ih = Some (claim_row s db p r)"
    | (submit) p where "spInfohash p = ih" "holds_lease s p r" "r_match_status r = Unmatched"
        "validateSubmit p = None" "find_release db' ih = Some (submit_row s p r r)"
proof -
  note ih = find_release_infohash [OF r]
  from step show thesis
  proof (cases rule: store_step.cases)
    case (ingest p res)
    from IngestN_effect [OF ingest] consider "same_tables db db'" | "db' = ingest_more s db p"
      | "db' = ingest_new s db p" by (auto split: if_splits)
    then show thesis
    proof cases
      case 2
      with r same rep show thesis
        by (cases "r_infohash r = ipInfohash p") (auto simp: find_release_more)
    qed (use r same find_release_same find_release_new in auto)
  next
    case (claim p res)
    from Claim_effect [OF claim] r same that(3) [of p] show thesis
      by (auto simp: find_release_claim find_release_same)
  next
    case (submit p res)
    from Submit_effect [OF submit] consider "same_tables db db'"
      | r' where "find_release db (spInfohash p) = Some r'" "holds_lease s p r'"
          "r_match_status r' = Unmatched" "validateSubmit p = None" "db' = submit_effect s db p r'"
      by auto
    then show thesis
    proof cases
      case 2
      with r ih same that(4) [of p] show thesis
        by (cases "spInfohash p = ih") (auto simp: find_release_submit)
    qed (use r same find_release_same in auto)
  qed
qed

lemma ticket_simulation:
  assumes step: "store_step s db db'" and inv: "db_inv db" and t: "has_ticket ih db a"
  shows "\<exists>b. ticket_step (moment_of s) a b \<and> has_ticket ih db' b"
proof -
  from t obtain r where r: "find_release db ih = Some r" "a = ticket_of r"
    by (auto simp: has_ticket_def)
  from inv have k: "keys_ok db" by (simp add: db_inv_def)
  with r have rin: "r \<in> set (releases db)" by (simp add: find_release_iff)
  show ?thesis
    using step r(1)
  proof (cases rule: store_step_row)
    case (claim p)
    with r ticket_claim_row [OF k rin, of s p] show ?thesis by (auto simp: has_ticket_def)
  next
    case (submit p)
    with r ticket_submit_row [of s p r] show ?thesis by (auto simp: has_ticket_def)
  qed (use r in \<open>auto simp: has_ticket_def intro: ticket_step.idle\<close>)
qed

lemma store_step_inv: "store_step s db db' \<Longrightarrow> db_inv db \<Longrightarrow> db_inv db'"
  using db_inv_IngestN db_inv_Claim db_inv_Submit by (metis snd_conv store_stepE)

interpretation store: forward_simulation store_step db_inv ticket_step moment_of has_ticket
  by unfold_locales (blast intro: store_step_inv ticket_simulation)+

section \<open>Lemmas: what a claim returns\<close>

lemma lease_row_simps [simp]:
  "r_infohash (lease_row s p r) = r_infohash r" "r_claim_token (lease_row s p r) = r_claim_token r + 1"
  "r_attempt_count (lease_row s p r) = r_attempt_count r"
  "r_match_status (lease_row s p r) = r_match_status r"
  "r_lease_expires_at (lease_row s p r) = Some (ts s (lease_expiry s p))"
  by (simp_all add: lease_row_def)

lemma claimed_rows_lease:
  assumes "keys_ok db" "r \<in> set (claimed_rows s db p)"
  shows "\<exists>r0. find_release db (r_infohash r) = Some r0 \<and> r = lease_row s p r0 \<and>
    claimable (ts s (clock s)) (QueueMaxAttempts (cfg s)) r0"
proof -
  from assms(2) obtain r0 where r0: "r0 \<in> set (releases db)" "r = claim_row s db p r0"
      "r_infohash r0 \<in> set (picked s db p)"
    by (auto simp: claimed_rows_def claim_effect_rows)
  with picked_row [OF assms(1) r0(1,3)] assms(1) show ?thesis
    by (auto simp: claim_row_def find_release_iff)
qed

lemma Claim_item:
  assumes inv: "db_inv db" and c: "Claim s db p = (Inr res, db')" and it: "it \<in> set (Items res)"
  obtains r where "find_release db (clInfohash it) = Some r"
    "claimable (ts s (clock s)) (QueueMaxAttempts (cfg s)) r"
    "find_release db' (clInfohash it) = Some (lease_row s p r)"
    "it = claimed_release db (lease_row s p r)"
proof -
  from inv have k: "keys_ok db" by (simp add: db_inv_def)
  from Claim_ok [OF c] it obtain r where r: "r \<in> set (claimed_rows s db p)"
      "it = claimed_release db r" "db' = claim_effect s db p" by auto
  from claimed_rows_lease [OF k r(1)] obtain r0 where r0:
      "find_release db (r_infohash r) = Some r0" "r = lease_row s p r0"
      "claimable (ts s (clock s)) (QueueMaxAttempts (cfg s)) r0" by blast
  from r(1) r0 have "claim_row s db p r0 = r"
    using picked_row [OF k, of r0 s p] find_release_iff [OF k, of "r_infohash r" r0]
    by (auto simp: claimed_rows_def claim_effect_rows claim_row_def)
  with r r0 show thesis
    by (intro that [of r0]) (auto simp: claimed_release_def find_release_claim)
qed

lemma Claim_item_ticket:
  assumes "db_inv db" "Claim s db p = (Inr res, db')" "it \<in> set (Items res)"
  shows "\<exists>k l. has_ticket (clInfohash it) db (Open (clAttemptCount it) k l) \<and>
      free_at (ts s (clock s)) l \<and> clClaimToken it = k + 1"
    and "has_ticket (clInfohash it) db'
      (Open (clAttemptCount it) (clClaimToken it) (Some (clLeaseExpires it)))"
proof -
  from Claim_item [OF assms] obtain r where r: "find_release db (clInfohash it) = Some r"
    "claimable (ts s (clock s)) (QueueMaxAttempts (cfg s)) r"
    "find_release db' (clInfohash it) = Some (lease_row s p r)"
    "it = claimed_release db (lease_row s p r)" .
  from r(2) have "r_match_status r = Unmatched" "free_at (ts s (clock s)) (r_lease_expires_at r)"
    by (auto simp: claimable_def lease_free_def free_at_def)
  with r(1,3,4) show "\<exists>k l. has_ticket (clInfohash it) db (Open (clAttemptCount it) k l) \<and>
      free_at (ts s (clock s)) l \<and> clClaimToken it = k + 1"
    and "has_ticket (clInfohash it) db'
      (Open (clAttemptCount it) (clClaimToken it) (Some (clLeaseExpires it)))"
    by (simp_all add: has_ticket_def ticket_of_def claimed_release_def)
qed

lemma has_ticket_unique: "has_ticket ih db a \<Longrightarrow> has_ticket ih db b \<Longrightarrow> a = b"
  by (auto simp: has_ticket_def)

lemma has_ticket_runs:
  assumes "runs store_step G db db'" "db_inv db" "has_ticket ih db a"
  obtains b where "has_ticket ih db' b" "runs ticket_step (\<lambda>m. \<exists>s. G s \<and> m = moment_of s) a b"
  using store.runs_simulate [OF assms] by blast

lemma has_ticket_token:
  assumes "runs store_step G db db'" "db_inv db" "has_ticket ih db a"
  obtains b where "has_ticket ih db' b" "token a \<le> token b"
proof -
  from has_ticket_runs [OF assms] obtain b where "has_ticket ih db' b"
    "runs ticket_step (\<lambda>m. \<exists>s. G s \<and> m = moment_of s) a b" .
  with ticket_runs_token show thesis by (intro that)
qed

lemma Claim_inv: "Claim s db p = (res, db') \<Longrightarrow> db_inv db \<Longrightarrow> db_inv db'"
  using db_inv_Claim [of db s p] by simp

lemma reachable_inv: "reachable db \<Longrightarrow> db_inv db"
  using store.runs_inv db_inv_empty by (auto simp: reachable_def)

lemma token_ticket: "token (ticket_of r) = r_claim_token r"
  by (simp add: ticket_of_def split: match_status.split)

lemma misses_ticket: "misses (ticket_of r) = r_attempt_count r"
  by (simp add: ticket_of_def split: match_status.split)

lemma reliable_db_err [simp]: "reliable s \<Longrightarrow> db_err s c = None"
  by (simp add: reliable_def db_err_def)

lemma Submit_stale:
  assumes "find_release db (spInfohash u) = Some r" "\<not> holds_lease s u r"
  shows "(\<exists>e. Submit s db u = (Inl e, db)) \<and>
    (reliable s \<and> validateSubmit u = None \<longrightarrow> Submit s db u = (Inl (ErrStaleLease (spInfohash u)), db))"
  using assms by (auto simp: Submit_eq split: option.splits)

section \<open>Lemmas: dispositions, attempts and the order of claims\<close>

lemma store_step_disposed:
  assumes "store_step s db db'" "db_inv db" "find_release db ih = Some r'"
    "disposed_alike r r'" "r_match_status r \<noteq> Unmatched"
  shows "\<exists>r''. find_release db' ih = Some r'' \<and> disposed_alike r r''"
proof -
  from assms(2,3) have k: "keys_ok db" "r' \<in> set (releases db)"
    by (auto simp: db_inv_def find_release_iff)
  have closed: "r_match_status r' \<noteq> Unmatched" using assms(4,5) by (simp add: disposed_alike_def)
  show ?thesis
    using assms(1,3)
  proof (cases rule: store_step_row)
    case (claim p)
    have "claim_row s db p r' = r'"
      using picked_row [OF k, of s p] closed by (auto simp: claim_row_def sweep_row_def claimable_def)
    with claim assms(4) show ?thesis by simp
  qed (use assms(4) closed in \<open>auto simp: disposed_alike_def\<close>)
qed

lemma store_step_magnet:
  assumes "store_step s db db'" "find_release db ih = Some r" "r_magnet r = Some m"
  shows "\<exists>r'. find_release db' ih = Some r' \<and> r_magnet r' = Some m"
  using assms(1,2) by (cases rule: store_step_row) (auto simp: assms(3) rep_row_def)

lemma store_step_fresh:
  assumes "store_step s db db'" "find_release db ih = None" "find_release db' ih = Some r"
  shows "ticket_of r = Open 0 0 None"
  using assms(1)
proof (cases rule: store_step.cases)
  case (ingest p res)
  from IngestN_effect [OF ingest] consider "same_tables db db'" | "db' = ingest_more s db p"
    | "db' = ingest_new s db p" "\<not> known_release db p" by (auto split: if_splits)
  then show ?thesis
  proof cases
    case 3
    with assms(2,3) have "r = new_release s p (fst (ingestSeeds p)) (snd (ingestSeeds p)) (clock s)"
      by (auto simp: ingest_new_def find_release_def find_append split: if_splits)
    then show ?thesis by (simp add: ticket_of_def new_release_def)
  qed (use assms(2,3) in \<open>auto simp: find_release_same find_release_more\<close>)
next
  case (claim p res)
  from Claim_effect [OF claim] assms(2,3) show ?thesis
    by (auto simp: find_release_same find_release_claim)
next
  case (submit p res)
  from Submit_effect [OF submit] assms(2,3) show ?thesis
    by (auto simp: find_release_same find_release_submit)
qed

definition all_within :: "int \<Rightarrow> database \<Rightarrow> bool" where
  "all_within m db \<longleftrightarrow> (\<forall>ih t. has_ticket ih db t \<longrightarrow> within m t)"

lemma store_step_within:
  assumes "store_step s db db'" "QueueMaxAttempts (cfg s) = m" "0 < m" "db_inv db" "all_within m db"
  shows "all_within m db'"
  unfolding all_within_def
proof (intro allI impI)
  fix ih t
  assume t: "has_ticket ih db' t"
  show "within m t"
  proof (cases "find_release db ih")
    case None
    with t store_step_fresh [OF assms(1)] have "t = Open 0 0 None" by (auto simp: has_ticket_def)
    with assms(3) show ?thesis by (simp add: within_def)
  next
    case (Some r)
    then have a: "has_ticket ih db (ticket_of r)" by (simp add: has_ticket_def)
    from ticket_simulation [OF assms(1,4) a] obtain b
      where b: "ticket_step (moment_of s) (ticket_of r) b" "has_ticket ih db' b" by blast
    from has_ticket_unique [OF b(2) t] b(1) a assms(2,5) show ?thesis
      by (auto simp: all_within_def moment_of_def intro: ticket_step_within)
  qed
qed

lemma claimable_sweep:
  "filter (claimable (ts s (clock s)) (QueueMaxAttempts (cfg s))) (map (sweep_row s) rows) =
   filter (claimable (ts s (clock s)) (QueueMaxAttempts (cfg s))) rows"
  by (induction rows) (auto simp: sweep_row_def claimable_def)

lemma picked_queue: "picked s db p = map r_infohash (take (nat (claim_limit p)) (claim_queue s db))"
  by (simp add: picked_def select_claimable_def exhaust_old_sweep claimable_sweep claim_queue_def
      order_desc_filter [symmetric] conj_commute)

lemma set_claim_queue:
  "r \<in> set (claim_queue s db) \<Longrightarrow>
   r \<in> set (releases db) \<and> claimable (ts s (clock s)) (QueueMaxAttempts (cfg s)) r"
  by (simp add: claim_queue_def)

lemma sorted_claim_queue: "sorted_wrt (\<lambda>a b. queue_key b \<le> queue_key a) (claim_queue s db)"
  by (simp add: claim_queue_def sorted_order_desc)

lemma distinct_queue_key: "distinct (map r_infohash rows) \<Longrightarrow> distinct (map queue_key rows)"
  by (auto simp: distinct_map queue_key_def inj_on_def)

lemma queue_key_lease [simp]: "queue_key (lease_row s p r) = queue_key r"
  by (simp add: queue_key_def lease_row_def)

lemma claimed_rows_eq:
  assumes "keys_ok db"
  shows "claimed_rows s db p = map (lease_row s p) (take (nat (claim_limit p)) (claim_queue s db))"
    (is "?L = map ?f ?T")
proof (rule sorted_desc_unique [of queue_key])
  let ?pk = "set (picked s db p)"
  have T: "set ?T \<subseteq> set (releases db)"
    using set_claim_queue [of _ s db] in_set_takeD [of _ _ "claim_queue s db"] by blast
  have inT: "r \<in> set ?T \<longleftrightarrow> r_infohash r \<in> ?pk" if "r \<in> set (releases db)" for r
    using inj_on_image_mem_iff [of r_infohash "set (releases db)" r "set ?T"] T that assms
    by (simp add: picked_queue keys_ok_def distinct_map)
  have f: "claim_row s db p r = ?f r" if "r \<in> set ?T" for r
    using picked_row [OF assms, of r s p] inT T that by (auto simp: claim_row_def)
  have "set ?L = claim_row s db p ` {r \<in> set (releases db). r_infohash r \<in> ?pk}"
    by (auto simp: claimed_rows_def claim_effect_rows)
  also have "{r \<in> set (releases db). r_infohash r \<in> ?pk} = set ?T"
    using inT T by blast
  also have "claim_row s db p ` set ?T = set (map ?f ?T)"
    using f by simp
  finally show "set ?L = set (map ?f ?T)" .
  show "sorted_wrt (\<lambda>a b. queue_key b \<le> queue_key a) ?L"
    by (simp add: claimed_rows_def sorted_order_desc)
  show "sorted_wrt (\<lambda>a b. queue_key b \<le> queue_key a) (map ?f ?T)"
    using sorted_wrt_take [OF sorted_claim_queue] by (simp add: sorted_wrt_map)
  have dist: "distinct (map r_infohash (claim_queue s db))"
    using assms by (simp add: claim_queue_def order_desc_def keys_ok_def distinct_map inj_on_def)
  then show "distinct (map queue_key (map ?f ?T))"
    by (intro distinct_queue_key) (simp add: comp_def take_map [symmetric] distinct_take)
  have "distinct (map r_infohash (filter P (map (claim_row s db p) (releases db))))" for P
    using assms by (auto simp: keys_ok_def comp_def intro!: distinct_map_filter)
  then show "distinct (map queue_key ?L)"
    by (intro distinct_queue_key)
       (simp add: claimed_rows_def claim_effect_rows order_desc_def distinct_map inj_on_def)
qed

section \<open>Properties\<close>

text \<open>The sample history as runs of the store.\<close>

lemma sample_runs:
  "runs store_step any_store empty_database sample_db1"
  "runs store_step any_store sample_db1 sample_db2"
  "runs store_step any_store sample_db2 sample_db3"
  using store_step.ingest [OF sample_step1] store_step.claim [OF sample_step2]
    store_step.claim [OF sample_step3] by (blast intro: runs_single)+

lemma sample_reachable: "reachable sample_db3"
  unfolding reachable_def using sample_runs by (blast intro: runs_trans)

text \<open>
  C9: every database the store can reach from the empty one, by any interleaving of ingests,
  claims and submits with any configuration and any failing calls, satisfies the invariant.
\<close>

theorem store_invariant:
  assumes "reachable db"
  shows "db_inv db"
  using assms by (rule reachable_inv)

theorem store_invariant_witness: "reachable sample_db3 \<and> db_inv sample_db3"
  using store_invariant [OF sample_reachable] sample_reachable by simp

text \<open>
  C10: the queue refines its contract. Along every run of the store, every release that exists
  at the start behaves as a ticket: its row at the end is the abstraction of a ticket that the
  abstract machine reaches from the ticket of its row at the start, with a grant, miss,
  settlement or sweep only when the abstract machine permits it.
\<close>

theorem queue_refines_ticket:
  assumes "db_inv db" and "runs store_step G db db'" and "find_release db ih = Some r"
  shows "\<exists>r'. find_release db' ih = Some r' \<and>
    runs ticket_step (\<lambda>m. \<exists>s. G s \<and> m = moment_of s) (ticket_of r) (ticket_of r')"
proof -
  from assms(3) have "has_ticket ih db (ticket_of r)" by (simp add: has_ticket_def)
  from has_ticket_runs [OF assms(2,1) this] show ?thesis
    by (auto simp: has_ticket_def)
qed

theorem queue_refines_ticket_witness:
  "\<exists>r'. find_release sample_db3 sample_hash = Some r' \<and>
    runs ticket_step (\<lambda>m. \<exists>s. any_store s \<and> m = moment_of s)
      (ticket_of (sample_row 1 (Some 1000) (Some 300000001000) 1000)) (ticket_of r')"
  by (rule queue_refines_ticket [OF sample_inv(2) sample_runs(3)]) code_simp

text \<open>
  C11: fencing. When a release is claimed and later claimed again, whatever happens in
  between, the second token is larger; and from then on a submit with the first token is
  rejected and leaves the database as it is, as a stale lease if the calls to the server work.
\<close>

theorem claim_fencing:
  assumes "db_inv db" and "Claim s db p = (Inr res, db1)" and "it \<in> set (Items res)"
    and "runs store_step any_store db1 db2"
    and "Claim s' db2 p' = (Inr res', db3)" and "it' \<in> set (Items res')"
    and "clInfohash it' = clInfohash it"
    and "runs store_step any_store db3 db4"
    and "spInfohash u = clInfohash it" and "spClaimToken u = clClaimToken it"
  shows "clClaimToken it < clClaimToken it' \<and>
    (\<exists>e. Submit s'' db4 u = (Inl e, db4)) \<and>
    (reliable s'' \<and> validateSubmit u = None \<longrightarrow>
       Submit s'' db4 u = (Inl (ErrStaleLease (clInfohash it)), db4))"
proof -
  note inv1 = Claim_inv [OF assms(2,1)]
  note inv2 = store.runs_inv [OF assms(4) inv1]
  note inv = inv1 inv2 Claim_inv [OF assms(5) inv2]
  from has_ticket_token [OF assms(4) inv(1) Claim_item_ticket(2) [OF assms(1-3)]] obtain b
    where b: "has_ticket (clInfohash it) db2 b" and "clClaimToken it \<le> token b" by auto
  moreover obtain k l where kl: "has_ticket (clInfohash it) db2 (Open (clAttemptCount it') k l)"
    "clClaimToken it' = k + 1"
    using Claim_item_ticket(1) [OF inv(2) assms(5,6)] assms(7) by auto
  ultimately have less: "clClaimToken it < clClaimToken it'"
    using has_ticket_unique [OF b kl(1)] by simp
  from has_ticket_token [OF assms(8) inv(3) Claim_item_ticket(2) [OF inv(2) assms(5,6)]] obtain c
    where "has_ticket (clInfohash it) db4 c" and "clClaimToken it' \<le> token c"
    using assms(7) by auto
  then obtain r where "find_release db4 (spInfohash u) = Some r" "\<not> holds_lease s'' u r"
    using less assms(9,10) by (auto simp: has_ticket_def holds_lease_def token_ticket)
  from Submit_stale [OF this] less assms(9) show ?thesis by auto
qed

theorem claim_fencing_witness:
  "(1::int) < 2 \<and>
   Submit (sample_store 300000002000) sample_db3 (sample_submit 1 ''matched'') =
     (Inl (ErrStaleLease sample_hash), sample_db3)"
proof -
  have "reliable (sample_store 300000002000)"
    by (simp add: reliable_def sample_store_def sample_pool_def)
  moreover have "validateSubmit (sample_submit 1 ''matched'') = None"
    by code_simp
  ultimately show ?thesis
    using claim_fencing [OF sample_inv(1) sample_step2 _ runs.stop sample_step3 _ _ runs.stop,
      of "sample_claimed 1 300000001000" "sample_claimed 2 360000001000" "sample_submit 1 ''matched''"
        "sample_store 300000002000"]
    by (simp add: sample_claimed_def sample_submit_def)
qed

text \<open>
  C12: exclusive leases. While the lease of a claimed item runs, that is in every run whose
  calls read clocks before its expiry, no other claim returns the same release.
\<close>

theorem claim_exclusive:
  assumes "db_inv db" and "Claim s db p = (Inr res, db1)" and "it \<in> set (Items res)"
    and "runs store_step (\<lambda>s. ts s (clock s) < clLeaseExpires it) db1 db2"
    and "Claim s' db2 p' = (Inr res', db3)" and "ts s' (clock s') < clLeaseExpires it"
  shows "clInfohash it \<notin> clInfohash ` set (Items res')"
proof
  let ?k = "clClaimToken it" and ?e = "clLeaseExpires it"
  assume "clInfohash it \<in> clInfohash ` set (Items res')"
  then obtain it' where it': "it' \<in> set (Items res')" "clInfohash it' = clInfohash it" by auto
  note inv1 = Claim_inv [OF assms(2,1)]
  note inv = inv1 store.runs_inv [OF assms(4) inv1]
  from has_ticket_runs [OF assms(4) inv(1) Claim_item_ticket(2) [OF assms(1-3)]] obtain b
    where b: "has_ticket (clInfohash it) db2 b" and "runs ticket_step
      (\<lambda>m. \<exists>s. ts s (clock s) < ?e \<and> m = moment_of s) (Open (clAttemptCount it) ?k (Some ?e)) b" .
  then have "runs ticket_step (\<lambda>m. dbTime m < ?e) (Open (clAttemptCount it) ?k (Some ?e)) b"
    by (auto elim!: runs_weaken simp: moment_of_def)
  then have "held_until ?k ?e b"
    by (rule ticket_runs_held) (simp add: held_until_def)
  moreover obtain k l where kl: "has_ticket (clInfohash it) db2 (Open (clAttemptCount it') k l)"
    "free_at (ts s' (clock s')) l"
    using Claim_item_ticket(1) [OF inv(2) assms(5) it'(1)] it'(2) by auto
  ultimately show False
    using has_ticket_unique [OF b kl(1)] assms(6) by (auto simp: held_until_def free_at_def)
qed

theorem claim_exclusive_witness:
  "clInfohash (sample_claimed 1 300000001000) \<notin>
   clInfohash ` set (Items (\<lparr>Items = []\<rparr>))"
proof (rule claim_exclusive [OF sample_inv(1) sample_step2 _ runs.stop])
  show "Claim (sample_store 300000000999) sample_db2 \<lparr>cpLimit = 9, cpLeaseSeconds = 60\<rparr> =
    (Inr \<lparr>Items = []\<rparr>, sample_db2)"
    by code_simp
  show "ts (sample_store 300000000999) (clock (sample_store 300000000999)) <
    clLeaseExpires (sample_claimed 1 300000001000)"
    by code_simp
qed simp

text \<open>
  C13: dispositions are final. Once a release is matched, suppressed or exhausted, no run of
  the store changes its status, ref, confidence, time of match, attempts or token, and it is
  never leased again.
\<close>

theorem disposition_final:
  assumes "db_inv db" and "find_release db ih = Some r" and "r_match_status r \<noteq> Unmatched"
    and "runs store_step any_store db db'"
  shows "\<exists>r'. find_release db' ih = Some r' \<and> disposed_alike r r'"
proof (rule store.runs_keep [OF _ assms(4,1)])
  show "\<exists>r'. find_release db ih = Some r' \<and> disposed_alike r r'"
    using db_invD [OF assms(1,2)] assms(2,3) by (auto simp: disposed_alike_def queue_ok_def)
qed (use assms(3) store_step_disposed in blast)

definition sample_matched :: release where
  "sample_matched = mark_matched ''tvdb:1'' None 2000 (sample_row 1 (Some 1000) (Some 300000001000) 1000)"

lemma sample_submit_inv:
  "db_inv (snd (Submit (sample_store 2000) sample_db2 (sample_submit 1 ''matched'')))"
  by (rule db_inv_Submit [OF sample_inv(2)])

theorem disposition_final_witness:
  "\<exists>r'. find_release (snd (IngestN (sample_store 3000)
      (snd (Submit (sample_store 2000) sample_db2 (sample_submit 1 ''matched'')))
      (sample_ingest\<lparr>ipSourceID := ''2''\<rparr>))) sample_hash = Some r' \<and>
    disposed_alike sample_matched r'"
proof (rule disposition_final [OF sample_submit_inv])
  show "find_release (snd (Submit (sample_store 2000) sample_db2 (sample_submit 1 ''matched'')))
      sample_hash = Some sample_matched"
    by code_simp
  show "r_match_status sample_matched \<noteq> Unmatched"
    by code_simp
  show "runs store_step any_store
      (snd (Submit (sample_store 2000) sample_db2 (sample_submit 1 ''matched'')))
      (snd (IngestN (sample_store 3000)
        (snd (Submit (sample_store 2000) sample_db2 (sample_submit 1 ''matched'')))
        (sample_ingest\<lparr>ipSourceID := ''2''\<rparr>)))"
    by (rule runs_single [of store_step], rule store_step.ingest, rule prod.collapse [symmetric]) simp
qed

text \<open>
  C14: bounded attempts. With a fixed limit \<open>m\<close>, a release is reported unmatched at most \<open>m\<close>
  times over its whole life, as its log shows; and while it is still in the queue it has an
  attempt left.
\<close>

theorem attempts_bounded:
  assumes "0 < m" and "runs store_step (\<lambda>s. QueueMaxAttempts (cfg s) = m) empty_database db"
    and "find_release db ih = Some r"
  shows "int (count_where missed (events_of db ih)) \<le> m \<and>
    r_attempt_count r = int (count_where missed (events_of db ih)) \<and>
    (r_match_status r = Unmatched \<longrightarrow> r_attempt_count r < m)"
proof -
  have "all_within m db"
    by (rule store.runs_keep [OF _ assms(2) db_inv_empty])
       (use assms(1) store_step_within in blast,
        simp add: all_within_def has_ticket_def find_release_def empty_database_def)
  with assms(3) have "within m (ticket_of r)" by (auto simp: all_within_def has_ticket_def)
  moreover from store.runs_inv [OF assms(2) db_inv_empty] have "db_inv db" .
  from db_invD(4) [OF this assms(3)] have
    "r_attempt_count r = int (count_where missed (events_of db ih))" by (simp add: queue_ok_def)
  ultimately show ?thesis
    by (auto simp: within_def ticket_of_def split: match_status.splits)
qed

theorem attempts_bounded_witness:
  "int (count_where missed (events_of sample_db1 sample_hash)) \<le> 3 \<and>
   r_attempt_count (sample_row 0 None None 0) = int (count_where missed (events_of sample_db1 sample_hash)) \<and>
   r_attempt_count (sample_row 0 None None 0) < 3"
proof -
  have "runs store_step (\<lambda>s. QueueMaxAttempts (cfg s) = 3) empty_database sample_db1"
    by (rule runs_single [of store_step], rule store_step.ingest [OF sample_step1])
       (simp add: sample_store_def)
  moreover have "find_release sample_db1 sample_hash = Some (sample_row 0 None None 0)"
    by code_simp
  ultimately show ?thesis
    using attempts_bounded [of 3 sample_db1 sample_hash "sample_row 0 None None 0"]
    by (simp add: sample_row_def)
qed

text \<open>A claim, when the calls to the server work.\<close>

lemma Claim_served:
  assumes "reliable s" and "db_inv db"
  shows "\<exists>res db'. Claim s db p = (Inr res, db') \<and>
    Items res = map (\<lambda>r. claimed_release db (lease_row s p r))
      (take (nat (claim_limit p)) (claim_queue s db)) \<and>
    map (find_release db' \<circ> clInfohash) (Items res) =
      map (Some \<circ> lease_row s p) (take (nat (claim_limit p)) (claim_queue s db)) \<and>
    1 \<le> claim_limit p \<and> claim_limit p \<le> 500"
proof -
  have items: "claim_items s tx rs \<noteq> Inl e" for tx rs e
    using assms(1) by (induction rs arbitrary: e) (auto simp: rawItemsFor_def split: sum.splits)
  have "\<exists>res. fst (Claim s db p) = Inr res"
    using assms(1) items by (auto simp: Claim_def Let_def commit_tx_def split: sum.splits)
  then obtain res db' where c: "Claim s db p = (Inr res, db')" by (metis prod.collapse)
  from assms(2) have "keys_ok db" by (simp add: db_inv_def)
  from Claim_ok [OF c] claimed_rows_eq [OF this] have it: "Items res =
      map (\<lambda>r. claimed_release db (lease_row s p r)) (take (nat (claim_limit p)) (claim_queue s db))"
    by simp
  moreover have "find_release db' (r_infohash r) = Some (lease_row s p r)"
    if r: "r \<in> set (take (nat (claim_limit p)) (claim_queue s db))" for r
  proof -
    let ?it = "claimed_release db (lease_row s p r)"
    have "?it \<in> set (Items res)" using r it by simp
    from Claim_item [OF assms(2) c this] obtain r0
      where r0: "find_release db (clInfohash ?it) = Some r0"
        "find_release db' (clInfohash ?it) = Some (lease_row s p r0)" .
    moreover have "find_release db (r_infohash r) = Some r"
      using set_claim_queue [OF in_set_takeD [OF r]] \<open>keys_ok db\<close> by (simp add: find_release_iff)
    ultimately show ?thesis by (simp add: claimed_release_def)
  qed
  ultimately show ?thesis
    using c by (auto simp: claim_limit_def Let_def defaultClaimLimit_def maxClaimLimit_def
        claimed_release_def)
qed

lemma lease_expiry_bounds:
  "cpLeaseSeconds p \<le> 0 \<Longrightarrow> lease_expiry s p = clock s + 300 * 1000000000"
  "0 < cpLeaseSeconds p \<Longrightarrow> cpLeaseSeconds p \<le> 9223372036 \<Longrightarrow> lease_expiry s p = clock s + cpLeaseSeconds p * 1000000000"
  "cpLeaseSeconds p = 9223372037 \<Longrightarrow> lease_expiry s p < clock s"
  by (auto simp: lease_expiry_def Let_def time_Add_def time_Second_def s64_def defaultLeaseSeconds_def)

lemma claim_limit_asked: "claim_limit p = (if cpLimit p \<le> 0 then 1 else min (cpLimit p) 500)"
  by (simp add: claim_limit_def Let_def defaultClaimLimit_def maxClaimLimit_def)

lemma claim_queue_newest:
  assumes "db_inv db"
  shows "sorted_wrt (\<lambda>a b. (r_published_at b, r_infohash b) < (r_published_at a, r_infohash a)) (claim_queue s db)"
    "set (claim_queue s db) = {r \<in> set (releases db). r_match_status r = Unmatched \<and>
       r_attempt_count r < QueueMaxAttempts (cfg s) \<and>
       (\<forall>t. r_lease_expires_at r = Some t \<longrightarrow> t \<le> ts s (clock s)) \<and> \<not> locked (pool s) (r_infohash r)}"
proof -
  have "inj_on r_infohash (set (releases db))" "distinct (releases db)"
    using assms by (auto simp: db_inv_def keys_ok_def distinct_map)
  then have "inj_on queue_key (set (claim_queue s db))" "distinct (claim_queue s db)"
    by (auto simp: claim_queue_def inj_on_def queue_key_def)
  then have "distinct (map queue_key (claim_queue s db))" by (simp add: distinct_map)
  moreover have "sorted_wrt (\<lambda>a b. queue_key b \<le> queue_key a) (claim_queue s db)"
    unfolding claim_queue_def by (rule sorted_order_desc)
  ultimately have "sorted_wrt (\<lambda>a b. queue_key b < queue_key a) (claim_queue s db)"
    by (intro sorted_desc_strict)
  then show "sorted_wrt (\<lambda>a b. (r_published_at b, r_infohash b) < (r_published_at a, r_infohash a)) (claim_queue s db)"
    unfolding queue_key_def .
  show "set (claim_queue s db) = {r \<in> set (releases db). r_match_status r = Unmatched \<and>
       r_attempt_count r < QueueMaxAttempts (cfg s) \<and>
       (\<forall>t. r_lease_expires_at r = Some t \<longrightarrow> t \<le> ts s (clock s)) \<and> \<not> locked (pool s) (r_infohash r)}"
    by (auto simp: claim_queue_def claimable_def lease_free_def split: option.splits)
qed

text \<open>
  C15: a claim is served in order and in full. When the calls to the server work, there is one list
  of the releases that can be claimed: those unmatched, with an attempt left, without a running
  lease and not locked by another transaction, the newest first by publication time and then
  infohash. The claim returns the first of this list: as many as asked for, one when no number is
  asked for, and never more than 500. Each comes with its raw items, its token advanced by one and
  the lease that was computed from the request, and its row says the same. A lease lasts five minutes
  when no time is asked for, and the time asked for up to 9223372036 seconds; one second more
  overflows the nanosecond duration, and the lease has expired before the claim is made.
\<close>

theorem claim_serves_newest:
  assumes "reliable s" and "db_inv db"
  shows "(\<exists>res db' queue asked. Claim s db p = (Inr res, db') \<and>
      sorted_wrt (\<lambda>a b. (r_published_at b, r_infohash b) < (r_published_at a, r_infohash a)) queue \<and>
      set queue = {r \<in> set (releases db). r_match_status r = Unmatched \<and>
        r_attempt_count r < QueueMaxAttempts (cfg s) \<and>
        (\<forall>t. r_lease_expires_at r = Some t \<longrightarrow> t \<le> ts s (clock s)) \<and> \<not> locked (pool s) (r_infohash r)} \<and>
      asked = (if cpLimit p \<le> 0 then 1 else min (cpLimit p) 500) \<and>
      Items res = map (\<lambda>r. \<lparr>clInfohash = r_infohash r, clClaimToken = r_claim_token r + 1,
          clAttemptCount = r_attempt_count r, clLeaseExpires = ts s (lease_expiry s p),
          clRawItems = map raw_item_detail (sort_key i_id (items_of db (r_infohash r)))\<rparr>)
        (take (nat asked) queue) \<and>
      map (find_release db' \<circ> clInfohash) (Items res) =
        map (\<lambda>r. Some (r\<lparr>r_claimed_at := Some (ts s (clock s)), r_lease_expires_at := Some (ts s (lease_expiry s p)),
          r_claim_token := r_claim_token r + 1, r_updated_at := ts s (clock s)\<rparr>)) (take (nat asked) queue)) \<and>
    (cpLeaseSeconds p \<le> 0 \<longrightarrow> lease_expiry s p = clock s + 300 * 1000000000) \<and>
    (0 < cpLeaseSeconds p \<and> cpLeaseSeconds p \<le> 9223372036 \<longrightarrow>
      lease_expiry s p = clock s + cpLeaseSeconds p * 1000000000) \<and>
    (cpLeaseSeconds p = 9223372037 \<longrightarrow> lease_expiry s p < clock s)"
proof (intro conjI impI)
  from Claim_served [OF assms, of p] obtain res db' where c: "Claim s db p = (Inr res, db')"
    "Items res = map (\<lambda>r. claimed_release db (lease_row s p r)) (take (nat (claim_limit p)) (claim_queue s db))"
    "map (find_release db' \<circ> clInfohash) (Items res) =
      map (Some \<circ> lease_row s p) (take (nat (claim_limit p)) (claim_queue s db))" by blast
  have row: "claimed_release db (lease_row s p r) = \<lparr>clInfohash = r_infohash r, clClaimToken = r_claim_token r + 1,
      clAttemptCount = r_attempt_count r, clLeaseExpires = ts s (lease_expiry s p),
      clRawItems = map raw_item_detail (sort_key i_id (items_of db (r_infohash r)))\<rparr>" for r
    by (simp add: claimed_release_def lease_row_def)
  show "\<exists>res db' queue asked. Claim s db p = (Inr res, db') \<and>
      sorted_wrt (\<lambda>a b. (r_published_at b, r_infohash b) < (r_published_at a, r_infohash a)) queue \<and>
      set queue = {r \<in> set (releases db). r_match_status r = Unmatched \<and>
        r_attempt_count r < QueueMaxAttempts (cfg s) \<and>
        (\<forall>t. r_lease_expires_at r = Some t \<longrightarrow> t \<le> ts s (clock s)) \<and> \<not> locked (pool s) (r_infohash r)} \<and>
      asked = (if cpLimit p \<le> 0 then 1 else min (cpLimit p) 500) \<and>
      Items res = map (\<lambda>r. \<lparr>clInfohash = r_infohash r, clClaimToken = r_claim_token r + 1,
          clAttemptCount = r_attempt_count r, clLeaseExpires = ts s (lease_expiry s p),
          clRawItems = map raw_item_detail (sort_key i_id (items_of db (r_infohash r)))\<rparr>)
        (take (nat asked) queue) \<and>
      map (find_release db' \<circ> clInfohash) (Items res) =
        map (\<lambda>r. Some (r\<lparr>r_claimed_at := Some (ts s (clock s)), r_lease_expires_at := Some (ts s (lease_expiry s p)),
          r_claim_token := r_claim_token r + 1, r_updated_at := ts s (clock s)\<rparr>)) (take (nat asked) queue)"
    using c claim_queue_newest [OF assms(2), of s] unfolding row claim_limit_asked
    by (intro exI [of _ res] exI [of _ db'] exI [of _ "claim_queue s db"]) (simp add: lease_row_def comp_def)
qed (simp_all add: lease_expiry_bounds)

theorem claim_serves_newest_witness:
  "\<exists>res db'. Claim (sample_store 1000) sample_db1 \<lparr>cpLimit = 0, cpLeaseSeconds = 0\<rparr> = (Inr res, db') \<and>
    length (Items res) = 1"
proof -
  let ?p = "\<lparr>cpLimit = 0, cpLeaseSeconds = 0\<rparr>" and ?s = "sample_store 1000"
  have "reliable ?s" by (simp add: reliable_def sample_store_def sample_pool_def)
  from claim_serves_newest [OF this sample_inv(1), of ?p] obtain res db' queue and asked :: int where c:
    "Claim ?s sample_db1 ?p = (Inr res, db')" "asked = 1" "length (Items res) = length (take (nat asked) queue)"
    "set queue = {r \<in> set (releases sample_db1). r_match_status r = Unmatched \<and> r_attempt_count r < QueueMaxAttempts (cfg ?s) \<and>
       (\<forall>t. r_lease_expires_at r = Some t \<longrightarrow> t \<le> ts ?s (clock ?s)) \<and> \<not> locked (pool ?s) (r_infohash r)}"
    by auto
  have "sample_row 0 None None 0 \<in> set queue"
    unfolding c(4) by (simp add: sample_db1_def sample_db_def sample_row_def sample_store_def sample_pool_def)
  then have "queue \<noteq> []" by auto
  with c(1,2,3) show ?thesis by (cases queue) auto
qed

text \<open>The result of a submit, and what an accepted one changes.\<close>

lemma Submit_result:
  assumes "reliable s" and "db_inv db"
  shows "fst (Submit s db u) =
    (case validateSubmit u of
       Some e \<Rightarrow> Inl e
     | None \<Rightarrow>
         (case find_release db (spInfohash u) of
            None \<Rightarrow> Inl (ErrNoSuchRelease (spInfohash u))
          | Some r \<Rightarrow> if holds_lease s u r then Inr () else Inl (ErrStaleLease (spInfohash u))))"
proof -
  have "r_match_status r = Unmatched" if "find_release db (spInfohash u) = Some r" "holds_lease s u r" for r
    using db_invD(4) [OF assms(2) that(1)] that(2)
    by (auto simp: holds_lease_def lease_live_def queue_ok_def)
  with assms(1) show ?thesis
    by (auto simp: Submit_eq commit_tx_def split: option.splits)
qed

lemma Submit_changes:
  assumes "db_inv db" and "Submit s db u = (Inr (), db')"
  shows "\<exists>r r'. find_release db (spInfohash u) = Some r \<and> find_release db' (spInfohash u) = Some r' \<and>
    r_attempt_count r' = r_attempt_count r + (if spStatus u = ''unmatched'' then 1 else 0) \<and>
    r_match_status r' =
      (if spStatus u = ''matched'' then Matched else if spStatus u = ''suppressed'' then Suppressed
       else if r_attempt_count r' \<ge> QueueMaxAttempts (cfg s) then Exhausted else Unmatched) \<and>
    r_lease_expires_at r' =
      (if r_match_status r' = Unmatched then r_lease_expires_at r else None) \<and>
    r_ref r' = (if r_match_status r' = Matched then Some (spRef u) else None) \<and>
    (r_match_status r' = Matched \<longrightarrow> r_first_matched_at r' = Some (ts s (clock s))) \<and>
    map e_status (events_of db' (spInfohash u)) =
      map e_status (events_of db (spInfohash u)) @ [r_match_status r'] \<and>
    (\<forall>ih. ih \<noteq> spInfohash u \<longrightarrow>
      find_release db' ih = find_release db ih \<and> events_of db' ih = events_of db ih)"
proof -
  from Submit_effect [OF assms(2)] obtain r where r: "find_release db (spInfohash u) = Some r"
      "holds_lease s u r" "r_match_status r = Unmatched" "validateSubmit u = None"
      "db' = submit_effect s db u r" by auto
  let ?r' = "submit_row s u r r"
  have r': "find_release db' (spInfohash u) = Some ?r'"
    using r find_release_infohash [OF r(1)] by (simp add: find_release_submit)
  from db_invD(4) [OF assms(1) r(1)] r(3) have "r_ref r = None" "r_first_matched_at r = None"
    by (auto simp: queue_ok_def)
  with r(3,4) have
    "r_attempt_count ?r' = r_attempt_count r + (if spStatus u = ''unmatched'' then 1 else 0)"
    "r_match_status ?r' = submit_status s u r"
    "r_lease_expires_at ?r' = (if submit_status s u r = Unmatched then r_lease_expires_at r else None)"
    "r_ref ?r' = (if submit_status s u r = Matched then Some (spRef u) else None)"
    "submit_status s u r = Matched \<Longrightarrow> r_first_matched_at ?r' = Some (ts s (clock s))"
    by (auto simp: submit_row_def submit_status_def submit_attempts_def mark_matched_def mark_closed_def
        mark_missed_def validateSubmit_def split: if_splits)
  moreover have "submit_status s u r =
      (if spStatus u = ''matched'' then Matched else if spStatus u = ''suppressed'' then Suppressed
       else if r_attempt_count ?r' \<ge> QueueMaxAttempts (cfg s) then Exhausted else Unmatched)"
    using r(4) calculation(1)
    by (auto simp: submit_status_def submit_attempts_def validateSubmit_def split: if_splits)
  moreover have "find_release db' ih = find_release db ih" if "ih \<noteq> spInfohash u" for ih
    using that r(5) find_release_infohash [of db ih]
    by (cases "find_release db ih") (auto simp: find_release_submit)
  ultimately show ?thesis
    using r(1,5) r' by (intro exI [of _ r] exI [of _ ?r']) (simp add: events_of_submit_effect)
qed

lemma Submit_writes:
  assumes "db_inv db" and "Submit s db u = (Inr (), db')"
  shows "\<exists>r st n now. find_release db (spInfohash u) = Some r \<and> now = ts s (clock s) \<and>
    n = r_attempt_count r + (if spStatus u = ''unmatched'' then 1 else 0) \<and>
    st = (if spStatus u = ''matched'' then Matched else if spStatus u = ''suppressed'' then Suppressed
      else if n \<ge> QueueMaxAttempts (cfg s) then Exhausted else Unmatched) \<and>
    db' = db\<lparr>
      releases := map (\<lambda>x. if r_infohash x \<noteq> spInfohash u then x
        else r\<lparr>r_match_status := st, r_attempt_count := n,
          r_ref := (if st = Matched then Some (spRef u) else None),
          r_confidence := (if st = Matched then spConfidence u else None),
          r_first_matched_at := (if st = Matched then Some now else None),
          r_claimed_at := (if st = Unmatched then r_claimed_at r else None),
          r_lease_expires_at := (if st = Unmatched then r_lease_expires_at r else None),
          r_updated_at := now\<rparr>) (releases db),
      match_events := match_events db @
        [\<lparr>e_id = match_events_seq db, e_infohash = spInfohash u, e_status = st,
          e_ref = (if st = Matched then Some (spRef u) else None),
          e_confidence = (if st \<in> {Matched, Suppressed} then spConfidence u else None),
          e_reason = Some (spReason u), e_created_at = now\<rparr>],
      match_events_seq := match_events_seq db + 1\<rparr>"
proof -
  from Submit_effect [OF assms(2)] obtain r where r: "find_release db (spInfohash u) = Some r"
      "holds_lease s u r" "r_match_status r = Unmatched" "validateSubmit u = None"
      "db' = submit_effect s db u r" by auto
  let ?n = "submit_attempts u r" and ?st = "submit_status s u r" and ?now = "ts s (clock s)"
  let ?row = "r\<lparr>r_match_status := ?st, r_attempt_count := ?n,
    r_ref := (if ?st = Matched then Some (spRef u) else None),
    r_confidence := (if ?st = Matched then spConfidence u else None),
    r_first_matched_at := (if ?st = Matched then Some ?now else None),
    r_claimed_at := (if ?st = Unmatched then r_claimed_at r else None),
    r_lease_expires_at := (if ?st = Unmatched then r_lease_expires_at r else None), r_updated_at := ?now\<rparr>"
  have none: "r_ref r = None" "r_confidence r = None" "r_first_matched_at r = None"
    using db_invD(4) [OF assms(1) r(1)] r(3) by (auto simp: queue_ok_def)
  have same: "?st = Matched \<Longrightarrow> ?n = r_attempt_count r"
    by (auto simp: submit_status_def submit_attempts_def split: if_splits)
  have row: "submit_row s u r r = ?row"
    by (cases ?st) (simp_all add: submit_row_def mark_matched_def mark_closed_def mark_missed_def none r(3) same coalesce_def)
  have "inj_on r_infohash (set (releases db))" "r \<in> set (releases db)" "r_infohash r = spInfohash u"
    using r(1) assms(1) by (auto simp: db_inv_def find_release_iff keys_ok_def distinct_map)
  then have "x = r" if "x \<in> set (releases db)" "r_infohash x = spInfohash u" for x
    using that by (simp add: inj_on_def)
  then have "update_where (\<lambda>r'. r_infohash r' = spInfohash u) (submit_row s u r) (releases db) =
      map (\<lambda>x. if r_infohash x \<noteq> spInfohash u then x else ?row) (releases db)"
    using row by (auto simp: update_where_def)
  then have "db' = db\<lparr>releases := map (\<lambda>x. if r_infohash x \<noteq> spInfohash u then x else ?row) (releases db),
      match_events := match_events db @
        [\<lparr>e_id = match_events_seq db, e_infohash = spInfohash u, e_status = ?st,
          e_ref = (if ?st = Matched then Some (spRef u) else None),
          e_confidence = (if ?st \<in> {Matched, Suppressed} then spConfidence u else None),
          e_reason = Some (spReason u), e_created_at = ?now\<rparr>],
      match_events_seq := match_events_seq db + 1\<rparr>"
    unfolding r(5) submit_effect_def append_match_event_def by simp
  note eq = this
  show ?thesis
  proof (intro exI conjI)
    show "find_release db (spInfohash u) = Some r" by (fact r(1))
    show "?n = r_attempt_count r + (if spStatus u = ''unmatched'' then 1 else 0)" by (simp add: submit_attempts_def)
  qed (rule refl submit_status_def eq)+
qed

text \<open>
  C16: submits. On a database of the store, when the calls to the server work, a submit fails on a
  status other than matched, unmatched and suppressed, on an invalid ref of a match, on an unknown
  release, and on a token that is not that of a lease still running; otherwise it succeeds.
  \<^const>\<open>ErrNoActiveLease\<close> never occurs: a disposed release has no lease, so its submits are stale.

  What an accepted submit leaves is given in full. In the row of the release: the status asked for,
  or exhausted when an unmatched report uses up the last attempt; an attempt more for an unmatched
  report only; the ref, the confidence and the time of a match, none of them otherwise; no lease
  unless the release stays in the queue; the time of the change; and all else as it was. In the log:
  one event more, with the next number, the final status, the ref of a match, the confidence of a
  match or a suppression, the reason and the time. Every other row and table is as it was.
\<close>

theorem submit_spec:
  assumes "db_inv db"
  shows "(reliable s \<longrightarrow> fst (Submit s db u) =
      (if spStatus u \<notin> {''matched'', ''unmatched'', ''suppressed''} then Inl (InvalidStatus (spStatus u))
       else case (if spStatus u = ''matched'' then ValidateRef (spRef u) else None) of
         Some e \<Rightarrow> Inl (RefError e)
       | None \<Rightarrow>
           (case find_release db (spInfohash u) of
              None \<Rightarrow> Inl (ErrNoSuchRelease (spInfohash u))
            | Some r \<Rightarrow>
                if r_claim_token r = spClaimToken u \<and> (\<exists>t. r_lease_expires_at r = Some t \<and> clock s < t) then Inr ()
                else Inl (ErrStaleLease (spInfohash u))))) \<and>
    (\<forall>db'. Submit s db u = (Inr (), db') \<longrightarrow>
      (\<exists>r st n now. find_release db (spInfohash u) = Some r \<and> now = ts s (clock s) \<and>
        n = r_attempt_count r + (if spStatus u = ''unmatched'' then 1 else 0) \<and>
        st = (if spStatus u = ''matched'' then Matched else if spStatus u = ''suppressed'' then Suppressed
          else if n \<ge> QueueMaxAttempts (cfg s) then Exhausted else Unmatched) \<and>
        db' = db\<lparr>
          releases := map (\<lambda>x. if r_infohash x \<noteq> spInfohash u then x
            else r\<lparr>r_match_status := st, r_attempt_count := n,
              r_ref := (if st = Matched then Some (spRef u) else None),
              r_confidence := (if st = Matched then spConfidence u else None),
              r_first_matched_at := (if st = Matched then Some now else None),
              r_claimed_at := (if st = Unmatched then r_claimed_at r else None),
              r_lease_expires_at := (if st = Unmatched then r_lease_expires_at r else None),
              r_updated_at := now\<rparr>) (releases db),
          match_events := match_events db @
            [\<lparr>e_id = match_events_seq db, e_infohash = spInfohash u, e_status = st,
              e_ref = (if st = Matched then Some (spRef u) else None),
              e_confidence = (if st \<in> {Matched, Suppressed} then spConfidence u else None),
              e_reason = Some (spReason u), e_created_at = now\<rparr>],
          match_events_seq := match_events_seq db + 1\<rparr>))"
proof (intro conjI allI impI)
  have lease: "holds_lease s u r \<longleftrightarrow>
      r_claim_token r = spClaimToken u \<and> (\<exists>t. r_lease_expires_at r = Some t \<and> clock s < t)" for r
    by (auto simp: holds_lease_def lease_live_def split: option.splits)
  show "fst (Submit s db u) =
      (if spStatus u \<notin> {''matched'', ''unmatched'', ''suppressed''} then Inl (InvalidStatus (spStatus u))
       else case (if spStatus u = ''matched'' then ValidateRef (spRef u) else None) of
         Some e \<Rightarrow> Inl (RefError e)
       | None \<Rightarrow>
           (case find_release db (spInfohash u) of
              None \<Rightarrow> Inl (ErrNoSuchRelease (spInfohash u))
            | Some r \<Rightarrow>
                if r_claim_token r = spClaimToken u \<and> (\<exists>t. r_lease_expires_at r = Some t \<and> clock s < t) then Inr ()
                else Inl (ErrStaleLease (spInfohash u))))" if "reliable s"
    unfolding Submit_result [OF that assms] lease
    by (auto simp: validateSubmit_def split: option.split)
qed (rule Submit_writes [OF assms])

theorem submit_spec_witness:
  "fst (Submit (sample_store 2000) sample_db2 (sample_submit 1 ''unmatched'')) = Inr () \<and>
   map r_attempt_count (releases (snd (Submit (sample_store 2000) sample_db2 (sample_submit 1 ''unmatched'')))) = [1]"
proof -
  let ?u = "sample_submit 1 ''unmatched''"
  have "reliable (sample_store 2000)"
    by (simp add: reliable_def sample_store_def sample_pool_def)
  note all = submit_spec [OF sample_inv(2), of "sample_store 2000" ?u]
  have row: "find_release sample_db2 sample_hash =
      Some (sample_row 1 (Some 1000) (Some 300000001000) 1000)"
    "releases sample_db2 = [sample_row 1 (Some 1000) (Some 300000001000) 1000]"
    by code_simp+
  have p: "spInfohash ?u = sample_hash" "spStatus ?u = ''unmatched''" "spClaimToken ?u = 1"
    "r_attempt_count (sample_row 1 (Some 1000) (Some 300000001000) 1000) = 0"
    "r_infohash (sample_row 1 (Some 1000) (Some 300000001000) 1000) = sample_hash"
    "r_claim_token (sample_row 1 (Some 1000) (Some 300000001000) 1000) = 1"
    "r_lease_expires_at (sample_row 1 (Some 1000) (Some 300000001000) 1000) = Some 300000001000"
    "clock (sample_store 2000) = 2000"
    by (simp_all add: sample_submit_def sample_store_def sample_row_def)
  have res: "fst (Submit (sample_store 2000) sample_db2 ?u) = Inr ()"
    using all [THEN conjunct1, THEN mp, OF \<open>reliable (sample_store 2000)\<close>] by (simp add: p row)
  then have sub: "Submit (sample_store 2000) sample_db2 ?u = (Inr (), snd (Submit (sample_store 2000) sample_db2 ?u))"
    by (metis prod.collapse)
  from all [THEN conjunct2, THEN spec, THEN mp, OF sub]
  have "map r_attempt_count (releases (snd (Submit (sample_store 2000) sample_db2 ?u))) = [1]"
    unfolding p row by (elim exE conjE) (auto simp: p)
  with res show ?thesis by simp
qed

text \<open>
  The queue statistics. The four statuses partition the releases. The available count is
  the length of the claim queue when no other transaction holds a row, and available and
  leased releases make up the unmatched ones when every unmatched release has an attempt left.
\<close>

lemma queue_stats_partition:
  assumes "QueueStats_op s db = Inr q"
  shows "qsUnmatched q + qsMatched q + qsSuppressed q + qsExhausted q = length (releases db) \<and>
    ((\<forall>ih. \<not> locked (pool s) ih) \<longrightarrow> qsAvailable q = length (claim_queue s db)) \<and>
    ((\<forall>r \<in> set (releases db). r_match_status r = Unmatched \<longrightarrow>
        r_attempt_count r < QueueMaxAttempts (cfg s)) \<longrightarrow>
      qsAvailable q + qsLeased q = qsUnmatched q)"
proof -
  have part: "count_where (\<lambda>r. r_match_status r = Unmatched) rows +
      count_where (\<lambda>r. r_match_status r = Matched) rows +
      count_where (\<lambda>r. r_match_status r = Suppressed) rows +
      count_where (\<lambda>r. r_match_status r = Exhausted) rows = length rows" for rows
    by (induction rows) (auto simp: count_where_def intro: match_status.exhaust)
  have split: "count_where (claimable t m) rows +
      count_where (\<lambda>r. r_match_status r = Unmatched \<and> lease_live t r) rows =
      count_where (\<lambda>r. r_match_status r = Unmatched) rows"
    if "\<forall>r \<in> set rows. r_match_status r = Unmatched \<longrightarrow> r_attempt_count r < m" for t m rows
    using that
    by (induction rows)
       (auto simp: count_where_def claimable_def lease_live_def lease_free_def split: option.splits)
  from assms show ?thesis
    by (auto simp: QueueStats_op_def Let_def part claim_queue_def count_where_def [symmetric] split
        split: option.splits)
qed

end
