(* ===== verification/Store_Catalog.thy ===== *)
theory Store_Catalog
  imports Store_Queue
begin

text \<open>
  The catalogue side of the store: what an ingest records and reports, that failed operations
  leave no trace in the tables, and what the lookups return.
\<close>

section \<open>Definitions\<close>

definition posts_of :: "database \<Rightarrow> string \<Rightarrow> raw_item set" where
  "posts_of db ih = {i \<in> set (raw_items db). i_infohash i = ih}"

section \<open>Lemmas\<close>

lemma upsertTx_reliable:
  assumes "reliable s"
  obtains c i tx where
    "upsertTx s db p (fst (ingestSeeds p)) (snd (ingestSeeds p)) (clock s) = (Inr (c, i), tx)"
proof -
  have "\<exists>u tx. upsertTx s db p (fst (ingestSeeds p)) (snd (ingestSeeds p)) (clock s) = (Inr u, tx)"
  proof (cases "known_release db p \<and> \<not> known_post db p")
    case True
    with assms show ?thesis
      using recompute_effect [of s "add_item s db p" "ipInfohash p" p "clock s"]
      by (auto simp: upsertTx_def upsert_release_eq insert_raw_item_eq Let_def)
  next
    case False
    with assms show ?thesis
      by (auto simp: upsertTx_def upsert_release_eq insert_raw_item_eq Let_def)
  qed
  then show thesis using that by fast
qed

lemma IngestN_reliable:
  assumes "reliable s"
  shows "fst (IngestN s db p) = Inr (ingest_outcome db p)"
proof (cases "isCanonicalInfohash (ipInfohash p)")
  case True
  from upsertTx_reliable [OF assms] obtain c i tx where
    "upsertTx s db p (fst (ingestSeeds p)) (snd (ingestSeeds p)) (clock s) = (Inr (c, i), tx)" .
  from IngestN_canonical [OF True this] assms show ?thesis
    by (simp add: commit_tx_def)
next
  case False
  then show ?thesis by (simp add: IngestN_invalid)
qed

lemma IngestN_db:
  assumes "IngestN s db p = (Inr out, db')"
  shows "out = ingest_outcome db p \<and>
    (if isCanonicalInfohash (ipInfohash p) \<and> \<not> known_post db p
     then db' = (if known_release db p then ingest_more s db p else ingest_new s db p)
     else same_tables db db')"
  using IngestN_effect [OF assms] by auto

lemma known_post_add: "known_post (add_item s db p) p"
  by (auto simp: known_post_def)

lemma known_after_ingest:
  assumes "IngestN s db p = (Inr out, db')" "\<not> oConflict out" "isCanonicalInfohash (ipInfohash p)"
  shows "known_post db' p \<and> known_release db' p"
proof (cases "known_post db p")
  case True
  with IngestN_db [OF assms(1)] assms(2,3) show ?thesis
    by (auto simp: ingest_outcome_def known_post_def known_release_def same_tables_def find_release_def
        split: if_splits)
next
  case False
  then have "db' = (if known_release db p then ingest_more s db p else ingest_new s db p)"
    using IngestN_db [OF assms(1)] assms(3) by simp
  then show ?thesis
    using known_post_add [of s db p] find_release_fresh [of db p s]
    by (auto simp: ingest_more_def ingest_new_def known_post_def known_release_def
        find_release_more [unfolded ingest_more_def] split: if_splits)
qed

lemma known_same:
  "same_tables db db' \<Longrightarrow> known_post db' p = known_post db p \<and> known_release db' p = known_release db p"
  by (simp add: known_post_def known_release_def same_tables_def find_release_def)

lemma Claim_error:
  "Claim s db p = (Inl e, db') \<Longrightarrow> \<not> lostAck (pool s) \<Longrightarrow> same_tables db db'"
  by (auto simp: Claim_def Let_def commit_tx_def split: option.splits sum.splits if_splits)

lemma rep_title_iff:
  assumes "rep_title items = Some t"
  shows "\<exists>i \<in> set items. t = i_title i \<and>
    (\<forall>j \<in> set items. (i_published_at j, i_id j) \<le> (i_published_at i, i_id i))"
proof -
  let ?k = "\<lambda>i. (i_published_at i, i_id i)"
  from assms obtain i rest where i: "order_desc ?k items = i # rest" "t = i_title i"
    by (auto simp: rep_title_def split: list.splits)
  have "i \<in> set items" using set_order_desc [of ?k items] i(1) by auto
  moreover have "\<forall>j \<in> set (i # rest). ?k j \<le> ?k i"
    using sorted_order_desc [of ?k items] i(1) by auto
  moreover have "set (i # rest) = set items" using set_order_desc [of ?k items] i(1) by simp
  ultimately show ?thesis using i(2) by blast
qed

lemma foldl_map_upd:
  "distinct (map fst xs) \<Longrightarrow>
   foldl (\<lambda>out (k, v). out(k \<mapsto> v)) m xs = (\<lambda>k. case map_of xs k of None \<Rightarrow> m k | Some v \<Rightarrow> Some v)"
proof (induction xs arbitrary: m)
  case (Cons kv xs)
  obtain k v where kv: "kv = (k, v)" by fastforce
  with Cons have "k \<notin> fst ` set xs" by simp
  then have "map_of xs k = None" by (simp add: map_of_eq_None_iff)
  with Cons kv show ?case by (auto simp: fun_eq_iff split: option.splits)
qed simp

lemma magnet_rows_distinct:
  "distinct (map r_infohash rows) \<Longrightarrow> distinct (map fst (List.map_filter magnet_row rows))"
  by (induction rows) (auto simp: map_filter_def split: option.splits)

lemma magnet_rows_lookup:
  "distinct (map r_infohash rows) \<Longrightarrow>
   map_of (List.map_filter magnet_row rows) ih =
     Option.bind (find (\<lambda>r. r_infohash r = ih) rows) r_magnet"
proof (induction rows)
  case (Cons r rows)
  then have "find (\<lambda>r'. r_infohash r' = r_infohash r) rows = None"
    by (auto simp: find_key_None)
  with Cons show ?case
    by (cases "r_magnet r") (auto simp: map_filter_simps)
qed (simp add: map_filter_simps)

lemma find_filter_key:
  "find (\<lambda>r. k r = x) (filter (\<lambda>r. k r \<in> A) rows) = (if x \<in> A then find (\<lambda>r. k r = x) rows else None)"
  by (induction rows) auto

lemma sort_key_strict:
  assumes "distinct (map k xs)"
  shows "sorted_wrt (<) (map k (sort_key k xs))"
proof -
  have "sorted (map k (sort_key k xs))" by simp
  moreover have "distinct (map k (sort_key k xs))"
    using assms by (simp add: distinct_map)
  ultimately show ?thesis by (simp add: strict_sorted_iff)
qed

lemma missed_detail:
  "count_where (\<lambda>d. mdStatus d = ''unmatched'' \<or> mdStatus d = ''exhausted'')
     (map match_event_detail es) = count_where missed es"
proof -
  have "(mdStatus (match_event_detail e) = ''unmatched'' \<or> mdStatus (match_event_detail e) = ''exhausted'')
      = missed e" for e
    by (cases "e_status e") (auto simp: match_event_detail_def missed_def)
  then show ?thesis by (simp add: count_where_def filter_map comp_def)
qed

lemma count_where_sort_key [simp]: "count_where P (sort_key k xs) = count_where P xs"
  by (simp add: count_where_def filter_sort)

section \<open>Properties\<close>

text \<open>
  C20: the outcome of an ingest and what it records. When the calls to the server work, a post
  is new when neither its infohash nor its \<open>(source, source_id)\<close> is known, an update when only
  the infohash is, a conflict when only the \<open>(source, source_id)\<close> is, and a duplicate
  otherwise or when its infohash is not canonical. A new post adds one release in the queue
  and one raw item, an update adds one raw item, and the rest change no table.
\<close>

theorem ingest_spec:
  assumes "reliable s" and "IngestN s db p = (res, db')"
  shows "res = Inr (ingest_outcome db p) \<and>
    (let out = ingest_outcome db p in
     (oNew out \<longrightarrow> raw_items db' = raw_items db @ [new_item s db p] \<and>
        (\<exists>r. releases db' = releases db @ [r] \<and> r_infohash r = ipInfohash p \<and>
          ticket_of r = Open 0 0 None \<and> r_magnet r = (if ipMagnet p = [] then None else Some (ipMagnet p)))) \<and>
     (oUpdated out \<longrightarrow> raw_items db' = raw_items db @ [new_item s db p] \<and>
        map r_infohash (releases db') = map r_infohash (releases db)) \<and>
     (oDuplicate out \<or> oConflict out \<longrightarrow>
        raw_items db' = raw_items db \<and> releases db' = releases db))"
proof -
  from IngestN_reliable [OF assms(1), of db p] assms(2) have res: "res = Inr (ingest_outcome db p)"
    by simp
  from IngestN_db [of s db p "ingest_outcome db p" db'] assms(2) res
  have "if isCanonicalInfohash (ipInfohash p) \<and> \<not> known_post db p
     then db' = (if known_release db p then ingest_more s db p else ingest_new s db p)
     else same_tables db db'" by simp
  then show ?thesis
    using res
    by (auto simp: Let_def ingest_outcome_def no_outcome_def ingest_new_def ingest_more_def
        map_update_where same_tables_def new_release_def ticket_of_def ingestSeeds_def
        split: if_splits)
qed

theorem ingest_spec_witness:
  "raw_items sample_db1 = [new_item (sample_store 0) empty_database sample_ingest] \<and>
   map r_infohash (releases sample_db1) = [sample_hash]"
proof -
  have "reliable (sample_store 0)" by (simp add: reliable_def sample_store_def sample_pool_def)
  from ingest_spec [OF this sample_step1]
  have "oNew (ingest_outcome empty_database sample_ingest) \<longrightarrow>
      raw_items sample_db1 = raw_items empty_database @ [new_item (sample_store 0) empty_database sample_ingest] \<and>
      (\<exists>r. releases sample_db1 = releases empty_database @ [r] \<and> r_infohash r = ipInfohash sample_ingest)"
    by (auto simp: Let_def)
  moreover have "oNew (ingest_outcome empty_database sample_ingest)" by code_simp
  ultimately show ?thesis
    by (auto simp: empty_database_def sample_ingest_def)
qed

text \<open>
  Ingest is idempotent. A post that was ingested, with any outcome but a conflict, is a
  duplicate ever after that call, and ingesting it again changes no table; a post that
  conflicted conflicts again.
\<close>

lemma ingest_idempotent:
  assumes "IngestN s db p = (Inr out, db')" and "reliable s'"
    and "IngestN s' db' p = (res, db'')"
  shows "res = Inr (if oConflict out then no_outcome\<lparr>oConflict := True\<rparr>
      else no_outcome\<lparr>oDuplicate := True\<rparr>) \<and> same_tables db' db''"
proof -
  from IngestN_reliable [OF assms(2), of db' p] assms(3)
  have res: "res = Inr (ingest_outcome db' p)" by simp
  have "ingest_outcome db' p = (if oConflict out then no_outcome\<lparr>oConflict := True\<rparr>
      else no_outcome\<lparr>oDuplicate := True\<rparr>) \<and> (known_post db' p \<or> \<not> isCanonicalInfohash (ipInfohash p))"
  proof (cases "oConflict out")
    case True
    with IngestN_db [OF assms(1)] have "isCanonicalInfohash (ipInfohash p)" "known_post db p"
        "\<not> known_release db p" "same_tables db db'"
      by (auto simp: ingest_outcome_def no_outcome_def split: if_splits)
    with True show ?thesis using known_same [of db db' p] by (simp add: ingest_outcome_def)
  next
    case False
    with known_after_ingest [OF assms(1) False] show ?thesis
      by (auto simp: ingest_outcome_def)
  qed
  with IngestN_db [of s' db' p _ db''] assms(3) res show ?thesis by auto
qed

text \<open>
  C22: atomicity. An operation that reports an error leaves every table as it was, unless the
  error is a commit whose acknowledgement was lost.
\<close>

theorem errors_leave_no_trace:
  assumes "\<not> lostAck (pool s)"
  shows "(\<forall>p e db'. IngestN s db p = (Inl e, db') \<longrightarrow> same_tables db db') \<and>
    (\<forall>p e db'. Claim s db p = (Inl e, db') \<longrightarrow> same_tables db db') \<and>
    (\<forall>p e db'. Submit s db p = (Inl e, db') \<longrightarrow> same_tables db db')"
proof (intro conjI allI impI)
  fix p e db'
  assume "IngestN s db p = (Inl e, db')"
  from IngestN_effect [OF this] assms show "same_tables db db'" by auto
next
  fix p e db'
  assume "Submit s db p = (Inl e, db')"
  from Submit_effect [OF this] assms show "same_tables db db'" by auto
qed (rule Claim_error [OF _ assms])

theorem errors_leave_no_trace_witness:
  "same_tables sample_db2
     (snd (Submit (sample_store 2000) sample_db2 (sample_submit 7 ''matched'')))"
proof -
  have "\<not> lostAck (pool (sample_store 2000))" by (simp add: sample_store_def sample_pool_def)
  moreover have "Submit (sample_store 2000) sample_db2 (sample_submit 7 ''matched'') =
      (Inl (ErrStaleLease sample_hash), snd (Submit (sample_store 2000) sample_db2 (sample_submit 7 ''matched'')))"
    by code_simp
  ultimately show ?thesis using errors_leave_no_trace by blast
qed

text \<open>
  The representative columns. In every reachable database, a release has at least one raw
  item; its title is that of the most recently published one (the last ingested among equals),
  its publication time is the earliest, and its sources are the sources of its raw items, each
  once, in order.
\<close>

lemma representative_columns:
  assumes "reachable db" and "find_release db ih = Some r"
  shows "(\<exists>i \<in> posts_of db ih. r_title r = i_title i \<and>
      (\<forall>j \<in> posts_of db ih. (i_published_at j, i_id j) \<le> (i_published_at i, i_id i))) \<and>
    (\<exists>i \<in> posts_of db ih. r_published_at r = i_published_at i) \<and>
    (\<forall>j \<in> posts_of db ih. r_published_at r \<le> i_published_at j) \<and>
    set (r_sources r) = i_source ` posts_of db ih \<and> sorted (r_sources r) \<and> distinct (r_sources r)"
proof -
  let ?items = "items_of db ih"
  have set: "set ?items = posts_of db ih" by (auto simp: items_of_def posts_of_def)
  from db_invD(3) [OF reachable_inv [OF assms(1)] assms(2)]
  have rep: "rep_title ?items = Some (r_title r)" "rep_published_at ?items = Some (r_published_at r)"
    "rep_sources ?items = Some (r_sources r)" by (auto simp: rep_ok_def)
  from rep(2) have pub: "r_published_at r = Min (i_published_at ` (posts_of db ih))" "posts_of db ih \<noteq> {}"
    by (auto simp: rep_published_at_def set [symmetric] split: if_splits)
  have fin: "finite (i_published_at ` (posts_of db ih))" by (simp add: set [symmetric])
  have "r_published_at r \<in> i_published_at ` (posts_of db ih)" using Min_in [OF fin] pub by simp
  moreover have "\<forall>j \<in> posts_of db ih. r_published_at r \<le> i_published_at j" using pub fin by simp
  moreover from rep(3) have "r_sources r = sort (remdups (map i_source ?items))"
    by (simp add: rep_sources_def split: if_splits)
  moreover note rep_title_iff [OF rep(1), unfolded set]
  ultimately show ?thesis
    by (auto simp: set simp del: less_eq_prod_simp)
qed

text \<open>
  C24: magnets. A batch of at most 500 infohashes is resolved to the magnets of the releases
  that have one, a larger batch is refused, and the magnet of a release never changes once it
  is set, whatever the store does afterwards.
\<close>

theorem magnets_resolved_and_stable:
  assumes "db_inv db" and "reliable s"
  shows "(length ihs \<le> 500 \<longrightarrow> (\<exists>m. ResolveMagnets s db ihs = Inr m \<and>
      (\<forall>ih. m ih = (if ih \<in> set ihs then Option.bind (find_release db ih) r_magnet else None)))) \<and>
    (500 < length ihs \<longrightarrow> ResolveMagnets s db ihs = Inl (BatchExceedsCap (length ihs))) \<and>
    (\<forall>db' ih m. runs store_step any_store db db' \<and> Option.bind (find_release db ih) r_magnet = Some m \<longrightarrow>
      Option.bind (find_release db' ih) r_magnet = Some m)"
proof (intro conjI allI impI)
  assume len: "length ihs \<le> 500"
  let ?rows = "filter (\<lambda>r. r_infohash r \<in> set ihs) (releases db)"
  from assms(1) have d: "distinct (map r_infohash ?rows)"
    by (simp add: db_inv_def keys_ok_def distinct_map_filter)
  show "\<exists>m. ResolveMagnets s db ihs = Inr m \<and>
      (\<forall>ih. m ih = (if ih \<in> set ihs then Option.bind (find_release db ih) r_magnet else None))"
  proof (cases "ihs = []")
    case False
    with len assms(2) show ?thesis
      by (auto simp: ResolveMagnets_def maxMagnetsBatch_def foldl_map_upd [OF magnet_rows_distinct [OF d]]
          magnet_rows_lookup [OF d] find_filter_key find_release_def split: option.split)
  qed (simp add: ResolveMagnets_def)
next
  assume "500 < length ihs"
  then show "ResolveMagnets s db ihs = Inl (BatchExceedsCap (length ihs))"
    by (simp add: ResolveMagnets_def maxMagnetsBatch_def)
next
  fix db' ih m
  assume *: "runs store_step any_store db db' \<and> Option.bind (find_release db ih) r_magnet = Some m"
  have "\<exists>r'. find_release db' ih = Some r' \<and> r_magnet r' = Some m"
    by (rule store.runs_keep [of any_store _ db, OF _ _ assms(1)])
       (use * store_step_magnet in \<open>auto simp: bind_eq_Some_conv\<close>)
  then show "Option.bind (find_release db' ih) r_magnet = Some m" by auto
qed

theorem magnets_resolved_and_stable_witness:
  "\<exists>m. ResolveMagnets (sample_store 0) sample_db2 [sample_hash] = Inr m \<and> m sample_hash = Some ''m''"
proof -
  have "reliable (sample_store 0)" by (simp add: reliable_def sample_store_def sample_pool_def)
  moreover have "Option.bind (find_release sample_db2 sample_hash) r_magnet = Some ''m''" by code_simp
  ultimately show ?thesis
    using magnets_resolved_and_stable [OF sample_inv(2), of "sample_store 0" "[sample_hash]", THEN conjunct1]
    by auto
qed

text \<open>
  C25: the detail of a release. When the calls to the server work, a known infohash is found
  and an unknown one is reported as such. The detail of a release lists its raw items, at
  least one, by increasing id; its attempt count is the number of unmatched and exhausted
  events it lists; and a matched one carries a well-formed ref.
\<close>

theorem get_release_spec:
  assumes "db_inv db" and "reliable s"
  shows "case find_release db ih of
      None \<Rightarrow> GetRelease s db ih = Inl (ErrNoSuchRelease ih)
    | Some r \<Rightarrow> \<exists>d. GetRelease s db ih = Inr d \<and> dInfohash d = ih \<and>
        dRawItems d \<noteq> [] \<and> sorted_wrt (<) (map rdID (dRawItems d)) \<and>
        set (dRawItems d) = raw_item_detail ` posts_of db ih \<and>
        dAttemptCount d = int (count_where
          (\<lambda>e. mdStatus e = ''unmatched'' \<or> mdStatus e = ''exhausted'') (dMatchEvents d)) \<and>
        (dMatchStatus d = ''matched'' \<longrightarrow> (\<exists>ref. dRef d = Some ref \<and> ValidateRef ref = None))"
proof (cases "find_release db ih")
  case None
  with assms(2) show ?thesis by (simp add: GetRelease_def)
next
  case (Some r)
  note row = db_invD [OF assms(1) Some]
  let ?raws = "map raw_item_detail (sort_key i_id (items_of db ih))"
  let ?events = "map match_event_detail (sort_key (\<lambda>e. (e_created_at e, e_id e)) (events_of db ih))"
  have g: "GetRelease s db ih = Inr (release_detail r ?raws ?events)"
    using assms(2) Some by (simp add: GetRelease_def rawItemsFor_def releaseMatchEvents_def)
  have "items_of db ih \<noteq> []"
    using row(3) by (auto simp: rep_ok_def rep_published_at_def)
  moreover have "distinct (map i_id (items_of db ih))"
    using assms(1) by (simp add: db_inv_def keys_ok_def items_of_def distinct_map_filter)
  from sort_key_strict [OF this] have "sorted_wrt (<) (map rdID ?raws)"
    by (simp add: comp_def raw_item_detail_def)
  moreover have "r_match_status r = Matched" if "status_text (r_match_status r) = ''matched''"
    using that by (cases "r_match_status r") auto
  ultimately show ?thesis
    using Some g row
    by (auto simp: release_detail_def posts_of_def items_of_def queue_ok_def missed_detail
        simp flip: set_empty)
qed

theorem get_release_spec_witness:
  "\<exists>d. GetRelease (sample_store 0) sample_db2 sample_hash = Inr d \<and> dInfohash d = sample_hash"
proof -
  have "reliable (sample_store 0)" by (simp add: reliable_def sample_store_def sample_pool_def)
  moreover have "find_release sample_db2 sample_hash =
      Some (sample_row 1 (Some 1000) (Some 300000001000) 1000)" by code_simp
  ultimately show ?thesis
    using get_release_spec [OF sample_inv(2), of "sample_store 0" sample_hash] by auto
qed

end
