(* ===== verification/Gotime.thy ===== *)
theory Gotime
  imports Takuhai_Prelude
begin

text \<open>
  \<open>Time.Format\<close> and \<open>time.Parse\<close> with the layout \<open>time.RFC3339Nano\<close>, which the cursor and
  every wire result use. A time is an instant in nanoseconds since the Unix epoch and, for
  printing, the offset of its zone in seconds.
\<close>

section \<open>Definitions\<close>

subsection \<open>The calendar\<close>

text \<open>Days are counted from 1 January of the year 1, in cycles of 400, 100, 4 and 1 years.\<close>

definition is_leap :: "int \<Rightarrow> bool" where
  "is_leap y \<longleftrightarrow> y mod 4 = 0 \<and> (y mod 100 \<noteq> 0 \<or> y mod 400 = 0)"

definition days_before_year :: "int \<Rightarrow> int" where
  "days_before_year y =
     (let n = y - 1; r = n mod 400
      in 146097 * (n div 400) + 36524 * (r div 100) + 1461 * (r mod 100 div 4) + 365 * (r mod 4))"

definition year_and_day :: "int \<Rightarrow> int \<times> int" where
  "year_and_day d =
     (let a = d div 146097; r = d mod 146097;
          b = r div 36524 - r div 36524 div 4; r2 = r - 36524 * b;
          c = r2 div 1461; r3 = r2 - 1461 * c;
          e = r3 div 365 - r3 div 365 div 4
      in (400 * a + 100 * b + 4 * c + e + 1, r3 - 365 * e))"

definition month_starts :: "bool \<Rightarrow> int list" where
  "month_starts leap =
     (if leap then [0, 31, 60, 91, 121, 152, 182, 213, 244, 274, 305, 335, 366]
      else [0, 31, 59, 90, 120, 151, 181, 212, 243, 273, 304, 334, 365])"

definition days_before_month :: "bool \<Rightarrow> int \<Rightarrow> int" where
  "days_before_month leap m = month_starts leap ! nat (m - 1)"

definition days_in :: "bool \<Rightarrow> int \<Rightarrow> int" where
  "days_in leap m = month_starts leap ! nat m - month_starts leap ! nat (m - 1)"

definition month_and_day :: "bool \<Rightarrow> int \<Rightarrow> int \<times> int" where
  "month_and_day leap yday =
     (let m = int (length (takeWhile (\<lambda>s. s \<le> yday) (month_starts leap)))
      in (m, yday - days_before_month leap m + 1))"

definition epoch_days :: int where
  "epoch_days = 719162"

definition instant :: "int \<Rightarrow> int \<Rightarrow> int \<Rightarrow> int \<Rightarrow> int \<Rightarrow> int \<Rightarrow> int \<Rightarrow> time" where
  "instant year month day hour minute sec nsec =
     (((days_before_year year + days_before_month (is_leap year) month + (day - 1) - epoch_days)
        * 86400 + hour * 3600 + minute * 60 + sec) * 1000000000 + nsec)"

subsection \<open>Printing\<close>

definition pad_digits :: "nat \<Rightarrow> nat \<Rightarrow> string" where
  "pad_digits w n = replicate (w - length (nat_digits n)) (CHR ''0'') @ nat_digits n"

definition append_int :: "nat \<Rightarrow> int \<Rightarrow> string" where
  "append_int w x = (if x < 0 then CHR ''-'' # pad_digits w (nat (- x)) else pad_digits w (nat x))"

definition trim_zeros :: "string \<Rightarrow> string" where
  "trim_zeros s = rev (dropWhile (\<lambda>c. c = CHR ''0'') (rev s))"

definition format_frac :: "int \<Rightarrow> string" where
  "format_frac nsec = (if nsec = 0 then [] else CHR ''.'' # trim_zeros (pad_digits 9 (nat nsec)))"

text \<open>The zone in whole minutes, truncated toward zero as Go's division does.\<close>

definition format_zone :: "int \<Rightarrow> string" where
  "format_zone off =
     (if off = 0 then ''Z''
      else let zone = \<bar>off\<bar> div 60; neg = off < 0 \<and> zone \<noteq> 0
        in (if neg then CHR ''-'' else CHR ''+'') #
           append_int 2 (zone div 60) @ '':'' @ append_int 2 (zone mod 60))"

definition format_rfc3339nano :: "time \<Rightarrow> int \<Rightarrow> string" where
  "format_rfc3339nano t off =
     (let local = t + off * 1000000000;
          secs = local div 1000000000; nsec = local mod 1000000000;
          (year, yday) = year_and_day (secs div 86400 + epoch_days);
          (month, day) = month_and_day (is_leap year) yday;
          sod = secs mod 86400
      in append_int 4 year @ ''-'' @ append_int 2 month @ ''-'' @ append_int 2 day @ ''T'' @
         append_int 2 (sod div 3600) @ '':'' @ append_int 2 (sod mod 3600 div 60) @ '':'' @
         append_int 2 (sod mod 60) @ format_frac nsec @ format_zone off)"

subsection \<open>Parsing\<close>

definition take_digits :: "nat \<Rightarrow> string \<Rightarrow> (int \<times> string) option" where
  "take_digits w s =
     (if w \<le> length s \<and> list_all is_digit (take w s)
      then Some (int (digits_val (take w s)), drop w s) else None)"

text \<open>\<open>getnum\<close>: two digits, or one when the width is not fixed.\<close>

definition getnum :: "bool \<Rightarrow> string \<Rightarrow> (int \<times> string) option" where
  "getnum fixed s =
     (case s of
        [] \<Rightarrow> None
      | c # cs \<Rightarrow>
          if \<not> is_digit c then None
          else (case cs of
                  d # ds \<Rightarrow> if is_digit d then Some (int (digits_val [c, d]), ds)
                             else if fixed then None else Some (int (digit_val c), cs)
                | [] \<Rightarrow> if fixed then None else Some (int (digit_val c), cs)))"

definition skip_lit :: "char \<Rightarrow> string \<Rightarrow> string option" where
  "skip_lit c s = (case s of [] \<Rightarrow> None | d # ds \<Rightarrow> if d = c then Some ds else None)"

definition parse_frac :: "string \<Rightarrow> int \<times> string" where
  "parse_frac s =
     (case s of
        c # d # _ \<Rightarrow>
          if (c = CHR ''.'' \<or> c = CHR '','') \<and> is_digit d
          then (let ds = takeWhile is_digit (tl s); kept = take 9 ds
                in (int (digits_val kept) * 10 ^ (9 - length kept), drop (length ds) (tl s)))
          else (0, s)
      | _ \<Rightarrow> (0, s))"

definition parse_zone :: "string \<Rightarrow> (int \<times> string) option" where
  "parse_zone s =
     (case s of
        [] \<Rightarrow> None
      | c # cs \<Rightarrow>
          if c = CHR ''Z'' then Some (0, cs)
          else if length s < 6 \<or> s ! 3 \<noteq> CHR '':'' then None
          else case (getnum True (take 2 cs), getnum True (take 2 (drop 3 cs))) of
            (Some (hr, _), Some (mm, _)) \<Rightarrow>
              if hr > 24 \<or> mm > 60 then None
              else if c = CHR ''+'' then Some ((hr * 60 + mm) * 60, drop 5 cs)
              else if c = CHR ''-'' then Some (- ((hr * 60 + mm) * 60), drop 5 cs)
              else None
          | _ \<Rightarrow> None)"

definition parse_rfc3339nano :: "string \<Rightarrow> time option" where
  "parse_rfc3339nano s =
     Option.bind (take_digits 4 s) (\<lambda>(year, s).
     Option.bind (skip_lit (CHR ''-'') s) (\<lambda>s.
     Option.bind (getnum True s) (\<lambda>(month, s).
     if month \<le> 0 \<or> 12 < month then None else
     Option.bind (skip_lit (CHR ''-'') s) (\<lambda>s.
     Option.bind (getnum True s) (\<lambda>(day, s).
     Option.bind (skip_lit (CHR ''T'') s) (\<lambda>s.
     Option.bind (getnum False s) (\<lambda>(hour, s).
     if hour \<ge> 24 then None else
     Option.bind (skip_lit (CHR '':'') s) (\<lambda>s.
     Option.bind (getnum True s) (\<lambda>(minute, s).
     if minute \<ge> 60 then None else
     Option.bind (skip_lit (CHR '':'') s) (\<lambda>s.
     Option.bind (getnum True s) (\<lambda>(sec, s).
     if sec \<ge> 60 then None else
     (case parse_frac s of (nsec, s) \<Rightarrow>
     Option.bind (parse_zone s) (\<lambda>(off, s).
     if s \<noteq> [] then None
     else if day < 1 \<or> day > days_in (is_leap year) month then None
     else Some (instant year month day hour minute sec nsec - off * 1000000000))))))))))))))"

section \<open>Lemmas: the calendar\<close>

text \<open>Dividing a cycle into four parts of which the last has one extra day.\<close>

lemma cut_quarter:
  fixes r k :: int
  assumes "0 \<le> r" "0 < k" "r \<le> 4 * k" "3 < k"
  defines "b \<equiv> r div k - r div k div 4"
  shows "0 \<le> b" "b \<le> 3" "0 \<le> r - k * b" "r - k * b < k + 1" "b = 3 \<or> r - k * b < k"
proof -
  define q m where "q = r div k" and "m = r mod k"
  have q: "r = k * q + m" "0 \<le> m" "m < k" using assms by (simp_all add: q_def m_def)
  have "0 \<le> q" using assms by (simp add: q_def pos_imp_zdiv_nonneg_iff)
  moreover have "q \<le> 4"
  proof (rule ccontr)
    assume "\<not> q \<le> 4"
    then have "k * 5 \<le> k * q" using assms(2) by simp
    with q assms show False by linarith
  qed
  ultimately have "q = 0 \<or> q = 1 \<or> q = 2 \<or> q = 3 \<or> q = 4" by linarith
  then show "0 \<le> b" "b \<le> 3" "0 \<le> r - k * b" "r - k * b < k + 1" "b = 3 \<or> r - k * b < k"
    using q assms(2,3) unfolding b_def q_def [symmetric] by (elim disjE; simp)+
qed

lemma year_and_day_correct:
  assumes "year_and_day d = (y, yd)"
  shows "days_before_year y + yd = d" and "0 \<le> yd" and "yd < (if is_leap y then 366 else 365)"
proof -
  define a r where "a = d div 146097" and "r = d mod 146097"
  define b where "b = r div 36524 - r div 36524 div 4"
  define r2 where "r2 = r - 36524 * b"
  define c where "c = r2 div 1461"
  define r3 where "r3 = r2 - 1461 * c"
  define e where "e = r3 div 365 - r3 div 365 div 4"
  have y: "y = 400 * a + 100 * b + 4 * c + e + 1" and yd: "yd = r3 - 365 * e"
    using assms unfolding year_and_day_def Let_def a_def [symmetric] r_def [symmetric]
      b_def [symmetric] r2_def [symmetric] c_def [symmetric] r3_def [symmetric] e_def [symmetric]
    by (metis prod.inject)+
  have d: "d = 146097 * a + r" and r: "0 \<le> r" "r < 146097" by (simp_all add: a_def r_def)
  have "r \<le> 4 * 36524" using r by simp
  note cq = cut_quarter [OF r(1) _ this, folded b_def, folded r2_def, simplified]
  have b: "0 \<le> b" "b \<le> 3" "0 \<le> r2" "r2 < 36525" "b = 3 \<or> r2 < 36524"
    using cq by blast+
  have c: "0 \<le> c" "c \<le> 24" "0 \<le> r3" "r3 < 1461"
    using b div_mult_mod_eq [of r2 1461] pos_mod_bound [of 1461 r2] pos_mod_sign [of 1461 r2]
    unfolding c_def r3_def by linarith+
  have c24: "c = 24 \<longrightarrow> b \<noteq> 3 \<longrightarrow> r3 < 1460" using b c unfolding r3_def by auto
  have "r3 \<le> 4 * 365" using c by simp
  note cq = cut_quarter [OF c(3) _ this, folded e_def, folded yd, simplified]
  have e: "0 \<le> e" "e \<le> 3" "0 \<le> yd" "yd < 366" "e = 3 \<or> yd < 365"
    using cq by blast+
  show "0 \<le> yd" by fact
  define w x where "w = 100 * b + x" and "x = 4 * c + e"
  have w: "0 \<le> w" "w < 400" "0 \<le> x" "x < 100" using b c e by (simp_all add: w_def x_def)
  have "y - 1 = w + a * 400" by (simp add: y w_def x_def)
  with w have n: "(y - 1) div 400 = a" "(y - 1) mod 400 = w" by simp_all
  have "w = x + b * 100" by (simp add: w_def)
  with w have m: "w div 100 = b" "w mod 100 = x" by simp_all
  have "x = e + c * 4" by (simp add: x_def)
  with e have "x div 4 = c" "x mod 4 = e" by simp_all
  moreover have "w mod 4 = x mod 4"
    using mod_mult_self2 [of x 4 "25 * b"] by (simp add: w_def add.commute)
  ultimately have m: "w div 100 = b" "w mod 100 div 4 = c" "w mod 4 = e" using m by simp_all
  show "days_before_year y + yd = d"
    by (simp add: days_before_year_def Let_def n m d yd r3_def r2_def)
  have "is_leap y" if "yd = 365"
  proof -
    from that e have e3: "e = 3" by simp
    with that yd have "r3 = 1460" by simp
    with c24 have "c \<noteq> 24 \<or> b = 3" by auto
    moreover have "y = 4 * (100 * a + 25 * b + c + 1)" using y e3 by simp
    then have "y mod 4 = 0" by simp
    moreover have "y mod 100 \<noteq> 0" if "c \<noteq> 24"
    proof -
      have "y = 4 * (c + 1) + (4 * a + b) * 100" using y e3 by simp
      then have "y mod 100 = 4 * (c + 1) mod 100" by (simp only: mod_mult_self1)
      with that c show ?thesis by simp
    qed
    moreover have "y mod 400 = 0" if "c = 24" "b = 3"
    proof -
      from that y e3 have "y = 400 * (a + 1)" by simp
      then show ?thesis by simp
    qed
    ultimately show ?thesis unfolding is_leap_def by (cases "c = 24") simp_all
  qed
  with e show "yd < (if is_leap y then 366 else 365)" by force
qed

lemma month_and_day_correct:
  assumes "month_and_day leap yd = (m, d)" "0 \<le> yd" "yd < (if leap then 366 else 365)"
  shows "1 \<le> m \<and> m \<le> 12 \<and> 1 \<le> d \<and> d \<le> days_in leap m \<and>
    days_before_month leap m + (d - 1) = yd \<and> d < 100"
  using assms
  by (cases leap)
     (auto simp: month_and_day_def days_before_month_def days_in_def month_starts_def Let_def
       split: if_splits)

section \<open>Lemmas: printing and parsing numbers\<close>

lemma length_nat_digits_le: "n < 10 ^ w \<Longrightarrow> 0 < w \<Longrightarrow> length (nat_digits n) \<le> w"
proof (induction n arbitrary: w rule: nat_digits.induct)
  case (1 n)
  show ?case
  proof (cases "n < 10")
    case True
    with 1 show ?thesis by (simp add: nat_digits.simps [of n])
  next
    case False
    then obtain v where w: "w = Suc v" "0 < v"
      using 1(2,3) by (cases w; cases "w - 1") auto
    with 1(2) have "n div 10 < 10 ^ v" by (simp add: div_less_iff_less_mult mult.commute)
    from 1(1) [OF False this w(2)] False w show ?thesis by (simp add: nat_digits.simps [of n])
  qed
qed

lemma digits_val_zeros: "digits_val (replicate k (CHR ''0'') @ s) = digits_val s"
proof -
  have "digit_val (CHR ''0'') = 0" by (simp add: digit_val_def byte_of_def)
  then have "foldl (\<lambda>n c. n * 10 + digit_val c) 0 (replicate k (CHR ''0'')) = 0" by (induction k) auto
  then show ?thesis by (simp add: digits_val_def)
qed

lemma zero_digit: "is_digit (CHR ''0'')"
  by (simp add: is_digit_def byte_of_def)

lemma pad_digits_simps:
  assumes "n < 10 ^ w" "0 < w"
  shows "length (pad_digits w n) = w" "list_all is_digit (pad_digits w n)"
    "digits_val (pad_digits w n) = n"
  using length_nat_digits_le [OF assms]
  by (auto simp: pad_digits_def digits_val_zeros zero_digit list_all_iff nat_digits_digits [unfolded list_all_iff])

lemma take_digits_pad:
  assumes "n < 10 ^ w" "0 < w"
  shows "take_digits w (pad_digits w n @ rest) = Some (int n, rest)"
  using pad_digits_simps [OF assms] by (simp add: take_digits_def)

lemma getnum_pad:
  assumes "n < 100"
  shows "getnum fixed (pad_digits 2 n @ rest) = Some (int n, rest)"
proof -
  have n: "n < 10 ^ 2" using assms by simp
  obtain c d where cd: "pad_digits 2 n = [c, d]"
    using pad_digits_simps(1) [OF n] by (auto simp: length_Suc_conv numeral_2_eq_2)
  with pad_digits_simps(2,3) [OF n] show ?thesis by (simp add: getnum_def)
qed

lemma append_int_nonneg: "0 \<le> x \<Longrightarrow> append_int w x = pad_digits w (nat x)"
  by (simp add: append_int_def)

lemma getnum_append_int: "0 \<le> x \<Longrightarrow> x < 100 \<Longrightarrow> getnum fixed (append_int 2 x @ rest) = Some (x, rest)"
  using getnum_pad [of "nat x" fixed rest] by (simp add: append_int_nonneg)

lemma take_digits_append_int:
  "0 \<le> x \<Longrightarrow> x < 10000 \<Longrightarrow> take_digits 4 (append_int 4 x @ rest) = Some (x, rest)"
  using take_digits_pad [of "nat x" 4 rest] by (simp add: append_int_nonneg)

lemma skip_lit_Cons [simp]: "skip_lit c (c # s) = Some s"
  by (simp add: skip_lit_def)

subsection \<open>Fractions and zones\<close>

lemma trim_zeros_split: "\<exists>k. s = trim_zeros s @ replicate k (CHR ''0'')"
proof -
  have "rev s = takeWhile (\<lambda>c. c = CHR ''0'') (rev s) @ dropWhile (\<lambda>c. c = CHR ''0'') (rev s)" by simp
  then have "s = rev (dropWhile (\<lambda>c. c = CHR ''0'') (rev s)) @ rev (takeWhile (\<lambda>c. c = CHR ''0'') (rev s))"
    by (metis rev_append rev_rev_ident)
  moreover have "takeWhile (\<lambda>c. c = CHR ''0'') (rev s) =
      replicate (length (takeWhile (\<lambda>c. c = CHR ''0'') (rev s))) (CHR ''0'')"
    by (intro replicate_eqI) (auto dest: set_takeWhileD)
  ultimately show ?thesis unfolding trim_zeros_def by (metis rev_replicate)
qed

lemma digits_val_append_zeros: "digits_val (s @ replicate k (CHR ''0'')) = digits_val s * 10 ^ k"
proof (induction k)
  case (Suc k)
  have "s @ replicate (Suc k) (CHR ''0'') = (s @ replicate k (CHR ''0'')) @ [CHR ''0'']"
    by (simp add: replicate_append_same)
  moreover have "digit_val (CHR ''0'') = 0" by (simp add: digit_val_def byte_of_def)
  ultimately show ?case using Suc by (simp only: digits_val_snoc) simp
qed simp

definition zone_start :: "string \<Rightarrow> bool" where
  "zone_start z \<longleftrightarrow> (\<exists>c r. z = c # r \<and> (c = CHR ''Z'' \<or> c = CHR ''+'' \<or> c = CHR ''-''))"

lemma zone_start_not_digit: "zone_start z \<Longrightarrow> takeWhile is_digit z = [] \<and> (\<forall>d r. z = d # r \<longrightarrow> \<not> is_digit d)"
  by (auto simp: zone_start_def is_digit_def byte_of_def)

lemma parse_format_frac:
  assumes n: "0 \<le> n" "n < 1000000000" and z: "zone_start z"
  shows "parse_frac (format_frac n @ z) = (n, z)"
proof (cases "n = 0")
  case True
  from z obtain c r where "z = c # r" "c \<noteq> CHR ''.''" "c \<noteq> CHR '',''" by (auto simp: zone_start_def)
  with True show ?thesis by (cases r) (auto simp: format_frac_def parse_frac_def)
next
  case False
  let ?s = "pad_digits 9 (nat n)" and ?t = "trim_zeros (pad_digits 9 (nat n))"
  have nn: "nat n < 10 ^ 9" using n by simp
  note pad = pad_digits_simps [OF nn]
  obtain k where k: "?s = ?t @ replicate k (CHR ''0'')" using trim_zeros_split by blast
  then have len: "length ?t + k = 9" using pad(1) by (metis length_append length_replicate zero_less_numeral)
  have dig: "list_all is_digit ?t" using pad(2) k by (metis list_all_append zero_less_numeral)
  have val: "digits_val ?t * 10 ^ k = nat n"
    using pad(3) k digits_val_append_zeros [of ?t k] by (metis zero_less_numeral)
  have ne: "?t \<noteq> []"
  proof
    assume "?t = []"
    with val have "nat n = 0" by (simp add: digits_val_def)
    with False n show False by simp
  qed
  then obtain d r where d: "?t = d # r" by (cases ?t) auto
  have "takeWhile is_digit (?t @ z) = ?t"
    using dig zone_start_not_digit [OF z] by (simp add: takeWhile_append2 list_all_iff)
  moreover have "int (digits_val ?t) * 10 ^ (9 - length ?t) = n"
  proof -
    have "9 - length ?t = k" using len by simp
    then show ?thesis using val n by (metis int_nat_eq of_nat_mult of_nat_numeral of_nat_power)
  qed
  ultimately show ?thesis
    using False dig d len by (auto simp: format_frac_def parse_frac_def Let_def)
qed

lemma format_zone_start: "zone_start (format_zone off)"
  by (simp add: format_zone_def zone_start_def Let_def)

text \<open>A zone that the layout can express: whole minutes, at most a day.\<close>

definition printable_zone :: "int \<Rightarrow> bool" where
  "printable_zone off \<longleftrightarrow> 60 dvd off \<and> \<bar>off\<bar> \<le> 86400"

lemma parse_format_zone:
  assumes "printable_zone off"
  shows "parse_zone (format_zone off) = Some (off, [])"
proof (cases "off = 0")
  case True
  then show ?thesis by (simp add: format_zone_def parse_zone_def)
next
  case False
  define m where "m = \<bar>off\<bar> div 60"
  have m: "\<bar>off\<bar> = 60 * m" "0 < m" "m \<le> 1440"
    using assms False by (auto simp: m_def printable_zone_def dvd_def abs_mult)
  have hm: "0 \<le> m div 60" "m div 60 < 100" "m div 60 \<le> 24" "0 \<le> m mod 60" "m mod 60 < 100" "m mod 60 \<le> 60"
    using m by (auto intro: order.strict_trans [OF pos_mod_bound] order.trans [OF order.strict_implies_order [OF pos_mod_bound]])
  have n1: "nat (m div 60) < 10 ^ 2" and n2: "nat (m mod 60) < 10 ^ 2" using hm by simp_all
  obtain a b where ab: "append_int 2 (m div 60) = [a, b]"
    using pad_digits_simps(1) [OF n1] append_int_nonneg [OF hm(1), of 2]
    by (auto simp: length_Suc_conv numeral_2_eq_2)
  obtain c d where cd: "append_int 2 (m mod 60) = [c, d]"
    using pad_digits_simps(1) [OF n2] append_int_nonneg [OF hm(4), of 2]
    by (auto simp: length_Suc_conv numeral_2_eq_2)
  have g: "getnum True [a, b] = Some (m div 60, [])" "getnum True [c, d] = Some (m mod 60, [])"
    using getnum_append_int [OF hm(1,2), of True "[]"] getnum_append_int [OF hm(4,5), of True "[]"] ab cd
    by simp_all
  have "((m div 60) * 60 + m mod 60) * 60 = \<bar>off\<bar>" using m by simp
  then show ?thesis
    using False m hm g by (auto simp: format_zone_def parse_zone_def Let_def m_def [symmetric] ab cd)
qed

section \<open>The round trip\<close>

text \<open>The local year of a time, which the layout prints with four digits.\<close>

definition local_year :: "time \<Rightarrow> int \<Rightarrow> int" where
  "local_year t off =
     fst (year_and_day ((t + off * 1000000000) div 1000000000 div 86400 + epoch_days))"

definition printable_time :: "time \<Rightarrow> int \<Rightarrow> bool" where
  "printable_time t off \<longleftrightarrow> 0 \<le> local_year t off \<and> local_year t off \<le> 9999 \<and> printable_zone off"

lemma clock_parts:
  fixes n :: int
  assumes "0 \<le> n" "n < 86400"
  shows "0 \<le> n div 3600" "n div 3600 < 24" "0 \<le> n mod 3600 div 60" "n mod 3600 div 60 < 60"
    "0 \<le> n mod 60" "n mod 60 < 60" "n div 3600 * 3600 + n mod 3600 div 60 * 60 + n mod 60 = n"
proof -
  have "n mod 3600 mod 60 = n mod 60" using mod_mod_cancel [of 60 3600 n] by simp
  then show "n div 3600 * 3600 + n mod 3600 div 60 * 60 + n mod 60 = n"
    using div_mult_mod_eq [of n 3600] div_mult_mod_eq [of "n mod 3600" 60] by linarith
qed (use assms pos_mod_bound [of 3600 n] pos_mod_sign [of 3600 n] in auto)

lemma parse_format_rfc3339nano:
  assumes "printable_time t off"
  shows "parse_rfc3339nano (format_rfc3339nano t off) = Some t"
proof -
  define loc where "loc = t + off * 1000000000"
  define secs where "secs = loc div 1000000000"
  define sod where "sod = secs mod 86400"
  obtain y yd where yd: "year_and_day (secs div 86400 + epoch_days) = (y, yd)" by fastforce
  obtain m d where md: "month_and_day (is_leap y) yd = (m, d)" by fastforce
  note Y = year_and_day_correct [OF yd]
  note M = month_and_day_correct [OF md Y(2,3)]
  have y: "0 \<le> y" "y < 10000" and z: "printable_zone off"
    using assms yd by (auto simp: printable_time_def local_year_def loc_def secs_def)
  have sod: "0 \<le> sod" "sod < 86400" by (simp_all add: sod_def)
  note C = clock_parts [OF sod]
  have n: "0 \<le> loc mod 1000000000" "loc mod 1000000000 < 1000000000" by simp_all
  have D: "days_before_year y + days_before_month (is_leap y) m + (d - 1) - epoch_days = secs div 86400"
    using Y(1) M by linarith
  have S: "secs div 86400 * 86400 + sod div 3600 * 3600 + sod mod 3600 div 60 * 60 + sod mod 60 = secs"
    using C(7) div_mult_mod_eq [of secs 86400] unfolding sod_def by linarith
  have inst: "instant y m d (sod div 3600) (sod mod 3600 div 60) (sod mod 60) (loc mod 1000000000) = loc"
    unfolding instant_def D S using div_mult_mod_eq [of loc 1000000000] by (simp only: secs_def)
  have fmt: "format_rfc3339nano t off = append_int 4 y @ ''-'' @ append_int 2 m @ ''-'' @
      append_int 2 d @ ''T'' @ append_int 2 (sod div 3600) @ '':'' @ append_int 2 (sod mod 3600 div 60) @
      '':'' @ append_int 2 (sod mod 60) @ format_frac (loc mod 1000000000) @ format_zone off"
    unfolding format_rfc3339nano_def Let_def loc_def [symmetric] secs_def [symmetric] yd prod.case md
      sod_def [symmetric] ..
  have range: "0 \<le> m" "m < 100" "\<not> m \<le> 0" "\<not> 12 < m" "0 \<le> d" "d < 100" "\<not> d < 1"
      "\<not> days_in (is_leap y) m < d"
    using M by linarith+
  have clk: "sod div 3600 < 100" "\<not> 24 \<le> sod div 3600" "sod mod 3600 div 60 < 100"
      "\<not> 60 \<le> sod mod 3600 div 60" "sod mod 60 < 100" "\<not> 60 \<le> sod mod 60"
    using C by linarith+
  have t: "loc - off * 1000000000 = t" by (simp add: loc_def)
  show ?thesis
    unfolding fmt parse_rfc3339nano_def
    by (simp only: take_digits_append_int [OF y] getnum_append_int [OF range(1,2)]
        getnum_append_int [OF range(5,6)] getnum_append_int [OF C(1) clk(1)]
        getnum_append_int [OF C(3) clk(3)] getnum_append_int [OF C(5) clk(5)]
        bind.bind_lunit prod.case append_Cons append_Nil skip_lit_Cons range clk disj_not1 simp_thms if_False
        parse_format_frac [OF n format_zone_start] parse_format_zone [OF z] inst t)
qed

end
