(* ===== verification/Base64.thy ===== *)
theory Base64
  imports Takuhai_Prelude
begin

text \<open>\<open>base64.RawURLEncoding\<close>: the URL alphabet without padding.\<close>

section \<open>Definitions\<close>

definition b64_alphabet :: string where
  "b64_alphabet = ''ABCDEFGHIJKLMNOPQRSTUVWXYZabcdefghijklmnopqrstuvwxyz0123456789-_''"

definition b64_char :: "nat \<Rightarrow> char" where
  "b64_char n = b64_alphabet ! n"

definition b64_val :: "char \<Rightarrow> nat option" where
  "b64_val c = index_byte b64_alphabet c"

fun b64_encode :: "string \<Rightarrow> string" where
  "b64_encode [] = []"
| "b64_encode [a] = (let x = byte_of a in [b64_char (x div 4), b64_char (x mod 4 * 16)])"
| "b64_encode [a, b] =
     (let x = byte_of a; y = byte_of b
      in [b64_char (x div 4), b64_char (x mod 4 * 16 + y div 16), b64_char (y mod 16 * 4)])"
| "b64_encode (a # b # c # r) =
     (let x = byte_of a; y = byte_of b; z = byte_of c
      in b64_char (x div 4) # b64_char (x mod 4 * 16 + y div 16) #
         b64_char (y mod 16 * 4 + z div 64) # b64_char (z mod 64) # b64_encode r)"

text \<open>
  Decoding skips line breaks, refuses every other foreign character and a single left-over
  digit, and ignores the unused bits of the last digit.
\<close>

fun b64_digits :: "nat list \<Rightarrow> string option" where
  "b64_digits [] = Some []"
| "b64_digits [p] = None"
| "b64_digits [p, q] = Some [char_of (p * 4 + q div 16)]"
| "b64_digits [p, q, u] = Some [char_of (p * 4 + q div 16), char_of (q mod 16 * 16 + u div 4)]"
| "b64_digits (p # q # u # v # r) =
     map_option (\<lambda>s. char_of (p * 4 + q div 16) # char_of (q mod 16 * 16 + u div 4) #
       char_of (u mod 4 * 64 + v) # s) (b64_digits r)"

fun b64_vals :: "string \<Rightarrow> nat list option" where
  "b64_vals [] = Some []"
| "b64_vals (c # r) =
     (case (b64_val c, b64_vals r) of (Some d, Some ds) \<Rightarrow> Some (d # ds) | _ \<Rightarrow> None)"

definition b64_decode :: "string \<Rightarrow> string option" where
  "b64_decode s =
     (case b64_vals (filter (\<lambda>c. c \<noteq> CHR 0x0A \<and> c \<noteq> CHR 0x0D) s) of
        None \<Rightarrow> None
      | Some ds \<Rightarrow> b64_digits ds)"

section \<open>Lemmas\<close>

lemma b64_val_table: "\<forall>n \<in> {..<64}. b64_val (b64_alphabet ! n) = Some n \<and>
    b64_alphabet ! n \<noteq> CHR 0x0A \<and> b64_alphabet ! n \<noteq> CHR 0x0D"
  by code_simp

lemma b64_val_char [simp]: "n < 64 \<Longrightarrow> b64_val (b64_char n) = Some n"
  using b64_val_table by (simp add: b64_char_def)

lemma b64_char_plain [simp]: "n < 64 \<Longrightarrow> b64_char n \<noteq> CHR 0x0A \<and> b64_char n \<noteq> CHR 0x0D"
  using b64_val_table by (simp add: b64_char_def)

text \<open>The digits an encoding is made of.\<close>

fun b64_split :: "string \<Rightarrow> nat list" where
  "b64_split [] = []"
| "b64_split [a] = [byte_of a div 4, byte_of a mod 4 * 16]"
| "b64_split [a, b] =
     [byte_of a div 4, byte_of a mod 4 * 16 + byte_of b div 16, byte_of b mod 16 * 4]"
| "b64_split (a # b # c # r) =
     byte_of a div 4 # (byte_of a mod 4 * 16 + byte_of b div 16) #
     (byte_of b mod 16 * 4 + byte_of c div 64) # byte_of c mod 64 # b64_split r"

lemma b64_parts:
  fixes x y :: nat
  assumes "x < 256" "y < 256"
  shows "x div 4 < 64" "x mod 4 * 16 + y div 16 < 64" "y mod 16 * 4 < 64" "x mod 4 * 16 < 64"
    "y mod 16 * 4 + x div 64 < 64"
  using assms by (simp_all add: less_mult_imp_div_less)

lemma b64_encode_split: "b64_encode s = map b64_char (b64_split s) \<and> (\<forall>d \<in> set (b64_split s). d < 64)"
proof (induction s rule: b64_encode.induct)
  case (2 a)
  then show ?case using b64_parts [of "byte_of a" "byte_of a"] by (simp add: Let_def)
next
  case (3 a b)
  then show ?case using b64_parts [of "byte_of a" "byte_of b"] by (simp add: Let_def)
next
  case (4 a b c r)
  then show ?case
    using b64_parts [of "byte_of a" "byte_of b"] b64_parts [of "byte_of c" "byte_of b"] by (simp add: Let_def)
qed simp

lemma b64_vals_map: "\<forall>d \<in> set ds. d < 64 \<Longrightarrow> b64_vals (map b64_char ds) = Some ds"
  by (induction ds) auto

lemma b64_join:
  fixes x y z :: nat
  assumes "x < 256" "y < 256" "z < 256"
  shows "x div 4 * 4 + (x mod 4 * 16 + y div 16) div 16 = x"
    "(x mod 4 * 16 + y div 16) mod 16 * 16 + (y mod 16 * 4 + z div 64) div 4 = y"
    "(y mod 16 * 4 + z div 64) mod 4 * 64 + z mod 64 = z"
proof -
  have y: "y div 16 < 16" using assms by (simp add: less_mult_imp_div_less)
  have z: "z div 64 < 4" using assms by (simp add: less_mult_imp_div_less)
  show "x div 4 * 4 + (x mod 4 * 16 + y div 16) div 16 = x" using y by simp
  show "(x mod 4 * 16 + y div 16) mod 16 * 16 + (y mod 16 * 4 + z div 64) div 4 = y" using y z by simp
  show "(y mod 16 * 4 + z div 64) mod 4 * 64 + z mod 64 = z" using z by simp
qed

lemma b64_digits_split: "b64_digits (b64_split s) = Some s"
proof (induction s rule: b64_split.induct)
  case (2 a)
  show ?case using b64_join [of "byte_of a" 0 0] by simp
next
  case (3 a b)
  show ?case using b64_join [of "byte_of a" "byte_of b" 0] by simp
next
  case (4 a b c r)
  then show ?case using b64_join [of "byte_of a" "byte_of b" "byte_of c"] by simp
qed simp

lemma b64_decode_encode: "b64_decode (b64_encode s) = Some s"
proof -
  note e = b64_encode_split [of s]
  then have "filter (\<lambda>c. c \<noteq> CHR 0x0A \<and> c \<noteq> CHR 0x0D) (b64_encode s) = b64_encode s"
    by (auto simp: filter_id_conv)
  with e show ?thesis by (simp add: b64_decode_def b64_vals_map b64_digits_split)
qed

end
