(* ===== verification/Json.thy ===== *)
theory Json
  imports Takuhai_Prelude
begin

text \<open>
  The part of \<open>encoding/json\<close> that decides what a document means: the grammar with its
  limits, string literals with their escapes and the treatment of malformed UTF-8, the
  matching of object keys to struct fields, and the printing of strings.
\<close>

section \<open>Definitions\<close>

subsection \<open>UTF-8\<close>

definition is_cont :: "char \<Rightarrow> bool" where
  "is_cont c \<longleftrightarrow> 0x80 \<le> byte_of c \<and> byte_of c \<le> 0xBF"

text \<open>
  \<open>utf8.DecodeRune\<close>: the length of the encoding at the head, 0 for an invalid one. The first
  byte determines the length, some first bytes restrict the second.
\<close>

definition lead_len :: "char \<Rightarrow> nat" where
  "lead_len c =
     (let b = byte_of c in
      if b < 0x80 then 1 else if 0xC2 \<le> b \<and> b \<le> 0xDF then 2
      else if 0xE0 \<le> b \<and> b \<le> 0xEF then 3 else if 0xF0 \<le> b \<and> b \<le> 0xF4 then 4 else 0)"

definition second_ok :: "char \<Rightarrow> char \<Rightarrow> bool" where
  "second_ok c x \<longleftrightarrow>
     (byte_of c = 0xE0 \<longrightarrow> 0xA0 \<le> byte_of x) \<and> (byte_of c = 0xED \<longrightarrow> byte_of x \<le> 0x9F) \<and>
     (byte_of c = 0xF0 \<longrightarrow> 0x90 \<le> byte_of x) \<and> (byte_of c = 0xF4 \<longrightarrow> byte_of x \<le> 0x8F)"

fun utf8_size :: "string \<Rightarrow> nat" where
  "utf8_size [] = 0"
| "utf8_size (c # r) =
     (let n = lead_len c; u = take (n - 1) r
      in if length u = n - 1 \<and> list_all is_cont u \<and> (case u of [] \<Rightarrow> True | x # _ \<Rightarrow> second_ok c x)
         then n else 0)"

definition utf8_encode :: "nat \<Rightarrow> string" where
  "utf8_encode n =
     (if n < 0x80 then [char_of n]
      else if n < 0x800 then [char_of (0xC0 + n div 64), char_of (0x80 + n mod 64)]
      else if n < 0x10000 then
        [char_of (0xE0 + n div 4096), char_of (0x80 + n div 64 mod 64), char_of (0x80 + n mod 64)]
      else [char_of (0xF0 + n div 262144), char_of (0x80 + n div 4096 mod 64),
            char_of (0x80 + n div 64 mod 64), char_of (0x80 + n mod 64)])"

definition rune_error :: nat where
  "rune_error = 0xFFFD"

function utf8_valid :: "string \<Rightarrow> bool" where
  "utf8_valid s = (if s = [] then True
     else if utf8_size s = 0 then False else utf8_valid (drop (utf8_size s) s))"
  by auto
termination by (relation "measure length") auto

declare utf8_valid.simps [simp del]

subsection \<open>String literals\<close>

definition hex_value :: "char \<Rightarrow> nat option" where
  "hex_value c =
     (let b = byte_of c in
      if is_digit c then Some (b - 48)
      else if 97 \<le> b \<and> b \<le> 102 then Some (b - 87)
      else if 65 \<le> b \<and> b \<le> 70 then Some (b - 55)
      else None)"

text \<open>Four hex digits, the payload of a \<open>\u\<close> escape.\<close>

definition getu4 :: "string \<Rightarrow> (nat \<times> string) option" where
  "getu4 s =
     (case s of
        a # b # c # d # r \<Rightarrow>
          (case (hex_value a, hex_value b, hex_value c, hex_value d) of
             (Some p, Some q, Some x, Some y) \<Rightarrow> Some (((p * 16 + q) * 16 + x) * 16 + y, r)
           | _ \<Rightarrow> None)
      | _ \<Rightarrow> None)"

text \<open>A \<open>\u\<close> escape: a high and a low surrogate make one rune, a lone one is replaced.\<close>

definition unicode_escape :: "string \<Rightarrow> (string \<times> string) option" where
  "unicode_escape s =
     (case getu4 s of
        None \<Rightarrow> None
      | Some (u, r) \<Rightarrow>
          if 0xD800 \<le> u \<and> u < 0xE000 then
            (case r of
               x # y # r1 \<Rightarrow>
                 (case (if x = CHR 0x5C \<and> y = CHR ''u'' then getu4 r1 else None) of
                    Some (v, r2) \<Rightarrow>
                      if u < 0xDC00 \<and> 0xDC00 \<le> v \<and> v < 0xE000
                      then Some (utf8_encode ((u - 0xD800) * 1024 + (v - 0xDC00) + 0x10000), r2)
                      else Some (utf8_encode rune_error, r)
                  | None \<Rightarrow> Some (utf8_encode rune_error, r))
             | _ \<Rightarrow> Some (utf8_encode rune_error, r))
          else Some (utf8_encode u, r))"

definition simple_escape :: "char \<Rightarrow> char option" where
  "simple_escape c =
     map_of [(CHR 0x22, CHR 0x22), (CHR 0x5C, CHR 0x5C), (CHR ''/'', CHR ''/''),
       (CHR ''b'', CHR 0x08), (CHR ''f'', CHR 0x0C), (CHR ''n'', CHR 0x0A),
       (CHR ''r'', CHR 0x0D), (CHR ''t'', CHR 0x09)] c"

text \<open>One element of a string literal and what follows it.\<close>

definition json_char :: "string \<Rightarrow> (string \<times> string) option" where
  "json_char s =
     (case s of
        [] \<Rightarrow> None
      | c # r \<Rightarrow>
          if c = CHR 0x5C then
            (case r of
               [] \<Rightarrow> None
             | e # r1 \<Rightarrow>
                 if e = CHR ''u'' then unicode_escape r1
                 else map_option (\<lambda>x. ([x], r1)) (simple_escape e))
          else if byte_of c < 0x20 then None
          else if byte_of c < 0x80 then Some ([c], r)
          else if utf8_size s = 0 then Some (utf8_encode rune_error, r)
          else Some (take (utf8_size s) s, drop (utf8_size s) s))"

lemma getu4_shorter: "getu4 s = Some (u, r) \<Longrightarrow> length r < length s"
  by (auto simp: getu4_def split: list.splits option.splits)

lemma unicode_escape_shorter: "unicode_escape s = Some (u, r) \<Longrightarrow> length r < length s"
  by (auto simp: unicode_escape_def dest!: getu4_shorter split: option.splits list.splits if_splits)

lemma json_char_shorter: "json_char s = Some (u, r) \<Longrightarrow> length r < length s"
  by (auto simp: json_char_def dest!: unicode_escape_shorter split: list.splits if_splits)

text \<open>The rest of a string literal after its opening quote.\<close>

function json_chars :: "string \<Rightarrow> (string \<times> string) option" where
  "json_chars s =
     (case s of
        [] \<Rightarrow> None
      | c # r \<Rightarrow>
          if c = CHR 0x22 then Some ([], r)
          else (case json_char s of
                  None \<Rightarrow> None
                | Some (u, r1) \<Rightarrow>
                    (case json_chars r1 of
                       None \<Rightarrow> None
                     | Some (v, r2) \<Rightarrow> Some (u @ v, r2))))"
  by auto
termination by (relation "measure length") (auto dest: json_char_shorter)

declare json_chars.simps [simp del]

subsection \<open>Documents\<close>

text \<open>A string keeps the text between its quotes beside what it means.\<close>

datatype json =
    JNull
  | JBool bool
  | JNum string
  | JStr string string
  | JArr "json list"
  | JObj "(string \<times> json) list"

definition is_ws :: "char \<Rightarrow> bool" where
  "is_ws c \<longleftrightarrow> c = CHR '' '' \<or> c = CHR 0x09 \<or> c = CHR 0x0A \<or> c = CHR 0x0D"

definition skip_ws :: "string \<Rightarrow> string" where
  "skip_ws s = dropWhile is_ws s"

text \<open>A number literal: sign, integer part, fraction and exponent.\<close>

definition json_digits :: "string \<Rightarrow> (string \<times> string) option" where
  "json_digits s =
     (let ds = takeWhile is_digit s in if ds = [] then None else Some (ds, drop (length ds) s))"

definition num_sign :: "string \<Rightarrow> string \<times> string" where
  "num_sign s = (case s of c # r \<Rightarrow> if c = CHR ''-'' then ([c], r) else ([], s) | [] \<Rightarrow> ([], s))"

definition num_int :: "string \<Rightarrow> (string \<times> string) option" where
  "num_int s = (case s of c # r \<Rightarrow> if c = CHR ''0'' then Some ([c], r) else json_digits s | [] \<Rightarrow> None)"

definition num_frac :: "string \<Rightarrow> (string \<times> string) option" where
  "num_frac s =
     (case s of
        c # r \<Rightarrow> if c = CHR ''.'' then map_option (\<lambda>(ds, r1). (c # ds, r1)) (json_digits r) else Some ([], s)
      | [] \<Rightarrow> Some ([], s))"

definition num_exp :: "string \<Rightarrow> (string \<times> string) option" where
  "num_exp s =
     (case s of
        c # r \<Rightarrow> if c = CHR ''e'' \<or> c = CHR ''E''
          then (case r of
                  x # r1 \<Rightarrow> if x = CHR ''+'' \<or> x = CHR ''-''
                    then map_option (\<lambda>(ds, r2). (c # x # ds, r2)) (json_digits r1)
                    else map_option (\<lambda>(ds, r2). (c # ds, r2)) (json_digits r)
                | [] \<Rightarrow> None)
          else Some ([], s)
      | [] \<Rightarrow> Some ([], s))"

definition json_number :: "string \<Rightarrow> (string \<times> string) option" where
  "json_number s =
     (case num_sign s of (sign, s1) \<Rightarrow>
     (case num_int s1 of None \<Rightarrow> None | Some (ip, s2) \<Rightarrow>
     (case num_frac s2 of None \<Rightarrow> None | Some (fp, s3) \<Rightarrow>
     (case num_exp s3 of None \<Rightarrow> None | Some (ep, s4) \<Rightarrow> Some (sign @ ip @ fp @ ep, s4)))))"

lemmas num_defs = num_sign_def num_int_def num_frac_def num_exp_def

definition json_scalar :: "char \<Rightarrow> string \<Rightarrow> (json \<times> string) option" where
  "json_scalar c r =
     (if c = CHR 0x22 then map_option (\<lambda>(u, r1). (JStr (take (length r - length r1 - 1) r) u, r1)) (json_chars r)
      else if prefix ''true'' (c # r) then Some (JBool True, drop 3 r)
      else if prefix ''false'' (c # r) then Some (JBool False, drop 4 r)
      else if prefix ''null'' (c # r) then Some (JNull, drop 3 r)
      else map_option (\<lambda>(l, r1). (JNum l, r1)) (json_number (c # r)))"

text \<open>
  Values with the limit \<open>d\<close> on nesting. The first argument bounds the recursion; twice the
  length of the text is always enough (\<open>json_fuel\<close> below).
\<close>

fun json_value :: "nat \<Rightarrow> nat \<Rightarrow> string \<Rightarrow> (json \<times> string) option"
and json_elems :: "nat \<Rightarrow> nat \<Rightarrow> string \<Rightarrow> (json list \<times> string) option"
and json_members :: "nat \<Rightarrow> nat \<Rightarrow> string \<Rightarrow> ((string \<times> json) list \<times> string) option" where
  "json_value 0 d s = None"
| "json_value (Suc n) d s =
     (case skip_ws s of
        [] \<Rightarrow> None
      | c # r \<Rightarrow>
          if c = CHR ''{'' then
            (if d = 0 then None
             else case skip_ws r of
               [] \<Rightarrow> None
             | x # r1 \<Rightarrow> if x = CHR ''}'' then Some (JObj [], r1)
                 else map_option (\<lambda>(ms, r2). (JObj ms, r2)) (json_members n (d - 1) r))
          else if c = CHR ''['' then
            (if d = 0 then None
             else case skip_ws r of
               [] \<Rightarrow> None
             | x # r1 \<Rightarrow> if x = CHR '']'' then Some (JArr [], r1)
                 else map_option (\<lambda>(vs, r2). (JArr vs, r2)) (json_elems n (d - 1) r))
          else json_scalar c r)"
| "json_elems 0 d s = None"
| "json_elems (Suc n) d s =
     (case json_value n d s of
        None \<Rightarrow> None
      | Some (v, r) \<Rightarrow>
          (case skip_ws r of
             [] \<Rightarrow> None
           | c # r1 \<Rightarrow>
               if c = CHR '','' then map_option (\<lambda>(vs, r2). (v # vs, r2)) (json_elems n d r1)
               else if c = CHR '']'' then Some ([v], r1)
               else None))"
| "json_members 0 d s = None"
| "json_members (Suc n) d s =
     (case skip_ws s of
        [] \<Rightarrow> None
      | q # r \<Rightarrow>
          if q \<noteq> CHR 0x22 then None
          else case json_chars r of
            None \<Rightarrow> None
          | Some (k, r1) \<Rightarrow>
              (case skip_ws r1 of
                 [] \<Rightarrow> None
               | c # r2 \<Rightarrow>
                   if c \<noteq> CHR '':'' then None
                   else case json_value n d r2 of
                     None \<Rightarrow> None
                   | Some (v, r3) \<Rightarrow>
                       (case skip_ws r3 of
                          [] \<Rightarrow> None
                        | x # r4 \<Rightarrow>
                            if x = CHR '','' then
                              map_option (\<lambda>(ms, r5). ((k, v) # ms, r5)) (json_members n d r4)
                            else if x = CHR ''}'' then Some ([(k, v)], r4)
                            else None)))"

definition json_parse :: "string \<Rightarrow> json option" where
  "json_parse s =
     (case json_value (2 * length s) 10000 s of
        None \<Rightarrow> None
      | Some (v, r) \<Rightarrow> if skip_ws r = [] then Some v else None)"

subsection \<open>Keys and scalars\<close>

text \<open>
  Keys match field names up to case folding; besides the letters, the Kelvin sign folds to K
  and the long s to S.
\<close>

fun json_fold :: "string \<Rightarrow> string" where
  "json_fold [] = []"
| "json_fold (c # r) =
     (if prefix [CHR 0xE2, CHR 0x84, CHR 0xAA] (c # r) then CHR ''K'' # json_fold (drop 2 r)
      else if prefix [CHR 0xC5, CHR 0xBF] (c # r) then CHR ''S'' # json_fold (drop 1 r)
      else char_upper c # json_fold r)"

definition key_is :: "string \<Rightarrow> string \<Rightarrow> bool" where
  "key_is name key \<longleftrightarrow> json_fold key = json_fold name"

text \<open>Storing a value into an \<open>int\<close> or a \<open>string\<close> field: \<open>null\<close> leaves it, a wrong kind fails.\<close>

definition json_int :: "int \<Rightarrow> json \<Rightarrow> int option" where
  "json_int cur v = (case v of JNull \<Rightarrow> Some cur | JNum l \<Rightarrow> atoi l | _ \<Rightarrow> None)"

definition json_string :: "string \<Rightarrow> json \<Rightarrow> string option" where
  "json_string cur v = (case v of JNull \<Rightarrow> Some cur | JStr _ u \<Rightarrow> Some u | _ \<Rightarrow> None)"

text \<open>
  Storing the members of an object one after the other, and \<open>json.Unmarshal\<close> into a struct whose
  fields \<open>store\<close> knows: \<open>null\<close> leaves it as it is.
\<close>

fun json_store :: "('a \<Rightarrow> string \<times> json \<Rightarrow> 'a option) \<Rightarrow> 'a \<Rightarrow> (string \<times> json) list \<Rightarrow> 'a option" where
  "json_store store x [] = Some x"
| "json_store store x (m # ms) = (case store x m of None \<Rightarrow> None | Some x' \<Rightarrow> json_store store x' ms)"

definition json_struct :: "('a \<Rightarrow> string \<times> json \<Rightarrow> 'a option) \<Rightarrow> 'a \<Rightarrow> json \<Rightarrow> 'a option" where
  "json_struct store cur v = (case v of JNull \<Rightarrow> Some cur | JObj ms \<Rightarrow> json_store store cur ms | _ \<Rightarrow> None)"

definition json_unmarshal :: "('a \<Rightarrow> string \<times> json \<Rightarrow> 'a option) \<Rightarrow> 'a \<Rightarrow> string \<Rightarrow> 'a option" where
  "json_unmarshal store zero raw = Option.bind (json_parse raw) (json_struct store zero)"

text \<open>
  Storing into a slice, with the elements behind its length that an earlier value of the same key has
  left: an element is decoded into the one that is there. Storing into a pointer: \<open>null\<close> makes it nil,
  another value goes where it points, to a new zero value if nowhere.
\<close>

fun slice_elems :: "('a \<Rightarrow> json \<Rightarrow> 'a option) \<Rightarrow> 'a \<Rightarrow> 'a list \<Rightarrow> nat \<Rightarrow> json list \<Rightarrow> 'a list option" where
  "slice_elems dec zero elems i [] = Some elems"
| "slice_elems dec zero elems i (v # vs) =
     (case dec (if i < length elems then elems ! i else zero) v of
        None \<Rightarrow> None
      | Some x \<Rightarrow> slice_elems dec zero (if i < length elems then elems[i := x] else elems @ [x]) (Suc i) vs)"

definition json_slice :: "('a \<Rightarrow> json \<Rightarrow> 'a option) \<Rightarrow> 'a \<Rightarrow> 'a list \<times> nat \<Rightarrow> json \<Rightarrow> ('a list \<times> nat) option" where
  "json_slice dec zero cur v =
     (case v of
        JNull \<Rightarrow> Some ([], 0)
      | JArr vs \<Rightarrow> if vs = [] then Some ([], 0)
                   else map_option (\<lambda>elems. (elems, length vs)) (slice_elems dec zero (fst cur) 0 vs)
      | _ \<Rightarrow> None)"

definition json_ptr :: "('a \<Rightarrow> json \<Rightarrow> 'a option) \<Rightarrow> 'a \<Rightarrow> 'a option \<Rightarrow> json \<Rightarrow> 'a option option" where
  "json_ptr dec zero cur v =
     (case v of JNull \<Rightarrow> Some None | _ \<Rightarrow> map_option Some (dec (case cur of None \<Rightarrow> zero | Some x \<Rightarrow> x) v))"

text \<open>\<open>Decoder.Decode\<close>: the first value of a text, whatever follows it.\<close>

definition json_decode :: "string \<Rightarrow> json option" where
  "json_decode s = map_option fst (json_value (2 * length s) 10000 s)"

subsection \<open>Printing strings\<close>

definition hex_digit :: "nat \<Rightarrow> char" where
  "hex_digit n = (if n < 10 then char_of (48 + n) else char_of (87 + n))"

definition escape_short :: "char \<Rightarrow> char option" where
  "escape_short c =
     map_of [(CHR 0x22, CHR 0x22), (CHR 0x5C, CHR 0x5C), (CHR 0x08, CHR ''b''), (CHR 0x0C, CHR ''f''),
       (CHR 0x0A, CHR ''n''), (CHR 0x0D, CHR ''r''), (CHR 0x09, CHR ''t'')] c"

definition escape_ascii :: "char \<Rightarrow> string" where
  "escape_ascii c =
     (case escape_short c of
        Some e \<Rightarrow> [CHR 0x5C, e]
      | None \<Rightarrow>
          if byte_of c < 0x20 \<or> c = CHR ''<'' \<or> c = CHR ''>'' \<or> c = CHR ''&''
          then [CHR 0x5C, CHR ''u'', CHR ''0'', CHR ''0'',
                hex_digit (byte_of c div 16), hex_digit (byte_of c mod 16)]
          else [c])"

function json_escape :: "string \<Rightarrow> string" where
  "json_escape s =
     (case s of
        [] \<Rightarrow> []
      | c # r \<Rightarrow>
          if byte_of c < 0x80 then escape_ascii c @ json_escape r
          else if utf8_size s = 0 then CHR 0x5C # ''ufffd'' @ json_escape r
          else if prefix [CHR 0xE2, CHR 0x80, CHR 0xA8] s then CHR 0x5C # ''u2028'' @ json_escape (drop 3 s)
          else if prefix [CHR 0xE2, CHR 0x80, CHR 0xA9] s then CHR 0x5C # ''u2029'' @ json_escape (drop 3 s)
          else take (utf8_size s) s @ json_escape (drop (utf8_size s) s))"
  by auto
termination by (relation "measure length") auto

declare json_escape.simps [simp del] utf8_size.simps(2) [simp del]

definition json_quote :: "string \<Rightarrow> string" where
  "json_quote s = CHR 0x22 # json_escape s @ [CHR 0x22]"

section \<open>Lemmas: keys and slices\<close>

named_theorems json_keys "the names of members, folded"

lemma utf8_valid_ascii: "list_all (\<lambda>c. byte_of c < 0x80) s \<Longrightarrow> utf8_valid s"
proof (induction s)
  case (Cons c s)
  have "utf8_size (c # s) = 1" using Cons(2) by (simp add: utf8_size.simps lead_len_def)
  with Cons show ?case by (subst utf8_valid.simps) simp
qed (simp add: utf8_valid.simps)


lemma slice_elems_map:
  assumes "\<forall>x \<in> set xs. dec zero (f x) = Some x"
  shows "slice_elems dec zero ys (length ys) (map f xs) = Some (ys @ xs)"
  using assms
proof (induction xs arbitrary: ys)
  case (Cons x xs)
  from Cons(1) [of "ys @ [x]"] Cons(2) show ?case by simp
qed simp

lemma json_slice_map:
  assumes "\<forall>x \<in> set xs. dec zero (f x) = Some x"
  shows "json_slice dec zero ([], n) (JArr (map f xs)) = Some (xs, length xs)"
  using slice_elems_map [of xs dec zero f "[]"] assms by (simp add: json_slice_def)

section \<open>Lemmas: strings\<close>

lemma hex_value_digit: "n < 16 \<Longrightarrow> hex_value (hex_digit n) = Some n"
  by (auto simp: hex_value_def hex_digit_def is_digit_def Let_def)

lemma hex_value_zero [simp]: "hex_value (CHR ''0'') = Some 0"
  by (simp add: hex_value_def is_digit_def byte_of_def)

lemma getu4_ascii:
  "n < 256 \<Longrightarrow> getu4 (CHR ''0'' # CHR ''0'' # hex_digit (n div 16) # hex_digit (n mod 16) # r) = Some (n, r)"
  by (simp add: getu4_def hex_value_digit)

lemma escape_short_simple: "escape_short c = Some e \<Longrightarrow> simple_escape e = Some c \<and> e \<noteq> CHR ''u''"
  by (auto simp: escape_short_def simple_escape_def split: if_splits)

lemma escape_short_backslash: "escape_short (CHR 0x5C) \<noteq> None" "escape_short (CHR 0x22) \<noteq> None"
  by (simp_all add: escape_short_def)

lemma json_char_ascii:
  assumes "byte_of c < 0x80"
  shows "json_char (escape_ascii c @ r) = Some ([c], r)"
proof (cases "escape_short c")
  case None
  then have "c \<noteq> CHR 0x5C" using escape_short_backslash by auto
  with None assms show ?thesis
    by (auto simp: escape_ascii_def json_char_def unicode_escape_def getu4_ascii utf8_encode_def)
next
  case (Some e)
  with escape_short_simple [OF Some] show ?thesis by (simp add: escape_ascii_def json_char_def)
qed

lemma escape_ascii_head: "\<exists>x r. escape_ascii c = x # r \<and> x \<noteq> CHR 0x22"
  using escape_short_backslash(2) by (cases "escape_short c") (auto simp: escape_ascii_def)

lemma lead_len_le: "lead_len c \<le> 4"
  by (simp add: lead_len_def Let_def)

lemma utf8_size_cases: "utf8_size (c # r) = 0 \<or> utf8_size (c # r) = lead_len c"
  by (simp add: utf8_size.simps Let_def)

lemma utf8_size_le: "utf8_size s \<le> length s"
  by (cases s) (auto simp: utf8_size.simps Let_def)

lemma utf8_size_take:
  assumes "utf8_size s \<noteq> 0"
  shows "utf8_size (take (utf8_size s) s @ t) = utf8_size s"
proof (cases s)
  case (Cons c r)
  with assms have n: "utf8_size s = lead_len c" "length (take (lead_len c - 1) r) = lead_len c - 1"
    "list_all is_cont (take (lead_len c - 1) r)"
    "case take (lead_len c - 1) r of [] \<Rightarrow> True | x # _ \<Rightarrow> second_ok c x" "lead_len c \<noteq> 0"
    by (auto simp: utf8_size.simps Let_def split: if_splits)
  then have "take (lead_len c - 1) (take (lead_len c - 1) r @ t) = take (lead_len c - 1) r" by simp
  moreover have "take (lead_len c) (c # r) = c # take (lead_len c - 1) r"
    using n(5) by (cases "lead_len c") auto
  ultimately show ?thesis using n Cons by (simp add: utf8_size.simps Let_def del: take_append)
qed (use assms in simp)

lemma json_char_multi:
  assumes "s = c # r" "\<not> byte_of c < 0x80" "utf8_size s \<noteq> 0"
  shows "json_char (take (utf8_size s) s @ t) = Some (take (utf8_size s) s, t)"
proof -
  let ?u = "take (utf8_size s) s"
  have len: "length ?u = utf8_size s" using utf8_size_le [of s] by simp
  from assms obtain r' where u: "?u = c # r'" by (cases "utf8_size s") auto
  have sz: "utf8_size (?u @ t) = length ?u" using utf8_size_take [OF assms(3), of t] len by simp
  then have "take (utf8_size (?u @ t)) (?u @ t) = ?u" "drop (utf8_size (?u @ t)) (?u @ t) = t"
    "utf8_size (?u @ t) \<noteq> 0" using assms(3) len by simp_all
  moreover have "c \<noteq> CHR 0x5C" "\<not> byte_of c < 0x20" using assms(2) by (auto simp: byte_of_def)
  ultimately show ?thesis
    using assms(2) unfolding u append_Cons by (simp add: json_char_def)
qed

lemma utf8_validD:
  "utf8_valid s \<Longrightarrow> s = c # r \<Longrightarrow> utf8_size s \<noteq> 0 \<and> utf8_valid (drop (utf8_size s) s)"
  by (subst (asm) utf8_valid.simps) (auto split: if_splits)

lemma utf8_size_ascii [simp]: "byte_of c < 0x80 \<Longrightarrow> utf8_size (c # r) = 1"
  by (simp add: utf8_size.simps lead_len_def)

text \<open>A printed string reads back as itself when it is valid UTF-8.\<close>

lemma json_chars_step:
  "x \<noteq> CHR 0x22 \<Longrightarrow> json_char (x # s) = Some (u, r) \<Longrightarrow>
   json_chars (x # s) = map_option (\<lambda>(v, r2). (u @ v, r2)) (json_chars r)"
  by (subst json_chars.simps) (auto split: option.splits)

lemma char_of_byte: "byte_of c = n \<Longrightarrow> char_of n = c"
  by (metis char_of_byte_of)

lemma separators:
  "utf8_encode 8232 = [CHR 0xE2, CHR 0x80, CHR 0xA8]" "utf8_encode 8233 = [CHR 0xE2, CHR 0x80, CHR 0xA9]"
  by (simp_all add: utf8_encode_def char_of_byte byte_of_def)

lemma json_chars_escape:
  "utf8_valid s \<Longrightarrow> json_chars (json_escape s @ CHR 0x22 # t) = Some (s, t)"
proof (induction s rule: json_escape.induct)
  case (1 s)
  show ?case
  proof (cases s)
    case Nil
    then show ?thesis by (simp add: json_escape.simps json_chars.simps)
  next
    case (Cons c r)
    note v = utf8_validD [OF 1(6) Cons]
    have multi: "json_chars (w @ json_escape (drop k s) @ CHR 0x22 # t) = Some (s, t)"
      if "\<exists>x w'. w = x # w' \<and> x \<noteq> CHR 0x22" "\<And>t. json_char (w @ t) = Some (take k s, t)"
        "json_chars (json_escape (drop k s) @ CHR 0x22 # t) = Some (drop k s, t)" for w k
      using that by (auto simp: json_chars_step)
    show ?thesis
    proof (cases "byte_of c < 0x80")
      case True
      with v Cons have "utf8_valid r" by simp
      with 1(1) [OF Cons True] show ?thesis
        using multi [of "escape_ascii c" 1] escape_ascii_head [of c] json_char_ascii [OF True] True Cons
        by (simp add: json_escape.simps [of "c # r"])
    next
      case False
      show ?thesis
      proof (cases "\<exists>b. b \<in> {CHR 0xA8, CHR 0xA9} \<and> prefix [CHR 0xE2, CHR 0x80, b] s")
        case True
        then obtain b r3 where b: "b = CHR 0xA8 \<or> b = CHR 0xA9" "s = CHR 0xE2 # CHR 0x80 # b # r3"
          by (auto simp: prefix_def)
        then have sz: "utf8_size s = 3" by (auto simp: utf8_size.simps lead_len_def second_ok_def is_cont_def byte_of_def)
        have esc: "json_escape s = CHR 0x5C # ''u202'' @ [if b = CHR 0xA8 then CHR ''8'' else CHR ''9''] @ json_escape (drop 3 s)"
          using b(1) False Cons sz unfolding b(2)
          by (subst json_escape.simps) auto
        have ih: "json_chars (json_escape (drop 3 s) @ CHR 0x22 # t) = Some (drop 3 s, t)"
          using b 1(3) [OF Cons False] 1(4) [OF Cons False] v sz Cons by auto
        have jc: "json_char ((CHR 0x5C # ''u202'' @ [if b = CHR 0xA8 then CHR ''8'' else CHR ''9'']) @ t') = Some (take 3 s, t')" for t'
          using b separators
          by (auto simp: json_char_def unicode_escape_def getu4_def hex_value_def is_digit_def byte_of_def)
        show ?thesis using multi [OF _ jc ih] esc by simp
      next
        case False2: False
        then have np: "\<not> prefix [CHR 0xE2, CHR 0x80, CHR 0xA8] s" "\<not> prefix [CHR 0xE2, CHR 0x80, CHR 0xA9] s"
          by auto
        have ih: "json_chars (json_escape (drop (utf8_size s) s) @ CHR 0x22 # t) = Some (drop (utf8_size s) s, t)"
          using 1(5) [OF Cons False _ np] v by blast
        have "\<exists>x w'. take (utf8_size s) s = x # w' \<and> x \<noteq> CHR 0x22"
          using v False Cons by (cases "utf8_size s") (auto simp: byte_of_def)
        with multi [OF this json_char_multi [OF Cons False] ih] v show ?thesis
          using False np Cons by (auto simp: json_escape.simps [of "c # r"])
      qed
    qed
  qed
qed

section \<open>Lemmas: the bound on the recursion\<close>

lemma json_chars_shorter: "json_chars s = Some (u, r) \<Longrightarrow> length r < length s"
proof (induction s arbitrary: u rule: json_chars.induct)
  case (1 s)
  from 1(2) obtain c r0 where s: "s = c # r0" by (subst (asm) json_chars.simps) (auto split: list.splits)
  show ?case
  proof (cases "c = CHR 0x22")
    case True
    with 1(2) s show ?thesis by (subst (asm) json_chars.simps) simp
  next
    case False
    with 1(2) s obtain w r1 w' where w: "json_char s = Some (w, r1)" "json_chars r1 = Some (w', r)"
      by (subst (asm) json_chars.simps) (auto split: option.splits)
    from 1(1) [OF s False w(1) refl w(2)] json_char_shorter [OF w(1)] show ?thesis by simp
  qed
qed

lemma skip_ws_le: "length (skip_ws s) \<le> length s"
  by (simp add: skip_ws_def length_dropWhile_le)

lemma skip_ws_Cons: "skip_ws s = c # r \<Longrightarrow> length r < length s"
  using skip_ws_le [of s] by simp

lemma json_digits_shorter: "json_digits s = Some (u, r) \<Longrightarrow> length r < length s"
  by (cases s) (auto simp: json_digits_def Let_def split: if_splits)

lemma json_number_shorter: "json_number s = Some (u, r) \<Longrightarrow> length r < length s"
  by (auto simp: json_number_def num_defs dest!: json_digits_shorter split: list.splits if_splits option.splits prod.splits)

lemma json_scalar_shorter: "json_scalar c r = Some (v, r1) \<Longrightarrow> length r1 \<le> length r"
  using json_chars_shorter json_number_shorter
  by (fastforce simp: json_scalar_def split: if_splits)

text \<open>The ways an element list and a member list can be read.\<close>

lemma json_elemsE:
  assumes "json_elems (Suc n) d s = Some (vs, r)"
  obtains (last) v r0 where "json_value n d s = Some (v, r0)" "skip_ws r0 = CHR '']'' # r" "vs = [v]"
    | (more) v r0 r1 ws where "json_value n d s = Some (v, r0)" "skip_ws r0 = CHR '','' # r1"
        "json_elems n d r1 = Some (ws, r)" "vs = v # ws"
  using assms by (auto split: option.splits list.splits if_splits)

lemma json_membersE:
  assumes "json_members (Suc n) d s = Some (ms, r)"
  obtains (last) r0 k r1 r2 v r3 where "skip_ws s = CHR 0x22 # r0" "json_chars r0 = Some (k, r1)"
      "skip_ws r1 = CHR '':'' # r2" "json_value n d r2 = Some (v, r3)" "skip_ws r3 = CHR ''}'' # r"
      "ms = [(k, v)]"
    | (more) r0 k r1 r2 v r3 r4 ns where "skip_ws s = CHR 0x22 # r0" "json_chars r0 = Some (k, r1)"
      "skip_ws r1 = CHR '':'' # r2" "json_value n d r2 = Some (v, r3)" "skip_ws r3 = CHR '','' # r4"
      "json_members n d r4 = Some (ns, r)" "ms = (k, v) # ns"
  using assms by (auto split: option.splits list.splits if_splits)

lemma json_valueE:
  assumes "json_value (Suc n) d s = Some (v, r)"
  obtains (object) d' r0 ms x r1 where "d = Suc d'" "skip_ws s = CHR ''{'' # r0"
      "json_members n d' r0 = Some (ms, r)" "v = JObj ms" "skip_ws r0 = x # r1" "x \<noteq> CHR ''}''"
    | (array) d' r0 vs x r1 where "d = Suc d'" "skip_ws s = CHR ''['' # r0"
      "json_elems n d' r0 = Some (vs, r)" "v = JArr vs" "skip_ws r0 = x # r1" "x \<noteq> CHR '']''"
    | (scalar) "length r < length s" "\<And>m. json_value (Suc m) d s = Some (v, r)"
proof -
  from assms obtain c r0 where c: "skip_ws s = c # r0" by (auto split: list.splits)
  note len = skip_ws_Cons [OF c]
  consider "c = CHR ''{''" | "c = CHR ''[''" | "c \<noteq> CHR ''{''" "c \<noteq> CHR ''[''" by blast
  then show thesis
  proof cases
    case 1
    with assms c obtain d' x r1 where x: "d = Suc d'" "skip_ws r0 = x # r1"
      by (cases d) (auto split: list.splits)
    show thesis
    proof (cases "x = CHR ''}''")
      case True
      with assms c 1 x skip_ws_Cons [OF x(2)] len show thesis by (intro scalar) auto
    next
      case False
      with assms c 1 x obtain ms where "json_members n d' r0 = Some (ms, r)" "v = JObj ms" by auto
      with False c 1 x show thesis by (intro object [of d' r0 ms]) auto
    qed
  next
    case 2
    with assms c obtain d' x r1 where x: "d = Suc d'" "skip_ws r0 = x # r1"
      by (cases d) (auto split: list.splits)
    show thesis
    proof (cases "x = CHR '']''")
      case True
      with assms c 2 x skip_ws_Cons [OF x(2)] len show thesis by (intro scalar) auto
    next
      case False
      with assms c 2 x obtain vs where "json_elems n d' r0 = Some (vs, r)" "v = JArr vs" by auto
      with False c 2 x show thesis by (intro array [of d' r0 vs]) auto
    qed
  next
    case 3
    with assms c have v: "json_scalar c r0 = Some (v, r)" by simp
    show thesis
      by (rule scalar) (use 3 c v len json_scalar_shorter [OF v] in simp_all)
  qed
qed

lemma json_shorter:
  "json_value n d s = Some (v, r) \<Longrightarrow> length r < length s"
  "json_elems n d s = Some (vs, r) \<Longrightarrow> length r < length s"
  "json_members n d s = Some (ms, r) \<Longrightarrow> length r < length s"
proof (induction n arbitrary: d s v vs ms r)
  case (Suc n)
  {
    case 1
    then show ?case
      by (cases rule: json_valueE) (auto dest!: Suc.IH skip_ws_Cons)
  next
    case 2
    then show ?case
      by (cases rule: json_elemsE) (auto dest!: Suc.IH skip_ws_Cons)
  next
    case 3
    then show ?case
      by (cases rule: json_membersE) (auto dest!: Suc.IH skip_ws_Cons json_chars_shorter)
  }
qed simp_all

text \<open>More fuel changes no result, and twice the text consumed is enough.\<close>

lemma json_fuel_mono:
  "json_value n d s = Some (v, r) \<Longrightarrow> n \<le> m \<Longrightarrow> json_value m d s = Some (v, r)"
  "json_elems n d s = Some (vs, r) \<Longrightarrow> n \<le> m \<Longrightarrow> json_elems m d s = Some (vs, r)"
  "json_members n d s = Some (ms, r) \<Longrightarrow> n \<le> m \<Longrightarrow> json_members m d s = Some (ms, r)"
proof (induction n arbitrary: m d s v vs ms r)
  case (Suc n)
  {
    case 1
    then obtain m' where m: "m = Suc m'" "n \<le> m'" by (cases m) auto
    from 1(1) show ?case
    proof (cases rule: json_valueE)
      case (object d' r0 ms)
      with Suc.IH(3) [OF object(3) m(2)] show ?thesis by (simp add: m)
    next
      case (array d' r0 vs)
      with Suc.IH(2) [OF array(3) m(2)] show ?thesis by (simp add: m)
    qed (simp add: m)
  next
    case 2
    then obtain m' where m: "m = Suc m'" "n \<le> m'" by (cases m) auto
    from 2(1) show ?case
      by (cases rule: json_elemsE) (auto simp: m dest!: Suc.IH(1) [OF _ m(2)] Suc.IH(2) [OF _ m(2)])
  next
    case 3
    then obtain m' where m: "m = Suc m'" "n \<le> m'" by (cases m) auto
    from 3(1) show ?case
      by (cases rule: json_membersE) (auto simp: m dest!: Suc.IH(1) [OF _ m(2)] Suc.IH(3) [OF _ m(2)])
  }
qed simp_all

lemma json_fuel_enough:
  "json_value n d s = Some (v, r) \<Longrightarrow> json_value (2 * (length s - length r)) d s = Some (v, r)"
  "json_elems n d s = Some (vs, r) \<Longrightarrow> json_elems (2 * (length s - length r)) d s = Some (vs, r)"
  "json_members n d s = Some (ms, r) \<Longrightarrow> json_members (2 * (length s - length r)) d s = Some (ms, r)"
proof (induction n arbitrary: d s v vs ms r)
  case (Suc n)
  {
    case 1
    note len = json_shorter(1) [OF 1]
    define m where "m = 2 * (length s - length r) - 1"
    have m: "2 * (length s - length r) = Suc m" using len by (simp add: m_def)
    from 1 show ?case
    proof (cases rule: json_valueE)
      case (object d' r0 ms x r1)
      have "2 * (length r0 - length r) \<le> m"
        using skip_ws_Cons [OF object(2)] json_shorter(3) [OF object(3)] by (simp add: m_def)
      from json_fuel_mono(3) [OF Suc.IH(3) [OF object(3)] this] object show ?thesis by (simp add: m)
    next
      case (array d' r0 vs x r1)
      have "2 * (length r0 - length r) \<le> m"
        using skip_ws_Cons [OF array(2)] json_shorter(2) [OF array(3)] by (simp add: m_def)
      from json_fuel_mono(2) [OF Suc.IH(2) [OF array(3)] this] array show ?thesis by (simp add: m)
    qed (simp add: m)
  next
    case 2
    note len = json_shorter(2) [OF 2]
    define m where "m = 2 * (length s - length r) - 1"
    have m: "2 * (length s - length r) = Suc m" using len by (simp add: m_def)
    from 2 show ?case
    proof (cases rule: json_elemsE)
      case (last v r0)
      have "2 * (length s - length r0) \<le> m"
        using skip_ws_Cons [OF last(2)] json_shorter(1) [OF last(1)] by (simp add: m_def)
      from json_fuel_mono(1) [OF Suc.IH(1) [OF last(1)] this] last show ?thesis by (simp add: m)
    next
      case (more v r0 r1 ws)
      note l = skip_ws_Cons [OF more(2)] json_shorter(1) [OF more(1)] json_shorter(2) [OF more(3)]
      from l have "2 * (length s - length r0) \<le> m" "2 * (length r1 - length r) \<le> m" by (simp_all add: m_def)
      from json_fuel_mono(1) [OF Suc.IH(1) [OF more(1)] this(1)]
        json_fuel_mono(2) [OF Suc.IH(2) [OF more(3)] this(2)] more show ?thesis by (simp add: m)
    qed
  next
    case 3
    note len = json_shorter(3) [OF 3]
    define m where "m = 2 * (length s - length r) - 1"
    have m: "2 * (length s - length r) = Suc m" using len by (simp add: m_def)
    from 3 show ?case
    proof (cases rule: json_membersE)
      case (last r0 k r1 r2 v r3)
      note l = skip_ws_Cons [OF last(1)] json_chars_shorter [OF last(2)] skip_ws_Cons [OF last(3)]
        json_shorter(1) [OF last(4)] skip_ws_Cons [OF last(5)]
      from l have "2 * (length r2 - length r3) \<le> m" by (simp add: m_def)
      from json_fuel_mono(1) [OF Suc.IH(1) [OF last(4)] this] last show ?thesis by (simp add: m)
    next
      case (more r0 k r1 r2 v r3 r4 ns)
      note l = skip_ws_Cons [OF more(1)] json_chars_shorter [OF more(2)] skip_ws_Cons [OF more(3)]
        json_shorter(1) [OF more(4)] skip_ws_Cons [OF more(5)] json_shorter(3) [OF more(6)]
      from l have "2 * (length r2 - length r3) \<le> m" "2 * (length r4 - length r) \<le> m" by (simp_all add: m_def)
      from json_fuel_mono(1) [OF Suc.IH(1) [OF more(4)] this(1)]
        json_fuel_mono(3) [OF Suc.IH(3) [OF more(6)] this(2)] more show ?thesis by (simp add: m)
    qed
  }
qed simp_all

text \<open>So the parser accepts a document exactly when some bound on the recursion does.\<close>

lemma json_fuel:
  "json_parse s = Some v \<longleftrightarrow> (\<exists>n r. json_value n 10000 s = Some (v, r) \<and> skip_ws r = [])"
proof
  assume "\<exists>n r. json_value n 10000 s = Some (v, r) \<and> skip_ws r = []"
  then obtain n r where nr: "json_value n 10000 s = Some (v, r)" "skip_ws r = []" by blast
  from json_fuel_mono(1) [OF json_fuel_enough(1) [OF nr(1)], of "2 * length s"] nr(2)
  show "json_parse s = Some v" by (simp add: json_parse_def)
next
  assume "json_parse s = Some v"
  then show "\<exists>n r. json_value n 10000 s = Some (v, r) \<and> skip_ws r = []"
    by (intro exI [of _ "2 * length s"]) (auto simp: json_parse_def split: option.splits if_splits)
qed

text \<open>A quoted string is read back.\<close>

lemma skip_ws_solid [simp]: "\<not> is_ws c \<Longrightarrow> skip_ws (c # r) = c # r"
  by (simp add: skip_ws_def)

lemma json_value_quote:
  "utf8_valid s \<Longrightarrow> json_value (Suc n) d (json_quote s @ r) = Some (JStr (json_escape s) s, r)"
  by (simp add: json_quote_def is_ws_def json_scalar_def json_chars_escape)

end
