(* ===== verification/Json_Print.thy ===== *)
theory Json_Print
  imports Json
begin

text \<open>
  Printing JSON documents the way \<open>json.Marshal\<close> lays them out, without white space, and that
  what is printed is read back.
\<close>

section \<open>Definitions\<close>

fun commas :: "string list \<Rightarrow> string" where
  "commas [] = []"
| "commas [s] = s"
| "commas (s # t # ts) = s @ '','' @ commas (t # ts)"

fun json_print :: "json \<Rightarrow> string" where
  "json_print JNull = ''null''"
| "json_print (JBool b) = (if b then ''true'' else ''false'')"
| "json_print (JNum l) = l"
| "json_print (JStr raw u) = CHR 0x22 # raw @ [CHR 0x22]"
| "json_print (JArr vs) = ''['' @ commas (map json_print vs) @ '']''"
| "json_print (JObj ms) = ''{'' @ commas (map (\<lambda>(k, v). json_quote k @ '':'' @ json_print v) ms) @ ''}''"

abbreviation json_str :: "string \<Rightarrow> json" where
  "json_str u \<equiv> JStr (json_escape u) u"

abbreviation json_integer :: "int \<Rightarrow> json" where
  "json_integer i \<equiv> JNum (itoa i)"

text \<open>A number as JSON writes it.\<close>

definition json_literal :: "string \<Rightarrow> bool" where
  "json_literal l \<longleftrightarrow> json_number l = Some (l, [])"

text \<open>The documents that can be printed, and how deep they are nested.\<close>

fun json_ok :: "json \<Rightarrow> bool" where
  "json_ok JNull \<longleftrightarrow> True"
| "json_ok (JBool b) \<longleftrightarrow> True"
| "json_ok (JNum l) \<longleftrightarrow> json_literal l"
| "json_ok (JStr raw u) \<longleftrightarrow> raw = json_escape u \<and> utf8_valid u"
| "json_ok (JArr vs) \<longleftrightarrow> list_all json_ok vs"
| "json_ok (JObj ms) \<longleftrightarrow> list_all (\<lambda>(k, v). utf8_valid k \<and> json_ok v) ms"

fun json_depth :: "json \<Rightarrow> nat" where
  "json_depth (JArr vs) = Suc (fold max (map json_depth vs) 0)"
| "json_depth (JObj ms) = Suc (fold max (map (\<lambda>(k, v). json_depth v) ms) 0)"
| "json_depth v = 0"

section \<open>Lemmas\<close>

text \<open>What may follow a value: nothing, or a character no number goes on with.\<close>

definition delimited :: "string \<Rightarrow> bool" where
  "delimited r \<longleftrightarrow> (case r of [] \<Rightarrow> True | c # _ \<Rightarrow> c \<in> set '',}]'' \<or> c = CHR 0x0A)"

lemma delimited_simps [simp]:
  "delimited []" "delimited (CHR '','' # r)" "delimited (CHR ''}'' # r)" "delimited (CHR '']'' # r)"
  "delimited (CHR 0x0A # r)"
  by (simp_all add: delimited_def)

lemma delimited_no_digit: "delimited r \<Longrightarrow> takeWhile is_digit r = [] \<and>
    (\<forall>c t. r = c # t \<longrightarrow> \<not> is_digit c \<and> c \<noteq> CHR ''.'' \<and> c \<noteq> CHR ''e'' \<and> c \<noteq> CHR ''E'')"
  by (auto simp: delimited_def is_digit_def byte_of_def split: list.splits)

lemma digit_char_zero: "digit_char 0 = CHR ''0''"
  by code_simp

lemma nat_digits_zero: "hd (nat_digits n) = CHR ''0'' \<Longrightarrow> n = 0"
proof (induction n rule: nat_digits.induct)
  case (1 n)
  show ?case
  proof (cases "n < 10")
    case True
    then have "nat_digits n = [digit_char n]" by (simp add: nat_digits.simps)
    with 1(2) have "digit_char n = digit_char 0" by (simp add: digit_char_zero)
    with True show ?thesis by (metis digit_val_digit_char zero_less_numeral)
  next
    case False
    then have d: "nat_digits n = nat_digits (n div 10) @ [digit_char (n mod 10)]" by (simp add: nat_digits.simps [of n])
    with 1(2) have "hd (nat_digits (n div 10)) = CHR ''0''" by (simp add: hd_append)
    with 1(1) [OF False] False show ?thesis by simp
  qed
qed

text \<open>A number is read up to what cannot go on with it.\<close>

lemma json_digits_append:
  assumes "delimited r" "json_digits s = Some (ds, t)"
  shows "json_digits (s @ r) = Some (ds, t @ r)"
proof -
  have "takeWhile is_digit (s @ r) = takeWhile is_digit s"
    using delimited_no_digit [OF assms(1)] by (auto simp: takeWhile_append takeWhile_eq_all_conv [THEN iffD2])
  with assms(2) show ?thesis
    by (auto simp: json_digits_def Let_def length_takeWhile_le split: if_splits)
qed

lemma num_append:
  assumes "delimited r"
  shows "s \<noteq> [] \<Longrightarrow> num_sign s = (x, t) \<Longrightarrow> num_sign (s @ r) = (x, t @ r)"
    "num_int s = Some (x, t) \<Longrightarrow> num_int (s @ r) = Some (x, t @ r)"
    "num_frac s = Some (x, t) \<Longrightarrow> num_frac (s @ r) = Some (x, t @ r)"
    "num_exp s = Some (x, t) \<Longrightarrow> num_exp (s @ r) = Some (x, t @ r)"
proof -
  note nd = delimited_no_digit [OF assms]
  show "s \<noteq> [] \<Longrightarrow> num_sign s = (x, t) \<Longrightarrow> num_sign (s @ r) = (x, t @ r)"
    by (cases s) (auto simp: num_sign_def split: if_splits)
  show "num_int s = Some (x, t) \<Longrightarrow> num_int (s @ r) = Some (x, t @ r)"
    using json_digits_append [OF assms, of s] by (cases s) (auto simp: num_int_def split: if_splits)
  show "num_frac s = Some (x, t) \<Longrightarrow> num_frac (s @ r) = Some (x, t @ r)"
  proof (cases s)
    case Nil
    moreover assume "num_frac s = Some (x, t)"
    ultimately show ?thesis using nd by (cases r) (auto simp: num_frac_def)
  next
    case (Cons c u)
    moreover assume "num_frac s = Some (x, t)"
    ultimately show ?thesis using json_digits_append [OF assms, of u] by (auto simp: num_frac_def split: if_splits)
  qed
  show "num_exp s = Some (x, t) \<Longrightarrow> num_exp (s @ r) = Some (x, t @ r)"
  proof (cases s)
    case Nil
    moreover assume "num_exp s = Some (x, t)"
    ultimately show ?thesis using nd by (cases r) (auto simp: num_exp_def)
  next
    case (Cons c u)
    moreover assume e: "num_exp s = Some (x, t)"
    ultimately show ?thesis using json_digits_append [OF assms, of u] json_digits_append [OF assms, of "tl u"]
      by (cases u) (auto simp: num_exp_def split: if_splits)
  qed
qed

lemma json_number_append:
  assumes "delimited r" "json_number s = Some (l, t)"
  shows "json_number (s @ r) = Some (l, t @ r)"
proof -
  from assms(2) obtain sign s1 ip s2 fp s3 ep where n: "num_sign s = (sign, s1)" "num_int s1 = Some (ip, s2)"
    "num_frac s2 = Some (fp, s3)" "num_exp s3 = Some (ep, t)" "l = sign @ ip @ fp @ ep"
    by (auto simp: json_number_def split: option.splits prod.splits)
  have "s \<noteq> []" using n(1,2) by (auto simp: num_sign_def num_int_def)
  from num_append(1) [OF assms(1) this n(1)] num_append(2) [OF assms(1) n(2)] num_append(3) [OF assms(1) n(3)]
    num_append(4) [OF assms(1) n(4)] n(5) show ?thesis by (simp add: json_number_def)
qed

lemma json_literal_itoa [simp]: "json_literal (itoa i)"
proof -
  let ?ds = "nat_digits (nat \<bar>i\<bar>)"
  obtain c t where ct: "?ds = c # t" by (cases ?ds) (auto dest: arg_cong [of _ _ length])
  have digits: "list_all is_digit ?ds" by (rule nat_digits_digits)
  have "json_digits ?ds = Some (?ds, [])"
    using digits by (simp add: json_digits_def takeWhile_eq_all_conv [THEN iffD2] list_all_iff ct)
  then have int: "num_int ?ds = Some (?ds, [])"
    using ct nat_digits_zero [of "nat \<bar>i\<bar>"] by (auto simp: num_int_def nat_digits.simps digit_char_zero)
  have "c \<noteq> CHR ''-''" using digits ct by (auto simp: is_digit_def byte_of_def)
  then have "num_sign (itoa i) = (if i < 0 then ''-'' else [], ?ds)"
    using ct by (cases "i < 0") (simp_all add: itoa_def num_sign_def)
  moreover have "itoa i = (if i < 0 then ''-'' else []) @ ?ds" by (simp add: itoa_def)
  ultimately show ?thesis using int by (simp add: json_literal_def json_number_def num_frac_def num_exp_def)
qed

text \<open>A printed value begins with no white space, and with what its kind is told by.\<close>

lemma json_literal_head: "json_literal l \<Longrightarrow> \<exists>c t. l = c # t \<and> (is_digit c \<or> c = CHR ''-'')"
proof (cases l)
  case (Cons c t)
  assume "json_literal l"
  then obtain sign s1 where s: "num_sign l = (sign, s1)" "num_int s1 \<noteq> None"
    by (auto simp: json_literal_def json_number_def split: option.splits prod.splits)
  have "is_digit c \<or> c = CHR ''-''"
  proof (rule ccontr)
    assume c: "\<not> (is_digit c \<or> c = CHR ''-'')"
    with s Cons show False by (auto simp: num_sign_def num_int_def json_digits_def is_digit_def byte_of_def split: if_splits)
  qed
  with Cons show ?thesis by blast
qed (simp add: json_literal_def json_number_def num_sign_def num_int_def)

lemma json_print_ne: "json_ok v \<Longrightarrow> \<exists>c t. json_print v = c # t \<and> \<not> is_ws c \<and> c \<noteq> CHR ''}'' \<and> c \<noteq> CHR '']''"
proof (cases v)
  case (JNum l)
  assume "json_ok v"
  with JNum json_literal_head [of l] obtain c t where "l = c # t" "is_digit c \<or> c = CHR ''-''" by auto
  then show ?thesis using JNum by (auto simp: is_ws_def is_digit_def byte_of_def)
qed (auto simp: is_ws_def)

lemma json_scalar_number:
  assumes "delimited r" "json_literal l"
  shows "json_value (Suc n) d (l @ r) = Some (JNum l, r)"
proof -
  obtain c t where ct: "l = c # t" "is_digit c \<or> c = CHR ''-''" using json_literal_head [OF assms(2)] by blast
  then have "\<not> is_ws c" "c \<noteq> CHR ''{''" "c \<noteq> CHR ''[''" "c \<noteq> CHR 0x22" "c \<noteq> CHR ''t''" "c \<noteq> CHR ''f''" "c \<noteq> CHR ''n''"
    by (auto simp: is_ws_def is_digit_def byte_of_def)
  with ct json_number_append [OF assms(1), of l l "[]"] assms(2) show ?thesis by (simp add: json_scalar_def json_literal_def)
qed

text \<open>The lists of elements and of members are read back when their values are.\<close>

definition reads :: "json \<Rightarrow> nat \<Rightarrow> bool" where
  "reads v d \<longleftrightarrow> (\<forall>r. delimited r \<longrightarrow> (\<exists>n. json_value n d (json_print v @ r) = Some (v, r)))"

lemma readsD: "reads v d \<Longrightarrow> delimited r \<Longrightarrow> \<exists>n. json_value n d (json_print v @ r) = Some (v, r)"
  by (simp add: reads_def)

lemma json_elems_print:
  assumes "vs \<noteq> []" "\<forall>v \<in> set vs. reads v d"
  shows "\<exists>n. json_elems n d (commas (map json_print vs) @ CHR '']'' # r) = Some (vs, r)"
  using assms
proof (induction vs rule: list_nonempty_induct)
  case (single v)
  then obtain n where "json_value n d (json_print v @ CHR '']'' # r) = Some (v, CHR '']'' # r)"
    using readsD [of v d "CHR '']'' # r"] by auto
  then show ?case by (intro exI [of _ "Suc n"]) (simp add: is_ws_def)
next
  case (cons v vs)
  from cons(3) obtain n where n: "json_value n d (json_print v @ CHR '','' # commas (map json_print vs) @ CHR '']'' # r) =
      Some (v, CHR '','' # commas (map json_print vs) @ CHR '']'' # r)"
    using readsD [of v d "CHR '','' # commas (map json_print vs) @ CHR '']'' # r"] by auto
  from cons(2,3) obtain m where m: "json_elems m d (commas (map json_print vs) @ CHR '']'' # r) = Some (vs, r)" by auto
  have "commas (map json_print (v # vs)) = json_print v @ '','' @ commas (map json_print vs)"
    using cons(1) by (cases vs) simp_all
  with json_fuel_mono(1) [OF n, of "max n m"] json_fuel_mono(2) [OF m, of "max n m"] show ?case
    by (intro exI [of _ "Suc (max n m)"]) (simp add: is_ws_def)
qed

definition member_text :: "string \<times> json \<Rightarrow> string" where
  "member_text = (\<lambda>(k, v). json_quote k @ '':'' @ json_print v)"

lemma json_members_step:
  assumes "utf8_valid k" "json_value n d s = Some (v, x # r)" "x = CHR '','' \<or> x = CHR ''}''"
  shows "json_members (Suc n) d (json_quote k @ '':'' @ s) =
    (if x = CHR '','' then map_option (\<lambda>(ms, r). ((k, v) # ms, r)) (json_members n d r) else Some ([(k, v)], r))"
proof -
  have "\<not> is_ws x" using assms(3) by (auto simp: is_ws_def)
  moreover have "\<not> is_ws (CHR 0x22)" "\<not> is_ws (CHR '':'')" by (simp_all add: is_ws_def)
  ultimately show ?thesis
    using assms json_chars_escape [OF assms(1), of "CHR '':'' # s"] by (auto simp: json_quote_def)
qed

lemma json_members_print:
  assumes "ms \<noteq> []" "\<forall>(k, v) \<in> set ms. utf8_valid k \<and> reads v d"
  shows "\<exists>n. json_members n d (commas (map member_text ms) @ CHR ''}'' # r) = Some (ms, r)"
  using assms
proof (induction ms rule: list_nonempty_induct)
  case (single m)
  obtain k v where kv: "m = (k, v)" by (cases m)
  with single obtain n where "json_value n d (json_print v @ CHR ''}'' # r) = Some (v, CHR ''}'' # r)"
    using readsD [of v d "CHR ''}'' # r"] by auto
  from json_members_step [OF _ this] single kv show ?case
    by (intro exI [of _ "Suc n"]) (simp add: member_text_def)
next
  case (cons m ms)
  obtain k v where kv: "m = (k, v)" by (cases m)
  let ?t = "commas (map member_text ms) @ CHR ''}'' # r"
  from cons(3) kv obtain n where n: "json_value n d (json_print v @ CHR '','' # ?t) = Some (v, CHR '','' # ?t)"
    using readsD [of v d "CHR '','' # ?t"] by auto
  from cons(2,3) obtain l where l: "json_members l d ?t = Some (ms, r)" by auto
  have "commas (map member_text (m # ms)) = member_text m @ '','' @ commas (map member_text ms)"
    using cons(1) by (cases ms) simp_all
  moreover have "utf8_valid k" using cons(3) kv by auto
  from json_members_step [OF this json_fuel_mono(1) [OF n, of "max n l"]]
  have "json_members (Suc (max n l)) d (json_quote k @ '':'' @ json_print v @ CHR '','' # ?t) = Some ((k, v) # ms, r)"
    using json_fuel_mono(3) [OF l, of "max n l"] by simp
  ultimately show ?case by (intro exI [of _ "Suc (max n l)"]) (simp add: member_text_def kv)
qed

lemma fold_max_le: "fold max ns (m :: nat) \<le> d \<longleftrightarrow> m \<le> d \<and> (\<forall>n \<in> set ns. n \<le> d)"
  by (induction ns arbitrary: m) auto

lemma commas_head: "xs \<noteq> [] \<Longrightarrow> \<forall>x \<in> set xs. \<exists>c t. x = c # t \<and> P c \<Longrightarrow> \<exists>c t. commas xs = c # t \<and> P c"
  by (cases xs rule: commas.cases) auto

lemma json_value_print: "json_ok v \<Longrightarrow> json_depth v \<le> d \<Longrightarrow> reads v d"
proof (induction v arbitrary: d)
  case (JArr vs)
  then obtain d' where d: "d = Suc d'" by (cases d) simp_all
  have sub: "\<forall>v \<in> set vs. reads v d'"
    using JArr d by (auto simp: list_all_iff fold_max_le)
  show ?case unfolding reads_def
  proof (intro allI impI)
    fix r assume "delimited r"
    show "\<exists>n. json_value n d (json_print (JArr vs) @ r) = Some (JArr vs, r)"
    proof (cases "vs = []")
      case True
      then show ?thesis by (intro exI [of _ "Suc 0"]) (simp add: is_ws_def d)
    next
      case False
      from json_elems_print [OF False sub] obtain n where
        n: "json_elems n d' (commas (map json_print vs) @ CHR '']'' # r) = Some (vs, r)" by blast
      have "\<exists>c t. commas (map json_print vs) = c # t \<and> \<not> is_ws c \<and> c \<noteq> CHR '']''"
        using False JArr(2) json_print_ne by (intro commas_head) (simp_all add: list_all_iff, blast)
      then obtain c t where "commas (map json_print vs) = c # t" "\<not> is_ws c" "c \<noteq> CHR '']''" by blast
      with n d show ?thesis by (intro exI [of _ "Suc n"]) (simp add: is_ws_def)
    qed
  qed
next
  case (JObj ms)
  then obtain d' where d: "d = Suc d'" by (cases d) simp_all
  have sub: "\<forall>(k, v) \<in> set ms. utf8_valid k \<and> reads v d'"
    using JObj d by (fastforce simp: list_all_iff fold_max_le)
  have obj: "json_print (JObj ms) = CHR ''{'' # commas (map member_text ms) @ ''}''"
    by (simp add: member_text_def)
  show ?case unfolding reads_def
  proof (intro allI impI)
    fix r assume "delimited r"
    show "\<exists>n. json_value n d (json_print (JObj ms) @ r) = Some (JObj ms, r)"
    proof (cases "ms = []")
      case True
      then show ?thesis by (intro exI [of _ "Suc 0"]) (simp add: is_ws_def d)
    next
      case False
      from json_members_print [OF False sub] obtain n where
        n: "json_members n d' (commas (map member_text ms) @ CHR ''}'' # r) = Some (ms, r)" by blast
      have "\<exists>c t. commas (map member_text ms) = c # t \<and> c = CHR 0x22"
        using False by (intro commas_head) (auto simp: member_text_def json_quote_def)
      then obtain t where "commas (map member_text ms) = CHR 0x22 # t" by blast
      with n d show ?thesis unfolding obj by (intro exI [of _ "Suc n"]) (simp add: is_ws_def del: json_members.simps)
    qed
  qed
next
  case (JNum l)
  then show ?case unfolding reads_def
    by (intro allI impI exI [of _ "Suc 0"]) (simp add: json_scalar_number del: json_value.simps)
next
  case (JStr raw u)
  then show ?case unfolding reads_def using json_value_quote [of u 0 d] by (auto simp: json_quote_def intro!: exI [of _ "Suc 0"])
qed (auto simp: reads_def json_scalar_def is_ws_def intro!: exI [of _ "Suc 0"])

lemma json_parse_print:
  assumes "json_ok v" "json_depth v \<le> 10000"
  shows "json_parse (json_print v) = Some v"
proof -
  from json_value_print [OF assms] obtain n where "json_value n 10000 (json_print v @ []) = Some (v, [])"
    unfolding reads_def using delimited_simps(1) by blast
  then show ?thesis unfolding json_fuel by (intro exI [of _ n] exI [of _ "[]"]) (simp add: skip_ws_def)
qed

lemma json_decode_print:
  assumes "json_ok v" "json_depth v \<le> 10000" "delimited r"
  shows "json_decode (json_print v @ r) = Some v"
proof -
  from json_value_print [OF assms(1,2)] assms(3) obtain n where
    n: "json_value n 10000 (json_print v @ r) = Some (v, r)" unfolding reads_def by blast
  from json_fuel_mono(1) [OF json_fuel_enough(1) [OF n], of "2 * length (json_print v @ r)"]
  show ?thesis by (simp add: json_decode_def)
qed

lemma json_unmarshal_print:
  assumes "json_ok v" "json_depth v \<le> 10000"
  shows "json_unmarshal store zero (json_print v) = json_struct store zero v"
  by (simp add: json_unmarshal_def json_parse_print [OF assms])

end
