(* ===== verification/Codec.thy ===== *)
theory Codec
  imports Main
begin

text \<open>
  The interface of an encoding: on the values \<open>ok\<close> admits, decoding returns what was
  encoded. Its users need only that encodings are told apart and that encodings compose.
\<close>

locale codec =
  fixes enc :: "'a \<Rightarrow> 'b" and dec :: "'b \<Rightarrow> 'a option" and ok :: "'a \<Rightarrow> bool"
  assumes dec_enc: "ok x \<Longrightarrow> dec (enc x) = Some x"
begin

lemma enc_inject: "ok x \<Longrightarrow> ok y \<Longrightarrow> enc x = enc y \<longleftrightarrow> x = y"
  by (metis dec_enc option.inject)

lemma dec_enc_map: "list_all ok xs \<Longrightarrow> map (dec \<circ> enc) xs = map Some xs"
  by (induction xs) (simp_all add: dec_enc)

end

locale codec_chain = inner: codec enc dec ok + outer: codec enc' dec' ok'
  for enc :: "'a \<Rightarrow> 'b" and dec ok and enc' :: "'b \<Rightarrow> 'c" and dec' ok' +
  assumes enc_ok: "ok x \<Longrightarrow> ok' (enc x)"
begin

sublocale chain: codec "enc' \<circ> enc" "\<lambda>s. Option.bind (dec' s) dec" ok
  by unfold_locales (simp add: enc_ok inner.dec_enc outer.dec_enc)

end

end
