(* ===== verification/Cursor.thy ===== *)
theory Cursor
  imports Refs Gotime Base64 Json_Print Codec
begin

text \<open>
  The opaque cursor of \<open>internal/cursor/cursor.go\<close>: \<open>Encode\<close> and \<open>Decode\<close>, through the JSON
  envelope \<open>wireCursor\<close>, its RFC 3339 key and base64. A time carries the zone it is printed
  in; \<open>zone\<close> gives the offset of an instant.
\<close>

section \<open>Definitions\<close>

record wireCursor =
  wV :: int
  wRef :: string
  wPath :: int
  wKey :: string
  wHash :: string

definition cursorVersion :: int where "cursorVersion = 1"

definition PathCatalog :: int where "PathCatalog = 0"
definition PathDelta :: int where "PathDelta = 1"

record Cursor =
  cRef :: string
  cPath :: int
  cKey :: time
  cInfohash :: string

text \<open>\<open>json.Marshal\<close> and \<open>json.Unmarshal\<close> of the envelope.\<close>

definition cursor_members :: "wireCursor \<Rightarrow> (string \<times> json) list" where
  "cursor_members w =
     [(''v'', json_integer (wV w)), (''r'', json_str (wRef w)), (''p'', json_integer (wPath w)),
      (''k'', json_str (wKey w)), (''h'', json_str (wHash w))]"

definition marshal_cursor :: "wireCursor \<Rightarrow> string" where
  "marshal_cursor w = json_print (JObj (cursor_members w))"

definition store_member :: "wireCursor \<Rightarrow> string \<times> json \<Rightarrow> wireCursor option" where
  "store_member w m =
     (let (key, v) = m in
      if key_is ''v'' key then map_option (\<lambda>i. w\<lparr>wV := i\<rparr>) (json_int (wV w) v)
      else if key_is ''r'' key then map_option (\<lambda>s. w\<lparr>wRef := s\<rparr>) (json_string (wRef w) v)
      else if key_is ''p'' key then map_option (\<lambda>i. w\<lparr>wPath := i\<rparr>) (json_int (wPath w) v)
      else if key_is ''k'' key then map_option (\<lambda>s. w\<lparr>wKey := s\<rparr>) (json_string (wKey w) v)
      else if key_is ''h'' key then map_option (\<lambda>s. w\<lparr>wHash := s\<rparr>) (json_string (wHash w) v)
      else Some w)"

definition zero_cursor :: wireCursor where
  "zero_cursor = \<lparr>wV = 0, wRef = [], wPath = 0, wKey = [], wHash = []\<rparr>"

definition unmarshal_cursor :: "string \<Rightarrow> wireCursor option" where
  "unmarshal_cursor raw = json_unmarshal store_member zero_cursor raw"

definition Encode :: "(time \<Rightarrow> int) \<Rightarrow> Cursor \<Rightarrow> cursor_error + string" where
  "Encode zone c =
     (let payload = \<lparr>wV = cursorVersion, wRef = cRef c, wPath = cPath c,
            wKey = format_rfc3339nano (cKey c) (zone (cKey c)), wHash = cInfohash c\<rparr>
      in Inr (b64_encode (marshal_cursor payload)))"

definition Decode :: "string \<Rightarrow> string \<Rightarrow> int \<Rightarrow> cursor_error + Cursor" where
  "Decode encoded expectRef expectPath =
     (case b64_decode encoded of
        None \<Rightarrow> Inl ErrInvalidCursor
      | Some raw \<Rightarrow>
          (case unmarshal_cursor raw of
             None \<Rightarrow> Inl ErrInvalidCursor
           | Some payload \<Rightarrow>
               if wV payload \<noteq> cursorVersion then Inl ErrInvalidCursor
               else case parse_rfc3339nano (wKey payload) of
                 None \<Rightarrow> Inl ErrInvalidCursor
               | Some key \<Rightarrow>
                   if wRef payload \<noteq> expectRef then Inl ErrInvalidCursor
                   else if wPath payload \<noteq> expectPath then Inl ErrInvalidCursor
                   else Inr \<lparr>cRef = wRef payload, cPath = wPath payload, cKey = key,
                             cInfohash = wHash payload\<rparr>))"

text \<open>The envelopes that survive the trip through JSON.\<close>

definition wire_ok :: "wireCursor \<Rightarrow> bool" where
  "wire_ok w \<longleftrightarrow>
     in_int64 (wV w) \<and> in_int64 (wPath w) \<and> utf8_valid (wRef w) \<and> utf8_valid (wKey w) \<and> utf8_valid (wHash w)"

section \<open>Lemmas: the envelope\<close>

lemma pad_digits_ascii: "list_all (\<lambda>c. byte_of c < 0x80) (pad_digits w n)"
  using nat_digits_digits [of n] zero_digit by (auto simp: pad_digits_def list_all_iff is_digit_def)

lemma append_int_ascii: "list_all (\<lambda>c. byte_of c < 0x80) (append_int w x)"
  using pad_digits_ascii by (simp add: append_int_def byte_of_def)

lemma trim_zeros_ascii: "list_all P s \<Longrightarrow> list_all P (trim_zeros s)"
  by (auto simp: trim_zeros_def list_all_iff dest: set_dropWhileD)

lemma format_ascii: "list_all (\<lambda>c. byte_of c < 0x80) (format_rfc3339nano t off)"
proof -
  have "list_all (\<lambda>c. byte_of c < 0x80) (format_frac n)" for n
    by (simp add: format_frac_def trim_zeros_ascii pad_digits_ascii) (simp add: byte_of_def)
  moreover have "list_all (\<lambda>c. byte_of c < 0x80) (format_zone off)"
    by (simp add: format_zone_def Let_def append_int_ascii) (simp add: byte_of_def)
  moreover have "byte_of CHR ''-'' < 0x80" "byte_of CHR '':'' < 0x80" "byte_of CHR ''T'' < 0x80"
    by (simp_all add: byte_of_def)
  ultimately show ?thesis
    by (simp add: format_rfc3339nano_def Let_def append_int_ascii split: prod.splits)
qed

lemma cursor_fold: "json_fold ''v'' = ''V''" "json_fold ''r'' = ''R''" "json_fold ''p'' = ''P''"
  "json_fold ''k'' = ''K''" "json_fold ''h'' = ''H''"
  by code_simp+

lemma store_cursor_members:
  "in_int64 (wV w) \<Longrightarrow> in_int64 (wPath w) \<Longrightarrow> json_store store_member zero_cursor (cursor_members w) = Some w"
  by (simp add: cursor_members_def store_member_def key_is_def cursor_fold json_int_def json_string_def
      atoi_itoa zero_cursor_def del: json_fold.simps)

lemma cursor_json_ok:
  assumes "wire_ok w"
  shows "json_ok (JObj (cursor_members w))" "json_depth (JObj (cursor_members w)) \<le> 10000"
proof -
  have "utf8_valid ''v''" "utf8_valid ''r''" "utf8_valid ''p''" "utf8_valid ''k''" "utf8_valid ''h''"
    by (rule utf8_valid_ascii, simp add: byte_of_def)+
  with assms show "json_ok (JObj (cursor_members w))" by (simp add: cursor_members_def wire_ok_def)
qed (simp add: cursor_members_def)

lemma unmarshal_marshal:
  assumes "wire_ok w"
  shows "unmarshal_cursor (marshal_cursor w) = Some w"
  using assms store_cursor_members [of w] json_unmarshal_print [OF cursor_json_ok [OF assms], of store_member zero_cursor]
  by (simp add: unmarshal_cursor_def marshal_cursor_def json_struct_def wire_ok_def del: json_print.simps)

text \<open>The envelope through JSON, base64, and both in a row.\<close>

interpretation base64: codec b64_encode b64_decode "\<lambda>_. True"
  by unfold_locales (rule b64_decode_encode)

interpretation wire: codec_chain marshal_cursor unmarshal_cursor wire_ok b64_encode b64_decode "\<lambda>_. True"
  by unfold_locales (simp_all add: unmarshal_marshal)

lemma Decode_eq:
  "Decode s ref path =
    (case Option.bind (b64_decode s) unmarshal_cursor of
       None \<Rightarrow> Inl ErrInvalidCursor
     | Some w \<Rightarrow>
         (case parse_rfc3339nano (wKey w) of
            Some key \<Rightarrow>
              if wV w = cursorVersion \<and> wRef w = ref \<and> wPath w = path
              then Inr \<lparr>cRef = wRef w, cPath = wPath w, cKey = key, cInfohash = wHash w\<rparr>
              else Inl ErrInvalidCursor
          | None \<Rightarrow> Inl ErrInvalidCursor))"
  by (auto simp: Decode_def split: option.splits)

lemma Decode_Encode:
  assumes "utf8_valid (cRef c)" and "utf8_valid (cInfohash c)"
    and "cPath c = PathCatalog \<or> cPath c = PathDelta"
    and "printable_time (cKey c) (zone (cKey c))"
  shows "\<exists>s. Encode zone c = Inr s \<and> Decode s (cRef c) (cPath c) = Inr c"
proof -
  define w where "w = \<lparr>wV = cursorVersion, wRef = cRef c, wPath = cPath c,
    wKey = format_rfc3339nano (cKey c) (zone (cKey c)), wHash = cInfohash c\<rparr>"
  have "wire_ok w"
    using assms(1-3) utf8_valid_ascii [OF format_ascii]
    by (auto simp: wire_ok_def w_def cursorVersion_def PathCatalog_def PathDelta_def in_int64_def)
  from wire.chain.dec_enc [OF this] have "Decode (b64_encode (marshal_cursor w)) (cRef c) (cPath c) = Inr c"
    using parse_format_rfc3339nano [OF assms(4)] by (simp add: Decode_eq) (simp add: w_def)
  then show ?thesis by (simp add: Encode_def w_def)
qed

text \<open>Whatever text is offered, a cursor that decodes is bound to its request.\<close>

lemma Decode_bound:
  assumes "Decode s ref path = Inr c"
  shows "cRef c = ref \<and> cPath c = path \<and>
    (\<forall>ref' path'. (ref', path') \<noteq> (ref, path) \<longrightarrow> Decode s ref' path' = Inl ErrInvalidCursor)"
  using assms by (auto simp: Decode_def split: option.splits if_splits)

section \<open>Properties\<close>

text \<open>
  C26: the list cursor round trips and is bound to its request. A cursor whose ref and infohash
  are valid UTF-8 and whose key prints with a four-digit year in a zone of whole minutes decodes,
  for the ref and path it was issued for, to itself; and any text that decodes for one ref and
  path is an invalid cursor for every other.
\<close>

theorem list_cursor_roundtrip:
  assumes "utf8_valid (cRef c)" and "utf8_valid (cInfohash c)"
    and "cPath c = PathCatalog \<or> cPath c = PathDelta"
    and "printable_time (cKey c) (zone (cKey c))"
  shows "(\<exists>s. Encode zone c = Inr s \<and> Decode s (cRef c) (cPath c) = Inr c) \<and>
    (\<forall>s ref path c' ref' path'. Decode s ref path = Inr c' \<and> (ref', path') \<noteq> (ref, path) \<longrightarrow>
      Decode s ref' path' = Inl ErrInvalidCursor)"
proof
  show "\<exists>s. Encode zone c = Inr s \<and> Decode s (cRef c) (cPath c) = Inr c" using assms by (rule Decode_Encode)
qed (use Decode_bound in blast)

theorem list_cursor_roundtrip_witness:
  "\<exists>s. Encode (\<lambda>_. 0) \<lparr>cRef = ''tvdb:1'', cPath = PathDelta, cKey = 0, cInfohash = ''ab''\<rparr> = Inr s \<and>
    Decode s ''tvdb:1'' PathDelta =
      Inr \<lparr>cRef = ''tvdb:1'', cPath = PathDelta, cKey = 0, cInfohash = ''ab''\<rparr> \<and>
    Decode s ''tvdb:1'' PathCatalog = Inl ErrInvalidCursor"
proof -
  have "utf8_valid ''tvdb:1''" "utf8_valid ''ab''" by (auto intro!: utf8_valid_ascii simp: byte_of_def)
  moreover have "local_year 0 0 = 1970" by code_simp
  then have "printable_time 0 0" by (simp add: printable_time_def printable_zone_def)
  ultimately have both: "\<exists>s. Encode (\<lambda>_. 0) \<lparr>cRef = ''tvdb:1'', cPath = PathDelta, cKey = 0, cInfohash = ''ab''\<rparr> = Inr s \<and>
      Decode s ''tvdb:1'' PathDelta = Inr \<lparr>cRef = ''tvdb:1'', cPath = PathDelta, cKey = 0, cInfohash = ''ab''\<rparr>"
    "\<forall>s ref path c' ref' path'. Decode s ref path = Inr c' \<and> (ref', path') \<noteq> (ref, path) \<longrightarrow>
      Decode s ref' path' = Inl ErrInvalidCursor"
    using list_cursor_roundtrip
      [of "\<lparr>cRef = ''tvdb:1'', cPath = PathDelta, cKey = 0, cInfohash = ''ab''\<rparr>" "\<lambda>_. 0"] by simp_all
  moreover have "PathCatalog \<noteq> PathDelta" by (simp add: PathCatalog_def PathDelta_def)
  ultimately show ?thesis by blast
qed

end
