(* ===== verification/Pager.thy ===== *)
theory Pager
  imports Main
begin

text \<open>
  Paging through an ordered result: a request returns some rows and, unless it was the last
  page, the request of the next page. \<open>rest\<close> names the rows a request still stands for.
\<close>

section \<open>Definitions\<close>

inductive paged :: "('q \<Rightarrow> ('a list \<times> 'q option) option) \<Rightarrow> 'q \<Rightarrow> 'a list list \<Rightarrow> bool"
  for fetch where
  last_page: "fetch q = Some (xs, None) \<Longrightarrow> paged fetch q [xs]"
| more_pages: "fetch q = Some (xs, Some q') \<Longrightarrow> paged fetch q' ps \<Longrightarrow> paged fetch q (xs # ps)"

inductive_cases pagedE: "paged fetch q ps"

locale pager =
  fixes fetch :: "'q \<Rightarrow> ('a list \<times> 'q option) option"
    and ok :: "'q \<Rightarrow> bool" and rest :: "'q \<Rightarrow> 'a list" and page_size :: "'q \<Rightarrow> nat"
  assumes fetch_ok: "ok q \<Longrightarrow> fetch q \<noteq> None"
    and fetch_last: "ok q \<Longrightarrow> fetch q = Some (xs, None) \<Longrightarrow> xs = rest q \<and> length xs \<le> page_size q"
    and fetch_more: "ok q \<Longrightarrow> fetch q = Some (xs, Some q') \<Longrightarrow>
      ok q' \<and> rest q = xs @ rest q' \<and> length xs = page_size q \<and> 0 < page_size q \<and>
      page_size q' = page_size q"
begin

section \<open>Lemmas\<close>

text \<open>Following the requests ends and yields every row exactly once, in order.\<close>

lemma paged_all:
  "ok q \<Longrightarrow> \<exists>ps. paged fetch q ps \<and> concat ps = rest q \<and>
     (\<forall>p \<in> set (butlast ps). length p = page_size q) \<and> length (last ps) \<le> page_size q"
proof (induction "length (rest q)" arbitrary: q rule: less_induct)
  case less
  from fetch_ok [OF less.prems] obtain xs nxt where f: "fetch q = Some (xs, nxt)" by auto
  show ?case
  proof (cases nxt)
    case None
    with fetch_last [OF less.prems] f have "paged fetch q [xs]" "xs = rest q" "length xs \<le> page_size q"
      by (auto intro: last_page)
    then show ?thesis by (intro exI [of _ "[xs]"]) simp
  next
    case (Some q')
    from fetch_more [OF less.prems] f Some
    have q': "ok q'" "rest q = xs @ rest q'" "length xs = page_size q" "0 < page_size q"
      "page_size q' = page_size q" by auto
    then have "length (rest q') < length (rest q)" by simp
    from less.hyps [OF this q'(1)] obtain ps where ps: "paged fetch q' ps" "concat ps = rest q'"
      "\<forall>p \<in> set (butlast ps). length p = page_size q" "length (last ps) \<le> page_size q"
      unfolding q'(5) by blast
    moreover from ps(1) have "ps \<noteq> []" by (auto elim: pagedE)
    ultimately show ?thesis
      using f Some q' by (intro exI [of _ "xs # ps"]) (auto intro: more_pages)
  qed
qed

end

lemma paged_unique: "paged fetch q ps \<Longrightarrow> paged fetch q ps' \<Longrightarrow> ps' = ps"
proof (induction arbitrary: ps' rule: paged.induct)
  case (last_page q xs)
  from last_page(2,1) show ?case by cases simp_all
next
  case (more_pages q xs q' ps)
  from more_pages(4,1) show ?case by cases (simp_all add: more_pages.IH)
qed

end
