(* ===== verification/Store_List.thy ===== *)
theory Store_List
  imports Store_Catalog Cursor Pager
begin

text \<open>
  The release listing of the store: \<open>ListReleases\<close> and its four statements
  (\<open>listReleaseRows\<close>), paged by a cursor on the sort key. The four statements differ in the
  sort key (\<open>published_at\<close>, or \<open>first_matched_at\<close> with a \<open>since\<close> bound) and in the filter on
  \<open>ref\<close>; \<open>list_key\<close> and \<open>in_list\<close> select between them.
\<close>

section \<open>Definitions\<close>

definition list_key :: "int \<Rightarrow> release \<Rightarrow> time option" where
  "list_key path r = (if path = PathCatalog then Some (r_published_at r) else r_first_matched_at r)"

text \<open>
  The \<open>WHERE\<close> clauses without the seek. A \<open>NULL\<close> comparison selects nothing; the delta path
  is taken only when \<open>since\<close> is present.
\<close>

definition in_list :: "Store \<Rightarrow> ReleaseQuery \<Rightarrow> int \<Rightarrow> release \<Rightarrow> bool" where
  "in_list s q path r \<longleftrightarrow>
     r_match_status r = Matched \<and>
     (rqRef q \<noteq> [] \<longrightarrow> r_ref r = Some (rqRef q)) \<and>
     (path \<noteq> PathCatalog \<longrightarrow>
        (case (r_first_matched_at r, rqSince q) of
           (Some t, Some since) \<Rightarrow> t > ts s since
         | _ \<Rightarrow> False))"

text \<open>The columns a statement returns, with the sort key last.\<close>

definition keyed_row :: "int \<Rightarrow> release \<Rightarrow> ReleaseItem \<times> time" where
  "keyed_row path r =
     (\<lparr>riInfohash = r_infohash r, riRef = (case r_ref r of None \<Rightarrow> [] | Some ref \<Rightarrow> ref),
       riTitle = r_title r, riSizeBytes = (case r_size_bytes r of None \<Rightarrow> 0 | Some n \<Rightarrow> n),
       riPublishedAt = r_published_at r,
       riConfidence = (case r_confidence r of None \<Rightarrow> 0 | Some c \<Rightarrow> c),
       riSources = r_sources r\<rparr>,
      (case list_key path r of None \<Rightarrow> zero_time | Some t \<Rightarrow> t))"

definition seek_key :: "ReleaseItem \<times> time \<Rightarrow> time \<times> string" where
  "seek_key kr = (snd kr, riInfohash (fst kr))"

definition listReleaseRows ::
  "Store \<Rightarrow> database \<Rightarrow> ReleaseQuery \<Rightarrow> int \<Rightarrow> time \<Rightarrow> string \<Rightarrow> bool \<Rightarrow> int \<Rightarrow>
   store_error + (ReleaseItem \<times> time) list" where
  "listReleaseRows s db q path seekKey seekHash hasSeek fetch =
     (case db_err s SelectReleases of
        Some err \<Rightarrow> Inl err
      | None \<Rightarrow> Inr (take (nat fetch) (order_desc seek_key
          (filter (\<lambda>kr. \<not> hasSeek \<or> seek_key kr < (ts s seekKey, seekHash))
            (map (keyed_row path) (filter (in_list s q path) (releases db)))))))"

definition list_limit :: "ReleaseQuery \<Rightarrow> int" where
  "list_limit q =
     (let limit = (if rqLimit q \<le> 0 then defaultReleasesLimit else rqLimit q)
      in if limit > maxReleasesLimit then maxReleasesLimit else limit)"

definition list_path :: "ReleaseQuery \<Rightarrow> int" where
  "list_path q = (if rqSince q \<noteq> None then PathDelta else PathCatalog)"

definition ListReleases ::
  "Store \<Rightarrow> database \<Rightarrow> ReleaseQuery \<Rightarrow> store_error + ReleasePage" where
  "ListReleases s db q =
     (case (if rqRef q \<noteq> [] then ValidateRef (rqRef q) else None) of
        Some err \<Rightarrow> Inl (RefError err)
      | None \<Rightarrow>
     (let limit = list_limit q; path = list_path q in
      case (if rqCursor q \<noteq> []
            then map_sum (\<lambda>_. RefError ErrInvalidCursor) Some (Decode (rqCursor q) (rqRef q) path)
            else Inr None) of
        Inl err \<Rightarrow> Inl err
      | Inr seek \<Rightarrow>
     (let fetch = limit + 1;
          (seekKey, seekHash, hasSeek) =
            (case seek of None \<Rightarrow> (zero_time, [], False) | Some c \<Rightarrow> (cKey c, cInfohash c, True)) in
      case listReleaseRows s db q path seekKey seekHash hasSeek fetch of
        Inl err \<Rightarrow> Inl err
      | Inr rows \<Rightarrow>
     (case db_err s CollectReleases of
        Some err \<Rightarrow> Inl err
      | None \<Rightarrow>
     (let hasMore = int (length rows) > limit;
          keyed = (if hasMore then take (nat limit) rows else rows) in
      if hasMore
      then case Encode (zone (pool s)) \<lparr>cRef = rqRef q, cPath = path, cKey = snd (last keyed),
                  cInfohash = riInfohash (fst (last keyed))\<rparr> of
             Inl err \<Rightarrow> Inl (RefError err)
           | Inr enc \<Rightarrow> Inr \<lparr>Releases = map fst keyed, rpNextCursor = enc\<rparr>
      else Inr \<lparr>Releases = map fst keyed, rpNextCursor = []\<rparr>)))))"

text \<open>All rows of a listing, and those after a cursor.\<close>

definition listing :: "Store \<Rightarrow> database \<Rightarrow> ReleaseQuery \<Rightarrow> (ReleaseItem \<times> time) list" where
  "listing s db q =
     order_desc seek_key
       (map (keyed_row (list_path q)) (filter (in_list s q (list_path q)) (releases db)))"

definition after_cursor :: "Store \<Rightarrow> ReleaseQuery \<Rightarrow> ReleaseItem \<times> time \<Rightarrow> bool" where
  "after_cursor s q kr \<longleftrightarrow>
     rqCursor q = [] \<or>
     (case Decode (rqCursor q) (rqRef q) (list_path q) of
        Inl _ \<Rightarrow> False
      | Inr c \<Rightarrow> seek_key kr < (ts s (cKey c), cInfohash c))"

definition list_rest :: "Store \<Rightarrow> database \<Rightarrow> ReleaseQuery \<Rightarrow> (ReleaseItem \<times> time) list" where
  "list_rest s db q = filter (after_cursor s q) (listing s db q)"

text \<open>
  A listing whose keys survive the cursor: the ref is text, a key prints with a four-digit
  year in a zone of whole minutes, and the server stores it as it reads it.
\<close>

definition key_ok :: "Store \<Rightarrow> time \<Rightarrow> bool" where
  "key_ok s t \<longleftrightarrow> printable_time t (zone (pool s) t) \<and> ts s t = t"

definition listable :: "Store \<Rightarrow> database \<Rightarrow> ReleaseQuery \<Rightarrow> bool" where
  "listable s db q \<longleftrightarrow>
     (rqRef q \<noteq> [] \<longrightarrow> ValidateRef (rqRef q) = None) \<and> utf8_valid (rqRef q) \<and>
     (\<forall>kr \<in> set (listing s db q). key_ok s (snd kr))"

definition cursor_ok :: "ReleaseQuery \<Rightarrow> bool" where
  "cursor_ok q \<longleftrightarrow> rqCursor q = [] \<or> (\<exists>c. Decode (rqCursor q) (rqRef q) (list_path q) = Inr c)"

text \<open>A request for a page as the pager sees it.\<close>

type_synonym list_request = "Store \<times> database \<times> ReleaseQuery"

definition next_page :: "list_request \<Rightarrow> (ReleaseItem list \<times> list_request option) option" where
  "next_page = (\<lambda>(s, db, q).
     case ListReleases s db q of
       Inl _ \<Rightarrow> None
     | Inr page \<Rightarrow> Some (Releases page,
         if rpNextCursor page = [] then None else Some (s, db, q\<lparr>rqCursor := rpNextCursor page\<rparr>)))"

definition request_ok :: "list_request \<Rightarrow> bool" where
  "request_ok = (\<lambda>(s, db, q). reliable s \<and> db_inv db \<and> listable s db q \<and> cursor_ok q)"

section \<open>Lemmas: keyset paging\<close>

text \<open>Seeking behind the last row of a page finds the rows after the page.\<close>

lemma seek_drop:
  fixes k :: "'r \<Rightarrow> 'k::linorder"
  assumes "sorted_wrt (\<lambda>a b. k b < k a) xs" "0 < n" "n \<le> length xs"
  shows "filter (\<lambda>r. k r < k (last (take n xs))) xs = drop n xs"
proof -
  let ?x = "last (take n xs)"
  from assms(2,3) have ne: "take n xs \<noteq> []" by auto
  have split: "take n xs = butlast (take n xs) @ [?x]" using ne by simp
  have "sorted_wrt (\<lambda>a b. k b < k a) (butlast (take n xs) @ [?x])"
    using sorted_wrt_take [OF assms(1), of n] split by simp
  then have "k ?x < k r" if "r \<in> set (butlast (take n xs))" for r
    using that by (auto simp: sorted_wrt_append)
  then have "\<not> k r < k ?x" if "r \<in> set (take n xs)" for r
    using that by (subst (asm) split) (auto dest: order.asym)
  moreover have "k r < k ?x" if "r \<in> set (drop n xs)" for r
    using sorted_wrt_take_drop [OF assms(1) last_in_set [OF ne] that] .
  ultimately have "filter (\<lambda>r. k r < k ?x) (take n xs @ drop n xs) = drop n xs"
    unfolding filter_append by simp
  then show ?thesis by simp
qed

text \<open>Seeking twice is seeking to the later position.\<close>

lemma seek_seek:
  fixes k :: "'r \<Rightarrow> 'k::linorder"
  assumes "\<And>r. r \<in> set xs \<Longrightarrow> k r < y \<Longrightarrow> P r"
  shows "filter (\<lambda>r. k r < y) (filter P xs) = filter (\<lambda>r. k r < y) xs"
  using assms by (auto simp: filter_filter intro!: filter_cong)

section \<open>Lemmas: the listing\<close>

lemma list_limit_bounds: "1 \<le> list_limit q" "list_limit q \<le> 500"
  by (simp_all add: list_limit_def Let_def defaultReleasesLimit_def maxReleasesLimit_def)

lemma seek_key_row: "snd (seek_key (keyed_row path r)) = r_infohash r"
  by (simp add: seek_key_def keyed_row_def)

lemma distinct_seek_keys:
  assumes "distinct (map r_infohash rows)"
  shows "distinct (map seek_key (map (keyed_row path) (filter P rows)))"
proof -
  have "distinct (map r_infohash (filter P rows))" using assms by (simp add: distinct_map_filter)
  then have "distinct (map (snd \<circ> seek_key \<circ> keyed_row path) (filter P rows))"
    by (simp add: comp_def seek_key_row)
  then have "distinct (map snd (map seek_key (map (keyed_row path) (filter P rows))))"
    by (simp add: comp_assoc)
  then show ?thesis by (simp only: distinct_map)
qed

lemma order_desc_distinct: "distinct (map k xs) \<Longrightarrow> distinct (map k (order_desc k xs))"
  by (simp add: distinct_map order_desc_def)

lemma listing_sorted:
  assumes "db_inv db"
  shows "sorted_wrt (\<lambda>a b. seek_key b < seek_key a) (listing s db q)"
  unfolding listing_def
  using assms by (intro sorted_desc_strict sorted_order_desc order_desc_distinct distinct_seek_keys)
    (simp add: db_inv_def keys_ok_def)

lemma list_rest_sorted: "db_inv db \<Longrightarrow> sorted_wrt (\<lambda>a b. seek_key b < seek_key a) (list_rest s db q)"
  by (simp add: list_rest_def listing_sorted sorted_wrt_filter)

lemma listing_hash:
  assumes "db_inv db" "kr \<in> set (listing s db q)"
  shows "utf8_valid (riInfohash (fst kr))"
proof -
  obtain r where "r \<in> set (releases db)" "kr = keyed_row (list_path q) r"
    using assms(2) by (auto simp: listing_def)
  then have "isCanonicalInfohash (riInfohash (fst kr))"
    using assms(1) by (simp add: db_inv_def keyed_row_def)
  then have "list_all (\<lambda>c. byte_of c < 0x80) (riInfohash (fst kr))"
    by (auto simp: isCanonicalInfohash_def is_lower_hex_def is_digit_def list_all_iff)
  then show ?thesis by (rule utf8_valid_ascii)
qed

definition list_cursor :: "Store \<Rightarrow> ReleaseQuery \<Rightarrow> ReleaseItem \<times> time \<Rightarrow> Cursor" where
  "list_cursor s q kr =
     \<lparr>cRef = rqRef q, cPath = list_path q, cKey = snd kr, cInfohash = riInfohash (fst kr)\<rparr>"

lemma list_cursor_simps [simp]:
  "cRef (list_cursor s q kr) = rqRef q" "cPath (list_cursor s q kr) = list_path q"
  "cKey (list_cursor s q kr) = snd kr" "cInfohash (list_cursor s q kr) = riInfohash (fst kr)"
  by (simp_all add: list_cursor_def)

lemma list_path_cases: "list_path q = PathCatalog \<or> list_path q = PathDelta"
  by (simp add: list_path_def)

lemma b64_encode_ne: "s \<noteq> [] \<Longrightarrow> b64_encode s \<noteq> []"
  by (cases s rule: b64_encode.cases) (simp_all add: Let_def)

lemma Encode_ne: "\<exists>enc. Encode z c = Inr enc \<and> enc \<noteq> []"
proof -
  have "marshal_cursor w \<noteq> []" for w by (simp add: marshal_cursor_def)
  then show ?thesis by (simp add: Encode_def b64_encode_ne)
qed

lemma Encode_list_cursor:
  assumes "db_inv db" "listable s db q" "kr \<in> set (listing s db q)"
  shows "\<exists>enc. Encode (zone (pool s)) (list_cursor s q kr) = Inr enc \<and> enc \<noteq> [] \<and>
    Decode enc (rqRef q) (list_path q) = Inr (list_cursor s q kr)"
proof -
  have "utf8_valid (rqRef q)" "printable_time (snd kr) (zone (pool s) (snd kr))"
    using assms(2,3) by (auto simp: listable_def key_ok_def)
  with Decode_Encode [of "list_cursor s q kr" "zone (pool s)"] listing_hash [OF assms(1,3)] list_path_cases [of q]
  obtain enc where "Encode (zone (pool s)) (list_cursor s q kr) = Inr enc"
      "Decode enc (rqRef q) (list_path q) = Inr (list_cursor s q kr)" by auto
  with Encode_ne [of "zone (pool s)" "list_cursor s q kr"] show ?thesis by auto
qed

text \<open>What a working server returns for a request with a good ref and cursor.\<close>

definition page_of :: "Store \<Rightarrow> database \<Rightarrow> ReleaseQuery \<Rightarrow> ReleasePage" where
  "page_of s db q =
     (let rows = list_rest s db q; n = nat (list_limit q) in
      if n < length rows
      then \<lparr>Releases = map fst (take n rows),
            rpNextCursor = projr (Encode (zone (pool s)) (list_cursor s q (last (take n rows))))\<rparr>
      else \<lparr>Releases = map fst rows, rpNextCursor = []\<rparr>)"

lemma listReleaseRows_rest:
  assumes "reliable s" "rqCursor q \<noteq> [] \<Longrightarrow> Decode (rqCursor q) (rqRef q) (list_path q) = Inr c"
  shows "listReleaseRows s db q (list_path q) (cKey c) (cInfohash c) (rqCursor q \<noteq> []) fetch =
    Inr (take (nat fetch) (list_rest s db q))"
proof -
  have "(\<lambda>kr. \<not> rqCursor q \<noteq> [] \<or> seek_key kr < (ts s (cKey c), cInfohash c)) = after_cursor s q"
    using assms(2) by (cases "rqCursor q = []") (simp_all add: after_cursor_def fun_eq_iff)
  then show ?thesis
    using assms(1) by (simp add: listReleaseRows_def list_rest_def listing_def order_desc_filter)
qed

lemma ListReleases_ok:
  assumes "reliable s" "rqRef q \<noteq> [] \<longrightarrow> ValidateRef (rqRef q) = None" "cursor_ok q"
  shows "ListReleases s db q = Inr (page_of s db q)"
proof -
  obtain c where c: "rqCursor q \<noteq> [] \<Longrightarrow> Decode (rqCursor q) (rqRef q) (list_path q) = Inr c"
      "rqCursor q = [] \<Longrightarrow> c = \<lparr>cRef = [], cPath = 0, cKey = zero_time, cInfohash = []\<rparr>"
    using assms(3) by (cases "rqCursor q = []") (auto simp: cursor_ok_def)
  let ?rows = "list_rest s db q" and ?n = "nat (list_limit q)"
  have n: "nat (list_limit q + 1) = Suc ?n" "int ?n = list_limit q"
    using list_limit_bounds [of q] by (simp_all add: nat_add_distrib)
  have fetched: "listReleaseRows s db q (list_path q) (cKey c) (cInfohash c) (rqCursor q \<noteq> [])
      (list_limit q + 1) = Inr (take (nat (list_limit q + 1)) (list_rest s db q))"
    using assms(1) c(1) by (rule listReleaseRows_rest)
  have more: "int (length (take (Suc ?n) ?rows)) > list_limit q \<longleftrightarrow> ?n < length ?rows"
    using list_limit_bounds(1) [of q] by (auto simp: nat_less_iff)
  obtain enc where enc: "Encode (zone (pool s)) (list_cursor s q (last (take ?n ?rows))) = Inr enc"
    using Encode_ne by blast
  have seek: "(if rqCursor q \<noteq> []
      then map_sum (\<lambda>_. RefError ErrInvalidCursor) Some (Decode (rqCursor q) (rqRef q) (list_path q))
      else Inr None) = Inr (if rqCursor q = [] then None else Some c)"
    using c(1) by simp
  have bounds: "(case (if rqCursor q = [] then None else Some c) of
      None \<Rightarrow> (zero_time, [], False) | Some c \<Rightarrow> (cKey c, cInfohash c, True)) =
      (cKey c, cInfohash c, rqCursor q \<noteq> [])"
    using c(2) by simp
  have "(if rqRef q \<noteq> [] then ValidateRef (rqRef q) else None) = None" using assms(2) by simp
  then show ?thesis
    unfolding ListReleases_def Let_def seek bounds sum.case prod.case fetched n(1) more
    using assms(1) enc by (auto simp: page_of_def Let_def list_cursor_def min_def)
qed

lemma next_page_ok:
  "request_ok (s, db, q) \<Longrightarrow> next_page (s, db, q) = Some (Releases (page_of s db q),
     if rpNextCursor (page_of s db q) = [] then None
     else Some (s, db, q\<lparr>rqCursor := rpNextCursor (page_of s db q)\<rparr>))"
  by (simp add: next_page_def request_ok_def ListReleases_ok listable_def)

lemma listing_cursor [simp]: "listing s db (q\<lparr>rqCursor := c\<rparr>) = listing s db q"
proof -
  have "in_list s (q\<lparr>rqCursor := c\<rparr>) = in_list s q" by (simp add: in_list_def fun_eq_iff)
  then show ?thesis by (simp add: listing_def list_path_def)
qed

lemma list_path_cursor [simp]: "list_path (q\<lparr>rqCursor := c\<rparr>) = list_path q"
  "list_limit (q\<lparr>rqCursor := c\<rparr>) = list_limit q"
  by (simp_all add: list_path_def list_limit_def)

lemma listable_cursor [simp]: "listable s db (q\<lparr>rqCursor := c\<rparr>) = listable s db q"
  by (simp add: listable_def)

lemma list_rest_after:
  assumes "rqCursor q \<noteq> []" "Decode (rqCursor q) (rqRef q) (list_path q) = Inr c"
  shows "list_rest s db q = filter (\<lambda>kr. seek_key kr < (ts s (cKey c), cInfohash c)) (listing s db q)"
  using assms by (auto simp: list_rest_def after_cursor_def intro!: filter_cong)

text \<open>The page after a page, on the same or on another state of the database.\<close>

lemma page_of_next:
  assumes ok: "request_ok (s, db, q)" and more: "rpNextCursor (page_of s db q) \<noteq> []"
  defines "kr \<equiv> last (take (nat (list_limit q)) (list_rest s db q))"
    and "q' \<equiv> q\<lparr>rqCursor := rpNextCursor (page_of s db q)\<rparr>"
  shows "kr \<in> set (list_rest s db q)" "cursor_ok q'" "nat (list_limit q) < length (list_rest s db q)"
    "list_rest s db' q' = filter (\<lambda>x. seek_key x < seek_key kr) (listing s db' q)"
proof -
  let ?rows = "list_rest s db q" and ?n = "nat (list_limit q)"
  have inv: "db_inv db" "listable s db q" using ok by (simp_all add: request_ok_def)
  show len: "?n < length ?rows" using more by (simp add: page_of_def Let_def split: if_splits)
  have "0 < ?n" using list_limit_bounds(1) [of q] by simp
  with len have "take ?n ?rows \<noteq> []" by auto
  from last_in_set [OF this] show kr: "kr \<in> set ?rows" by (auto simp: kr_def dest: in_set_takeD)
  then have listed: "kr \<in> set (listing s db q)" by (simp add: list_rest_def)
  from Encode_list_cursor [OF inv listed] obtain enc
    where enc: "Encode (zone (pool s)) (list_cursor s q kr) = Inr enc" "enc \<noteq> []"
      "Decode enc (rqRef q) (list_path q) = Inr (list_cursor s q kr)" by blast
  then have q': "q' = q\<lparr>rqCursor := enc\<rparr>" using len by (simp add: q'_def page_of_def Let_def kr_def)
  from enc show "cursor_ok q'" by (simp add: q' cursor_ok_def)
  have "ts s (snd kr) = snd kr" using listed inv(2) by (auto simp: listable_def key_ok_def)
  then show "list_rest s db' q' = filter (\<lambda>x. seek_key x < seek_key kr) (listing s db' q)"
    using enc by (subst list_rest_after [where c = "list_cursor s q kr"]) (simp_all add: q' seek_key_def)
qed

lemma after_cursor_mono: "after_cursor s q kr \<Longrightarrow> seek_key x < seek_key kr \<Longrightarrow> after_cursor s q x"
  by (auto simp: after_cursor_def split: sum.splits)

lemma list_rest_next:
  assumes ok: "request_ok (s, db, q)" and more: "rpNextCursor (page_of s db q) \<noteq> []"
  shows "list_rest s db (q\<lparr>rqCursor := rpNextCursor (page_of s db q)\<rparr>) =
    drop (nat (list_limit q)) (list_rest s db q)"
proof -
  let ?rows = "list_rest s db q" and ?n = "nat (list_limit q)"
  let ?kr = "last (take ?n ?rows)"
  note nxt = page_of_next [OF ok more]
  have inv: "db_inv db" using ok by (simp add: request_ok_def)
  have "after_cursor s q ?kr" using nxt(1) by (simp add: list_rest_def)
  then have "filter (\<lambda>x. seek_key x < seek_key ?kr) ?rows =
      filter (\<lambda>x. seek_key x < seek_key ?kr) (listing s db q)"
    unfolding list_rest_def by (intro seek_seek) (rule after_cursor_mono)
  then show ?thesis
    using nxt(3) seek_drop [OF list_rest_sorted [OF inv], of ?n s q] list_limit_bounds(1) [of q]
    by (simp add: nxt(4))
qed

interpretation releases: pager next_page request_ok "\<lambda>(s, db, q). map fst (list_rest s db q)"
  "\<lambda>(s, db, q). nat (list_limit q)"
proof (unfold_locales, goal_cases)
  case (1 r)
  then show ?case by (cases r) (simp add: next_page_ok)
next
  case (2 r xs)
  obtain s db q where r: "r = (s, db, q)" by (cases r)
  from Encode_ne [of "zone (pool s)" "list_cursor s q (last (take (nat (list_limit q)) (list_rest s db q)))"]
  obtain enc where "Encode (zone (pool s)) (list_cursor s q
      (last (take (nat (list_limit q)) (list_rest s db q)))) = Inr enc" "enc \<noteq> []" by blast
  then show ?case
    using 2(2) unfolding r next_page_ok [OF 2(1) [unfolded r]]
    by (auto simp: page_of_def Let_def split: if_splits)
next
  case (3 r xs r')
  obtain s db q where r: "r = (s, db, q)" by (cases r)
  note ok = 3(1) [unfolded r]
  from 3(2) have more: "rpNextCursor (page_of s db q) \<noteq> []"
    and r': "r' = (s, db, q\<lparr>rqCursor := rpNextCursor (page_of s db q)\<rparr>)"
    and xs: "xs = Releases (page_of s db q)"
    by (auto simp: r next_page_ok [OF ok] split: if_splits)
  note nxt = page_of_next [OF ok more]
  have "xs = map fst (take (nat (list_limit q)) (list_rest s db q))"
    using nxt(3) by (simp add: xs page_of_def Let_def)
  moreover have "request_ok r'" using ok nxt(2) by (simp add: r' request_ok_def)
  ultimately show ?case
    using nxt(3) list_limit_bounds(1) [of q]
    by (simp add: r r' list_rest_next [OF ok more] map_append [symmetric] del: map_append)
qed

lemma listing_hashes:
  assumes "db_inv db"
  shows "distinct (map riInfohash (map fst (listing s db q)))"
    "riInfohash ` set (map fst (listing s db q)) =
      r_infohash ` {r \<in> set (releases db). in_list s q (list_path q) r}"
proof -
  have keyed: "riInfohash \<circ> fst \<circ> keyed_row path = r_infohash" for path
    by (simp add: keyed_row_def fun_eq_iff)
  let ?rows = "map (keyed_row (list_path q)) (filter (in_list s q (list_path q)) (releases db))"
  have "distinct (map r_infohash (filter (in_list s q (list_path q)) (releases db)))"
    using assms by (simp add: db_inv_def keys_ok_def distinct_map_filter)
  then have d: "distinct (map (riInfohash \<circ> fst) ?rows)" by (simp add: keyed)
  then have "distinct ?rows" "inj_on (riInfohash \<circ> fst) (set ?rows)" by (simp_all only: distinct_map)
  then show "distinct (map riInfohash (map fst (listing s db q)))"
    by (simp add: listing_def distinct_map comp_inj_on_iff [symmetric] image_comp)
  show "riInfohash ` set (map fst (listing s db q)) =
      r_infohash ` {r \<in> set (releases db). in_list s q (list_path q) r}"
    by (simp add: listing_def image_image keyed_row_def)
qed

lemma list_rest_start: "rqCursor q = [] \<Longrightarrow> list_rest s db q = listing s db q"
  by (simp add: list_rest_def after_cursor_def)

lemma ListReleases_bad:
  "rqRef q \<noteq> [] \<Longrightarrow> ValidateRef (rqRef q) \<noteq> None \<Longrightarrow> ListReleases s db q = Inl (RefError ErrInvalidRef)"
  "(rqRef q \<noteq> [] \<longrightarrow> ValidateRef (rqRef q) = None) \<Longrightarrow> \<not> cursor_ok q \<Longrightarrow>
    ListReleases s db q = Inl (RefError ErrInvalidCursor)"
proof -
  assume "rqRef q \<noteq> []" "ValidateRef (rqRef q) \<noteq> None"
  then show "ListReleases s db q = Inl (RefError ErrInvalidRef)"
    by (simp add: ListReleases_def ValidateRef_def split: if_splits)
next
  assume "rqRef q \<noteq> [] \<longrightarrow> ValidateRef (rqRef q) = None" "\<not> cursor_ok q"
  moreover from this(2) obtain e where "Decode (rqCursor q) (rqRef q) (list_path q) = Inl e" "rqCursor q \<noteq> []"
    by (cases "Decode (rqCursor q) (rqRef q) (list_path q)") (auto simp: cursor_ok_def)
  ultimately show "ListReleases s db q = Inl (RefError ErrInvalidCursor)"
    by (cases "rqRef q = []") (simp_all add: ListReleases_def Let_def)
qed

section \<open>A listing evaluated\<close>

definition sample_hash2 :: string where
  "sample_hash2 = replicate 40 (CHR ''b'')"

definition sample_listed :: database where
  "sample_listed =
     (let db1 = snd (Submit (sample_store 2000) sample_db2 (sample_submit 1 ''matched''));
          db2 = snd (IngestN (sample_store 3000) db1
                  (sample_ingest\<lparr>ipInfohash := sample_hash2, ipSourceID := ''2'', ipPublishedAt := 9000\<rparr>));
          db3 = snd (Claim (sample_store 4000) db2 \<lparr>cpLimit = 1, cpLeaseSeconds = 300\<rparr>)
      in snd (Submit (sample_store 5000) db3 ((sample_submit 1 ''matched'')\<lparr>spInfohash := sample_hash2\<rparr>)))"

definition sample_query :: ReleaseQuery where
  "sample_query = \<lparr>rqRef = ''tvdb:1'', rqSince = None, rqLimit = 1, rqCursor = []\<rparr>"

lemma sample_listed_inv: "db_inv sample_listed"
  unfolding sample_listed_def Let_def
  by (intro db_inv_Submit db_inv_Claim db_inv_IngestN sample_inv)

lemma sample_listing:
  "map (\<lambda>(i, k). (riInfohash i, k)) (listing (sample_store 0) sample_listed sample_query) =
     [(sample_hash2, 9000), (sample_hash, 5000)]"
  by code_simp

lemma sample_request: "request_ok (sample_store 0, sample_listed, sample_query)"
proof -
  have "snd ` set (listing (sample_store 0) sample_listed sample_query) = {9000, 5000}"
    using arg_cong [OF sample_listing, of "\<lambda>xs. snd ` set xs"] by (simp add: image_image case_prod_beta)
  moreover have "local_year 9000 0 = 1970" "local_year 5000 0 = 1970" by code_simp+
  then have "key_ok (sample_store 0) 9000" "key_ok (sample_store 0) 5000"
    by (simp_all add: key_ok_def printable_time_def printable_zone_def ts_def sample_store_def sample_pool_def)
  ultimately have "\<forall>kr \<in> set (listing (sample_store 0) sample_listed sample_query). key_ok (sample_store 0) (snd kr)"
    by (auto dest: equalityD1 [THEN subsetD, OF _ imageI])
  moreover have "utf8_valid ''tvdb:1''" by (intro utf8_valid_ascii) (simp add: byte_of_def)
  moreover have "ValidateRef ''tvdb:1'' = None" by code_simp
  moreover have "reliable (sample_store 0)" by (simp add: reliable_def sample_store_def sample_pool_def)
  ultimately show ?thesis
    by (simp add: request_ok_def sample_listed_inv listable_def cursor_ok_def sample_query_def)
qed

section \<open>Properties\<close>

text \<open>The rows of a query: the matched ones, of its ref if it has one, and matched after its \<open>since\<close>.\<close>

definition wanted :: "Store \<Rightarrow> ReleaseQuery \<Rightarrow> release \<Rightarrow> bool" where
  "wanted s q r \<longleftrightarrow> r_match_status r = Matched \<and> (rqRef q = [] \<or> r_ref r = Some (rqRef q)) \<and>
     (rqSince q = None \<or> (\<exists>since t. rqSince q = Some since \<and> r_first_matched_at r = Some t \<and> ts s since < t))"

lemma in_list_wanted: "in_list s q (list_path q) r \<longleftrightarrow> wanted s q r"
  by (auto simp: in_list_def wanted_def list_path_def PathCatalog_def PathDelta_def split: option.splits)

text \<open>
  C28: paging loses and repeats nothing. Starting without a cursor and following
  \<open>next_cursor\<close>, a client of a working server comes to an end after exactly one sequence of
  pages; put together they are the releases of the query, each once, newest first: the matched ones,
  of its ref if it has one, and matched after its \<open>since\<close> if it has one; every page but the last is
  full.
\<close>

theorem list_releases_pages:
  assumes "reliable s" and "db_inv db" and "listable s db q" and "rqCursor q = []"
  shows "\<exists>ps. paged next_page (s, db, q) ps \<and> (\<forall>ps'. paged next_page (s, db, q) ps' \<longrightarrow> ps' = ps) \<and>
    concat ps = map fst (listing s db q) \<and> distinct (map riInfohash (concat ps)) \<and>
    riInfohash ` set (concat ps) = r_infohash ` {r \<in> set (releases db). wanted s q r} \<and>
    (\<forall>p \<in> set (butlast ps). length p = nat (list_limit q)) \<and> length (last ps) \<le> nat (list_limit q)"
proof -
  have "request_ok (s, db, q)" using assms by (simp add: request_ok_def cursor_ok_def)
  from releases.paged_all [OF this] obtain ps
    where ps: "paged next_page (s, db, q) ps" "concat ps = map fst (listing s db q)"
      "\<forall>p \<in> set (butlast ps). length p = nat (list_limit q)" "length (last ps) \<le> nat (list_limit q)"
    using assms(4) by (auto simp: list_rest_start)
  with listing_hashes [OF assms(2), of s q, unfolded in_list_wanted] show ?thesis
    by (intro exI [of _ ps] conjI allI impI) (auto dest: paged_unique)
qed

theorem list_releases_pages_witness:
  "\<exists>ps. paged next_page (sample_store 0, sample_listed, sample_query) ps \<and>
    map riInfohash (concat ps) = [sample_hash2, sample_hash]"
proof -
  have "map riInfohash (map fst (listing (sample_store 0) sample_listed sample_query)) = [sample_hash2, sample_hash]"
    using arg_cong [OF sample_listing, of "map fst"] by (simp add: comp_def case_prod_beta)
  moreover have "reliable (sample_store 0)" "db_inv sample_listed"
      "listable (sample_store 0) sample_listed sample_query" "rqCursor sample_query = []"
    using sample_request by (simp_all only: request_ok_def prod.case) (simp add: sample_query_def)
  from list_releases_pages [OF this] obtain ps
    where "paged next_page (sample_store 0, sample_listed, sample_query) ps"
      "concat ps = map fst (listing (sample_store 0) sample_listed sample_query)" by blast
  ultimately show ?thesis by (intro exI [of _ ps]) simp
qed

text \<open>
  C29: the result of a listing on a working server. A malformed ref is \<open>ErrInvalidRef\<close>; with
  a good ref a cursor that does not decode for this ref and path is \<open>ErrInvalidCursor\<close>;
  otherwise the first rows after the cursor are returned, at most \<open>limit\<close> (1 to 500, 50 by
  default), with a next cursor exactly when rows are left.
\<close>

theorem list_releases_result:
  assumes "reliable s"
  shows "(rqRef q \<noteq> [] \<and> ValidateRef (rqRef q) \<noteq> None \<longrightarrow>
      ListReleases s db q = Inl (RefError ErrInvalidRef)) \<and>
    ((rqRef q \<noteq> [] \<longrightarrow> ValidateRef (rqRef q) = None) \<and> \<not> cursor_ok q \<longrightarrow>
      ListReleases s db q = Inl (RefError ErrInvalidCursor)) \<and>
    ((rqRef q \<noteq> [] \<longrightarrow> ValidateRef (rqRef q) = None) \<and> cursor_ok q \<longrightarrow>
      (\<exists>page. ListReleases s db q = Inr page \<and>
        Releases page = map fst (take (nat (list_limit q)) (list_rest s db q)) \<and>
        length (Releases page) \<le> 500 \<and>
        (rpNextCursor page \<noteq> [] \<longleftrightarrow> nat (list_limit q) < length (list_rest s db q))))"
proof (intro conjI impI)
  assume good: "(rqRef q \<noteq> [] \<longrightarrow> ValidateRef (rqRef q) = None) \<and> cursor_ok q"
  obtain enc where "Encode (zone (pool s)) (list_cursor s q
      (last (take (nat (list_limit q)) (list_rest s db q)))) = Inr enc" "enc \<noteq> []"
    using Encode_ne by blast
  with good ListReleases_ok [OF assms, of q db] list_limit_bounds [of q]
  show "\<exists>page. ListReleases s db q = Inr page \<and>
      Releases page = map fst (take (nat (list_limit q)) (list_rest s db q)) \<and>
      length (Releases page) \<le> 500 \<and>
      (rpNextCursor page \<noteq> [] \<longleftrightarrow> nat (list_limit q) < length (list_rest s db q))"
    by (intro exI [of _ "page_of s db q"]) (auto simp: page_of_def Let_def)
qed (auto simp: ListReleases_bad)

theorem list_releases_result_witness:
  "ListReleases (sample_store 0) sample_listed (sample_query\<lparr>rqRef := ''1''\<rparr>) =
     Inl (RefError ErrInvalidRef) \<and>
   (\<exists>page. ListReleases (sample_store 0) sample_listed sample_query = Inr page \<and> rpNextCursor page \<noteq> [])"
proof -
  have "length (listing (sample_store 0) sample_listed sample_query) = 2"
    using arg_cong [OF sample_listing, of length] by simp
  then have more: "nat (list_limit sample_query) < length (list_rest (sample_store 0) sample_listed sample_query)"
    by (simp add: list_limit_def list_rest_start sample_query_def maxReleasesLimit_def)
  have bad: "rqRef (sample_query\<lparr>rqRef := ''1''\<rparr>) \<noteq> [] \<and>
      ValidateRef (rqRef (sample_query\<lparr>rqRef := ''1''\<rparr>)) \<noteq> None"
    by code_simp
  have rel: "reliable (sample_store 0)" and good: "(rqRef sample_query \<noteq> [] \<longrightarrow>
      ValidateRef (rqRef sample_query) = None) \<and> cursor_ok sample_query"
    using sample_request by (simp_all add: request_ok_def listable_def)
  note result = list_releases_result [OF rel]
  from result [of _ sample_listed, THEN conjunct1, THEN mp, OF bad]
    result [of sample_query sample_listed, THEN conjunct2, THEN conjunct2, THEN mp, OF good] more
  show ?thesis by blast
qed

text \<open>
  The next page resumes behind the last row, whatever happened in between. On any later
  state of the database the request with the returned cursor yields the rows that sort
  strictly after the last row of the page, so no row is returned under the same sort key twice.
\<close>

lemma list_releases_resume:
  assumes "request_ok (s, db, q)" and "ListReleases s db q = Inr page" and "rpNextCursor page \<noteq> []"
  shows "\<exists>kr page'. Releases page \<noteq> [] \<and> last (Releases page) = fst kr \<and> kr \<in> set (listing s db q) \<and>
    ListReleases s db' (q\<lparr>rqCursor := rpNextCursor page\<rparr>) = Inr page' \<and>
    Releases page' = map fst (take (nat (list_limit q))
      (filter (\<lambda>x. seek_key x < seek_key kr) (listing s db' q)))"
proof -
  let ?n = "nat (list_limit q)"
  have page: "page = page_of s db q"
    using assms(1,2) ListReleases_ok [of s q db] by (simp add: request_ok_def listable_def)
  note nxt = page_of_next [OF assms(1) assms(3) [unfolded page]]
  have n: "0 < ?n" "take ?n (list_rest s db q) \<noteq> []" using list_limit_bounds(1) [of q] nxt(3) by auto
  have rel: "Releases page = map fst (take ?n (list_rest s db q))"
    using nxt(3) by (simp add: page page_of_def Let_def)
  let ?kr = "last (take ?n (list_rest s db q))" and ?q = "q\<lparr>rqCursor := rpNextCursor page\<rparr>"
  have next_ok: "ListReleases s db' ?q = Inr (page_of s db' ?q)"
    using assms(1) nxt(2) by (intro ListReleases_ok) (simp_all add: page request_ok_def listable_def)
  have "Releases (page_of s db' ?q) = map fst (take ?n (list_rest s db' ?q))"
    by (simp add: page_of_def Let_def)
  then show ?thesis
    using rel n nxt(1,4) next_ok
    by (intro exI [of _ ?kr] exI [of _ "page_of s db' ?q"]) (auto simp: page last_map list_rest_def)
qed

end
