(* ===== verification/Seam.thy ===== *)
theory Seam
  imports Store_List
begin

text \<open>
  The interface \<open>store.Store\<close> the services are written against, and the PostgreSQL store as
  its implementation. An interface value is a record of operations over a state; \<open>postgres\<close>
  threads the database through them. Every call meets its own clock reading, failures and row
  locks: \<open>env n\<close> is the store as the \<open>n\<close>-th call finds it.
\<close>

section \<open>Definitions\<close>

record 'st StoreSeam =
  ssPing :: "'st \<Rightarrow> (store_error + unit) \<times> 'st"
  ssIngestN :: "'st \<Rightarrow> IngestParams \<Rightarrow> (store_error + IngestOutcome) \<times> 'st"
  ssClaim :: "'st \<Rightarrow> ClaimParams \<Rightarrow> (store_error + ClaimResult) \<times> 'st"
  ssSubmit :: "'st \<Rightarrow> SubmitParams \<Rightarrow> (store_error + unit) \<times> 'st"
  ssQueueStats :: "'st \<Rightarrow> (store_error + QueueStats) \<times> 'st"
  ssCatalogStats :: "'st \<Rightarrow> (store_error + CatalogStats) \<times> 'st"
  ssListReleases :: "'st \<Rightarrow> ReleaseQuery \<Rightarrow> (store_error + ReleasePage) \<times> 'st"
  ssGetRelease :: "'st \<Rightarrow> string \<Rightarrow> (store_error + ReleaseDetail) \<times> 'st"
  ssResolveMagnets :: "'st \<Rightarrow> string list \<Rightarrow> (store_error + (string \<rightharpoonup> string)) \<times> 'st"

record backend =
  bDb :: database
  bCalls :: nat

definition write_call ::
  "(nat \<Rightarrow> Store) \<Rightarrow> (Store \<Rightarrow> database \<Rightarrow> 'r \<times> database) \<Rightarrow> backend \<Rightarrow> 'r \<times> backend" where
  "write_call env f b =
     (let (r, db) = f (env (bCalls b)) (bDb b) in (r, \<lparr>bDb = db, bCalls = Suc (bCalls b)\<rparr>))"

definition read_call ::
  "(nat \<Rightarrow> Store) \<Rightarrow> (Store \<Rightarrow> database \<Rightarrow> 'r) \<Rightarrow> backend \<Rightarrow> 'r \<times> backend" where
  "read_call env f = write_call env (\<lambda>s db. (f s db, db))"

definition postgres :: "(nat \<Rightarrow> Store) \<Rightarrow> backend StoreSeam" where
  "postgres env =
     \<lparr>ssPing = read_call env (\<lambda>s db. Ping (Some s)),
      ssIngestN = (\<lambda>b p. write_call env (\<lambda>s db. IngestN s db p) b),
      ssClaim = (\<lambda>b p. write_call env (\<lambda>s db. Claim s db p) b),
      ssSubmit = (\<lambda>b p. write_call env (\<lambda>s db. Submit s db p) b),
      ssQueueStats = read_call env QueueStats_op,
      ssCatalogStats = read_call env CatalogStats_op,
      ssListReleases = (\<lambda>b q. read_call env (\<lambda>s db. ListReleases s db q) b),
      ssGetRelease = (\<lambda>b ih. read_call env (\<lambda>s db. GetRelease s db ih) b),
      ssResolveMagnets = (\<lambda>b ihs. read_call env (\<lambda>s db. ResolveMagnets s db ihs) b)\<rparr>"

section \<open>The contract of the interface\<close>

text \<open>
  What the services rely on: every operation moves the state along \<open>rel\<close>, a preorder, and an
  accepted ingest reports exactly one outcome.
\<close>

locale store_seam =
  fixes ops :: "'st StoreSeam" and rel :: "'st \<Rightarrow> 'st \<Rightarrow> bool"
  assumes rel_refl: "rel st st"
    and rel_trans: "rel a b \<Longrightarrow> rel b c \<Longrightarrow> rel a c"
    and rel_Ping: "rel st (snd (ssPing ops st))"
    and rel_IngestN: "rel st (snd (ssIngestN ops st p))"
    and rel_Claim: "rel st (snd (ssClaim ops st cp))"
    and rel_Submit: "rel st (snd (ssSubmit ops st sp))"
    and rel_QueueStats: "rel st (snd (ssQueueStats ops st))"
    and rel_CatalogStats: "rel st (snd (ssCatalogStats ops st))"
    and rel_ListReleases: "rel st (snd (ssListReleases ops st q))"
    and rel_GetRelease: "rel st (snd (ssGetRelease ops st ih))"
    and rel_ResolveMagnets: "rel st (snd (ssResolveMagnets ops st ihs))"
begin

lemmas rel_ops = rel_refl rel_Ping rel_IngestN rel_Claim rel_Submit rel_QueueStats rel_CatalogStats
  rel_ListReleases rel_GetRelease rel_ResolveMagnets

end

definition one_outcome :: "IngestOutcome \<Rightarrow> bool" where
  "one_outcome out \<longleftrightarrow>
     out \<in> {no_outcome\<lparr>oNew := True\<rparr>, no_outcome\<lparr>oUpdated := True\<rparr>,
           no_outcome\<lparr>oDuplicate := True\<rparr>, no_outcome\<lparr>oConflict := True\<rparr>}"

locale ingest_seam = store_seam +
  assumes IngestN_outcome: "ssIngestN ops st p = (Inr out, st') \<Longrightarrow> one_outcome out"

section \<open>The PostgreSQL store keeps the contract\<close>

lemma IngestN_one_outcome: "IngestN s db p = (Inr out, db') \<Longrightarrow> one_outcome out"
  using IngestN_effect [of s db p "Inr out" db'] ingest_outcome_exclusive [of db p]
  by (auto simp: one_outcome_def)

lemma store_step_ops:
  "store_step s db (snd (IngestN s db p))" "store_step s db (snd (Claim s db cp))"
  "store_step s db (snd (Submit s db sp))"
  by (auto intro: store_step.intros prod.collapse [symmetric])

lemma snd_write_call:
  "bDb (snd (write_call env f b)) = snd (f (env (bCalls b)) (bDb b))"
  by (simp add: write_call_def case_prod_beta)

definition store_run :: "backend \<Rightarrow> backend \<Rightarrow> bool" where
  "store_run a b \<longleftrightarrow> runs store_step any_store (bDb a) (bDb b)"

lemma store_run_write:
  "(\<And>s db. store_step s db (snd (f s db))) \<Longrightarrow> store_run b (snd (write_call env f b))"
  unfolding store_run_def snd_write_call by (rule runs_single) auto

lemma store_run_read: "store_run b (snd (read_call env f b))"
  by (simp add: store_run_def read_call_def snd_write_call runs.intros)

interpretation pg: store_seam "postgres env" store_run for env
proof unfold_locales
  show "store_run a c" if "store_run a b" "store_run b c" for a b c
    using that by (auto simp: store_run_def intro: runs_trans)
qed (simp_all add: postgres_def store_run_write store_run_read store_step_ops,
     simp add: store_run_def runs.intros)

interpretation pg: ingest_seam "postgres env" store_run for env
  by unfold_locales
    (auto simp: postgres_def write_call_def IngestN_one_outcome split: prod.splits)

end
