(* ===== verification/Dispatch.thy ===== *)
theory Dispatch
  imports Seam
begin

text \<open>
  The transport-neutral operations of \<open>internal/dispatch/dispatch.go\<close>: every typed operation
  of the \<open>Dispatcher\<close> over the store interface, the wire types with their printed times, and
  the closed taxonomy of error codes \<open>WireCode\<close>. \<open>loc\<close> is the zone offset of the local zone,
  in which the driver returns times.
\<close>

section \<open>Definitions\<close>

datatype invalid_input =
    InvalidInputStatus string
  | InvalidInputInfohash string infohash_error

datatype dispatch_error =
    StoreError store_error
  | ErrInvalidInput invalid_input

record 'st Dispatcher =
  dStore :: "'st StoreSeam"

definition New :: "'st StoreSeam \<Rightarrow> 'st Dispatcher" where
  "New s = \<lparr>dStore = s\<rparr>"

record ClaimRequest =
  crqLimit :: int
  crqLeaseSeconds :: int

record RawItemResult =
  rrID :: int
  rrSource :: string
  rrSourceID :: string
  rrTitle :: string
  rrURL :: string
  rrPublishedAt :: string

record ClaimItemResult =
  cirInfohash :: string
  cirClaimToken :: int
  cirAttemptCount :: int
  cirLeaseExpiresAt :: string
  cirRawItems :: "RawItemResult list"

record ClaimReply =
  crpItems :: "ClaimItemResult list"

record SubmitRequest =
  srInfohash :: string
  srClaimToken :: int
  srStatus :: string
  srRef :: string
  srConfidence :: "float64 option"
  srReason :: string

record QueueStatsResult =
  qrAvailable :: nat
  qrLeased :: nat
  qrUnmatched :: nat
  qrMatched :: nat
  qrSuppressed :: nat
  qrExhausted :: nat

record ListReleasesRequest =
  lrRef :: string
  lrSince :: "time option"
  lrLimit :: int
  lrCursor :: string

record ReleaseItemResult =
  irInfohash :: string
  irRef :: string
  irTitle :: string
  irSizeBytes :: int
  irPublishedAt :: string
  irConfidence :: float64
  irSources :: "string list"

record ListReleasesResult =
  llReleases :: "ReleaseItemResult list"
  llNextCursor :: "string option"

record GetReleaseRequest =
  grInfohash :: string

record RawItemDetailResult =
  idID :: int
  idSource :: string
  idSourceID :: string
  idTitle :: string
  idURL :: "string option"
  idPublishedAt :: string
  idIngestedAt :: string

record MatchEventItemResult =
  meID :: int
  meStatus :: string
  meRef :: "string option"
  meConfidence :: "float64 option"
  meReason :: "string option"
  meCreatedAt :: string

record GetReleaseResult =
  gdInfohash :: string
  gdTitle :: string
  gdMagnet :: "string option"
  gdSizeBytes :: "int option"
  gdPublishedAt :: string
  gdSources :: "string list"
  gdMatchStatus :: string
  gdRef :: "string option"
  gdConfidence :: "float64 option"
  gdFirstMatchedAt :: "string option"
  gdAttemptCount :: int
  gdCreatedAt :: string
  gdUpdatedAt :: string
  gdRawItems :: "RawItemDetailResult list"
  gdMatchEvents :: "MatchEventItemResult list"

record ResolveMagnetsRequest =
  rmInfohashes :: "string list"

record ResolveMagnetsResult =
  rmMagnets :: "string \<rightharpoonup> string"

text \<open>\<open>t.Format(time.RFC3339Nano)\<close> of a time the driver returned.\<close>

definition rfc3339 :: "(time \<Rightarrow> int) \<Rightarrow> time \<Rightarrow> string" where
  "rfc3339 loc t = format_rfc3339nano t (loc t)"

definition timeStringPtr :: "(time \<Rightarrow> int) \<Rightarrow> time option \<Rightarrow> string option" where
  "timeStringPtr loc t = (case t of None \<Rightarrow> None | Some t \<Rightarrow> Some (rfc3339 loc t))"

definition raw_item_result :: "(time \<Rightarrow> int) \<Rightarrow> RawItemDetail \<Rightarrow> RawItemResult" where
  "raw_item_result loc ri =
     \<lparr>rrID = rdID ri, rrSource = rdSource ri, rrSourceID = rdSourceID ri, rrTitle = rdTitle ri,
      rrURL = (case rdURL ri of None \<Rightarrow> [] | Some u \<Rightarrow> u),
      rrPublishedAt = rfc3339 loc (rdPublishedAt ri)\<rparr>"

definition claim_item_result :: "(time \<Rightarrow> int) \<Rightarrow> ClaimedRelease \<Rightarrow> ClaimItemResult" where
  "claim_item_result loc it =
     \<lparr>cirInfohash = clInfohash it, cirClaimToken = clClaimToken it,
      cirAttemptCount = clAttemptCount it, cirLeaseExpiresAt = rfc3339 loc (clLeaseExpires it),
      cirRawItems = map (raw_item_result loc) (clRawItems it)\<rparr>"

definition ClaimTyped ::
  "(time \<Rightarrow> int) \<Rightarrow> 'st Dispatcher \<Rightarrow> 'st \<Rightarrow> ClaimRequest \<Rightarrow> (dispatch_error + ClaimReply) \<times> 'st" where
  "ClaimTyped loc d st req =
     (case ssClaim (dStore d) st \<lparr>cpLimit = crqLimit req, cpLeaseSeconds = crqLeaseSeconds req\<rparr> of
        (Inl err, st') \<Rightarrow> (Inl (StoreError err), st')
      | (Inr res, st') \<Rightarrow> (Inr \<lparr>crpItems = map (claim_item_result loc) (Items res)\<rparr>, st'))"

definition SubmitTyped ::
  "'st Dispatcher \<Rightarrow> 'st \<Rightarrow> SubmitRequest \<Rightarrow> (dispatch_error + unit) \<times> 'st" where
  "SubmitTyped d st req =
     (if srStatus req \<notin> {''matched'', ''unmatched'', ''suppressed''}
      then (Inl (ErrInvalidInput (InvalidInputStatus (srStatus req))), st)
      else case ssSubmit (dStore d) st
             \<lparr>spInfohash = srInfohash req, spClaimToken = srClaimToken req, spStatus = srStatus req,
              spRef = srRef req, spConfidence = srConfidence req, spReason = srReason req\<rparr> of
        (Inl err, st') \<Rightarrow> (Inl (StoreError err), st')
      | (Inr _, st') \<Rightarrow> (Inr (), st'))"

definition QueueStatsTyped :: "'st Dispatcher \<Rightarrow> 'st \<Rightarrow> (dispatch_error + QueueStatsResult) \<times> 'st" where
  "QueueStatsTyped d st =
     (case ssQueueStats (dStore d) st of
        (Inl err, st') \<Rightarrow> (Inl (StoreError err), st')
      | (Inr qs, st') \<Rightarrow> (Inr
          \<lparr>qrAvailable = qsAvailable qs, qrLeased = qsLeased qs, qrUnmatched = qsUnmatched qs,
           qrMatched = qsMatched qs, qrSuppressed = qsSuppressed qs, qrExhausted = qsExhausted qs\<rparr>, st'))"

definition release_item_result :: "(time \<Rightarrow> int) \<Rightarrow> ReleaseItem \<Rightarrow> ReleaseItemResult" where
  "release_item_result loc r =
     \<lparr>irInfohash = riInfohash r, irRef = riRef r, irTitle = riTitle r, irSizeBytes = riSizeBytes r,
      irPublishedAt = rfc3339 loc (riPublishedAt r), irConfidence = riConfidence r,
      irSources = riSources r\<rparr>"

definition ListReleasesTyped ::
  "(time \<Rightarrow> int) \<Rightarrow> 'st Dispatcher \<Rightarrow> 'st \<Rightarrow> ListReleasesRequest \<Rightarrow>
   (dispatch_error + ListReleasesResult) \<times> 'st" where
  "ListReleasesTyped loc d st req =
     (case ssListReleases (dStore d) st
             \<lparr>rqRef = lrRef req, rqSince = lrSince req, rqLimit = lrLimit req, rqCursor = lrCursor req\<rparr> of
        (Inl err, st') \<Rightarrow> (Inl (StoreError err), st')
      | (Inr page, st') \<Rightarrow> (Inr
          \<lparr>llReleases = map (release_item_result loc) (Releases page),
           llNextCursor = (if rpNextCursor page \<noteq> [] then Some (rpNextCursor page) else None)\<rparr>, st'))"

definition raw_item_detail_result :: "(time \<Rightarrow> int) \<Rightarrow> RawItemDetail \<Rightarrow> RawItemDetailResult" where
  "raw_item_detail_result loc item =
     \<lparr>idID = rdID item, idSource = rdSource item, idSourceID = rdSourceID item,
      idTitle = rdTitle item, idURL = rdURL item, idPublishedAt = rfc3339 loc (rdPublishedAt item),
      idIngestedAt = rfc3339 loc (rdIngestedAt item)\<rparr>"

definition match_event_result :: "(time \<Rightarrow> int) \<Rightarrow> MatchEventDetail \<Rightarrow> MatchEventItemResult" where
  "match_event_result loc ev =
     \<lparr>meID = mdID ev, meStatus = mdStatus ev, meRef = mdRef ev, meConfidence = mdConfidence ev,
      meReason = mdReason ev, meCreatedAt = rfc3339 loc (mdCreatedAt ev)\<rparr>"

definition release_result :: "(time \<Rightarrow> int) \<Rightarrow> ReleaseDetail \<Rightarrow> GetReleaseResult" where
  "release_result loc detail =
     \<lparr>gdInfohash = dInfohash detail, gdTitle = dTitle detail, gdMagnet = dMagnet detail,
      gdSizeBytes = dSizeBytes detail, gdPublishedAt = rfc3339 loc (dPublishedAt detail),
      gdSources = dSources detail, gdMatchStatus = dMatchStatus detail, gdRef = dRef detail,
      gdConfidence = dConfidence detail, gdFirstMatchedAt = timeStringPtr loc (dFirstMatchedAt detail),
      gdAttemptCount = dAttemptCount detail, gdCreatedAt = rfc3339 loc (dCreatedAt detail),
      gdUpdatedAt = rfc3339 loc (dUpdatedAt detail),
      gdRawItems = map (raw_item_detail_result loc) (dRawItems detail),
      gdMatchEvents = map (match_event_result loc) (dMatchEvents detail)\<rparr>"

definition GetReleaseTyped ::
  "(time \<Rightarrow> int) \<Rightarrow> 'st Dispatcher \<Rightarrow> 'st \<Rightarrow> GetReleaseRequest \<Rightarrow>
   (dispatch_error + GetReleaseResult) \<times> 'st" where
  "GetReleaseTyped loc d st req =
     (case NormalizeInfohash (grInfohash req) of
        Inl err \<Rightarrow> (Inl (ErrInvalidInput (InvalidInputInfohash (grInfohash req) err)), st)
      | Inr ih \<Rightarrow>
          (case ssGetRelease (dStore d) st ih of
             (Inl err, st') \<Rightarrow> (Inl (StoreError err), st')
           | (Inr detail, st') \<Rightarrow> (Inr (release_result loc detail), st')))"

definition ResolveMagnetsTyped ::
  "'st Dispatcher \<Rightarrow> 'st \<Rightarrow> ResolveMagnetsRequest \<Rightarrow> (dispatch_error + ResolveMagnetsResult) \<times> 'st" where
  "ResolveMagnetsTyped d st req =
     (case ssResolveMagnets (dStore d) st (rmInfohashes req) of
        (Inl err, st') \<Rightarrow> (Inl (StoreError err), st')
      | (Inr magnets, st') \<Rightarrow> (Inr \<lparr>rmMagnets = magnets\<rparr>, st'))"

fun WireCode :: "dispatch_error \<Rightarrow> string" where
  "WireCode (StoreError (ErrNoSuchRelease _)) = ''no_such_release''"
| "WireCode (StoreError (ErrNoActiveLease _)) = ''no_active_lease''"
| "WireCode (StoreError (ErrStaleLease _)) = ''stale_lease''"
| "WireCode (StoreError (RefError ErrInvalidRef)) = ''invalid_ref''"
| "WireCode (StoreError (RefError ErrInvalidCursor)) = ''invalid_cursor''"
| "WireCode (ErrInvalidInput _) = ''invalid_input''"
| "WireCode (StoreError _) = ''''"

section \<open>Lemmas\<close>

named_theorems typed_defs "definitions of the typed operations"

lemmas [typed_defs] = ClaimTyped_def SubmitTyped_def QueueStatsTyped_def ListReleasesTyped_def
  GetReleaseTyped_def ResolveMagnetsTyped_def New_def

text \<open>Every typed operation moves the store along its contract.\<close>

lemma snd_result [simp]:
  "snd (case x of (Inl e, st) \<Rightarrow> (f e, st) | (Inr v, st) \<Rightarrow> (g v, st)) = snd x"
  by (cases x; cases "fst x") auto

context store_seam
begin

lemma rel_ClaimTyped: "rel st (snd (ClaimTyped loc (New ops) st req))"
  by (simp add: typed_defs rel_Claim)

lemma rel_SubmitTyped: "rel st (snd (SubmitTyped (New ops) st req))"
  by (simp add: typed_defs rel_Submit rel_refl)

lemma rel_QueueStatsTyped: "rel st (snd (QueueStatsTyped (New ops) st))"
  by (simp add: typed_defs rel_QueueStats)

lemma rel_ListReleasesTyped: "rel st (snd (ListReleasesTyped loc (New ops) st req))"
  by (simp add: typed_defs rel_ListReleases)

lemma rel_GetReleaseTyped: "rel st (snd (GetReleaseTyped loc (New ops) st req))"
  by (simp add: typed_defs rel_GetRelease rel_refl split: sum.split)

lemma rel_ResolveMagnetsTyped: "rel st (snd (ResolveMagnetsTyped (New ops) st req))"
  by (simp add: typed_defs rel_ResolveMagnets)

lemmas rel_typed = rel_ClaimTyped rel_SubmitTyped rel_QueueStatsTyped rel_ListReleasesTyped
  rel_GetReleaseTyped rel_ResolveMagnetsTyped

end

lemma WireCode_range:
  "WireCode e \<in> {'''', ''no_such_release'', ''no_active_lease'', ''stale_lease'', ''invalid_ref'',
     ''invalid_cursor'', ''invalid_input''}"
  by (cases e rule: WireCode.cases) simp_all

lemma rfc3339_parse: "printable_time t (loc t) \<Longrightarrow> parse_rfc3339nano (rfc3339 loc t) = Some t"
  by (simp add: rfc3339_def parse_format_rfc3339nano)

end
