(* ===== verification/Rawpost.thy ===== *)
theory Rawpost
  imports Takuhai_Prelude
begin

text \<open>
  The shared wire types of \<open>pkg/rawpost/rawpost.go\<close>: the post a crawler emits and
  \<open>POST /ingest\<close> accepts, and the summary \<open>POST /ingest\<close> answers with.
\<close>

definition SourceDMHY :: string where "SourceDMHY = ''dmhy''"
definition SourceNyaa :: string where "SourceNyaa = ''nyaa''"

record RawPost =
  rpTitle :: string
  rpMagnet :: string
  rpSource :: string
  rpSourceID :: string
  rpURL :: string
  rpPublishedAt :: time
  rpSizeBytes :: int

record WireQueueStats =
  wqAvailable :: int
  wqLeased :: int
  wqExhausted :: int

record IngestBatch =
  ibNew :: int
  ibUpdated :: int
  ibDuplicate :: int
  ibConflict :: int
  ibSkipped :: int

record IngestSummary =
  isBatch :: IngestBatch
  isQueue :: WireQueueStats

end
