(* ===== verification/Metrics.thy ===== *)
theory Metrics
  imports Seam Rawpost "HOL-Library.Multiset"
begin

text \<open>
  The metrics of \<open>internal/metrics/metrics.go\<close>. The Prometheus client is not part of the
  program: what the program does with it is the list of samples it records, each naming the
  metric, its label values and an amount. \<open>takuhai_metrics\<close> and \<open>crawler_metrics\<close> are the
  metrics as they are registered, by kind, full name and label names (help texts and bucket
  bounds are left out). The client panics on a duplicate name, on a wrong number of label
  values, on a negative increment, and on a label value that is not UTF-8; \<open>accepted\<close> is the
  absence of the second and the third. The last is left out: the values that are not constants of
  the code are methods, which \<open>net/http\<close> lets through only as ASCII tokens, and sources, which
  \<open>encoding/json\<close> has made UTF-8.
\<close>

section \<open>Definitions\<close>

datatype metric =
    HttpRequests | HttpDuration
  | IngestBatches | IngestPosts | IngestBatchSize
  | QueueClaims | QueueClaimedItems | QueueClaimBatchSize
  | Submits | SubmitConfidence
  | McpToolCalls | McpToolDuration | McpResolveInfohashes
  | CrawlRequests | CrawlDuration | CrawlPages | CrawlPosts | CrawlPostsPerReq
  | FetchRequests | FetchDuration | ParsePostsTotal

datatype metric_kind = Counter | Histogram

record desc =
  mKind :: metric_kind
  mNamespace :: string
  mSubsystem :: string
  mName :: string
  mLabels :: "string list"

datatype observation = OCount int | OSeconds duration | OFloat float64

datatype sample =
    Add metric "string list" int
  | Observe metric "string list" observation

abbreviation Inc :: "metric \<Rightarrow> string list \<Rightarrow> sample" where
  "Inc m ls \<equiv> Add m ls 1"

definition full_name :: "desc \<Rightarrow> string" where
  "full_name d = mNamespace d @ ''_'' @ mSubsystem d @ ''_'' @ mName d"

subsection \<open>HTTP\<close>

type_synonym routes = "(string \<times> string) list"

record HTTP =
  hRoutes :: routes

definition http_metrics :: "string \<Rightarrow> (metric \<times> desc) list" where
  "http_metrics ns =
     [(HttpRequests, \<lparr>mKind = Counter, mNamespace = ns, mSubsystem = ''http'', mName = ''requests_total'',
                      mLabels = [''method'', ''path'', ''status'']\<rparr>),
      (HttpDuration, \<lparr>mKind = Histogram, mNamespace = ns, mSubsystem = ''http'',
                      mName = ''request_duration_seconds'', mLabels = [''method'', ''path'']\<rparr>)]"

text \<open>
  \<open>HTTP.route\<close>. The map of routes is ranged over in an unspecified order; the list is one such
  order.
\<close>

definition route :: "routes \<Rightarrow> string \<Rightarrow> string" where
  "route rs path =
     (case map_of rs path of
        Some r \<Rightarrow> r
      | None \<Rightarrow>
          (case find (\<lambda>(p, r). suffix ''/'' p \<and> prefix p path) rs of
             Some (p, r) \<Rightarrow> r
           | None \<Rightarrow> ''other''))"

text \<open>\<open>HTTP.Wrap\<close>: what is recorded of a request after it was served with status \<open>code\<close>.\<close>

definition http_wrap :: "HTTP \<Rightarrow> string \<Rightarrow> string \<Rightarrow> int \<Rightarrow> duration \<Rightarrow> sample list" where
  "http_wrap m meth url_path code dur =
     (let path = route (hRoutes m) url_path
      in [Inc HttpRequests [meth, path, itoa code]] @
         (if meth \<noteq> ''GET'' \<or> path \<noteq> ''/mcp''
          then [Observe HttpDuration [meth, path] (OSeconds dur)] else []))"

subsection \<open>The service\<close>

record Takuhai =
  tHTTP :: HTTP

definition takuhai_routes :: routes where
  "takuhai_routes =
     [(''/healthz'', ''/healthz''), (''/ingest'', ''/ingest''),
      (''/magnets/'', ''/magnets/{infohash}''), (''/releases/'', ''/releases/{infohash}''),
      (''/mcp'', ''/mcp''), (''/metrics'', ''/metrics''), (''/queue/claim'', ''/queue/claim''),
      (''/queue/stats'', ''/queue/stats''), (''/submit'', ''/submit'')]"

definition takuhai_desc :: "metric_kind \<Rightarrow> string \<Rightarrow> string \<Rightarrow> string list \<Rightarrow> desc" where
  "takuhai_desc k sub name labels =
     \<lparr>mKind = k, mNamespace = ''takuhai'', mSubsystem = sub, mName = name, mLabels = labels\<rparr>"

definition takuhai_metrics :: "(metric \<times> desc) list" where
  "takuhai_metrics = http_metrics ''takuhai'' @
     [(IngestBatches, takuhai_desc Counter ''ingest'' ''batches_total'' [''result'']),
      (IngestPosts, takuhai_desc Counter ''ingest'' ''posts_total'' [''source'', ''result'']),
      (IngestBatchSize, takuhai_desc Histogram ''ingest'' ''batch_size'' []),
      (QueueClaims, takuhai_desc Counter ''queue'' ''claims_total'' [''result'']),
      (QueueClaimedItems, takuhai_desc Counter ''queue'' ''claimed_items_total'' []),
      (QueueClaimBatchSize, takuhai_desc Histogram ''queue'' ''claim_batch_size'' []),
      (Submits, takuhai_desc Counter ''submit'' ''total'' [''status'', ''result'']),
      (SubmitConfidence, takuhai_desc Histogram ''submit'' ''confidence'' [''status'']),
      (McpToolCalls, takuhai_desc Counter ''mcp'' ''tool_calls_total'' [''tool'', ''result'']),
      (McpToolDuration, takuhai_desc Histogram ''mcp'' ''tool_duration_seconds'' [''tool'']),
      (McpResolveInfohashes, takuhai_desc Counter ''mcp'' ''resolve_magnets_infohashes_total'' [''result''])]"

definition Sources :: "string list" where
  "Sources = [SourceDMHY, SourceNyaa]"

definition ingest_results :: "string list" where
  "ingest_results = [''new'', ''updated'', ''duplicate'', ''conflict'', ''skipped'', ''error'']"

definition NewTakuhai :: "Takuhai \<times> sample list" where
  "NewTakuhai =
     (\<lparr>tHTTP = \<lparr>hRoutes = takuhai_routes\<rparr>\<rparr>,
      concat (map (\<lambda>source. map (\<lambda>result. Add IngestPosts [source, result] 0) ingest_results) Sources))"

text \<open>The recording methods. A nil receiver records nothing.\<close>

definition m_IngestBatch :: "Takuhai option \<Rightarrow> nat \<Rightarrow> string \<Rightarrow> sample list" where
  "m_IngestBatch m n result =
     (if m = None then []
      else [Inc IngestBatches [result], Observe IngestBatchSize [] (OCount (int n))])"

definition m_IngestPost :: "Takuhai option \<Rightarrow> string \<Rightarrow> string \<Rightarrow> sample list" where
  "m_IngestPost m source result =
     (if m = None then []
      else [Inc IngestPosts [if source = [] then ''unknown'' else source, result]])"

definition m_QueueClaim :: "Takuhai option \<Rightarrow> nat \<Rightarrow> string \<Rightarrow> sample list" where
  "m_QueueClaim m n result =
     (if m = None then []
      else [Inc QueueClaims [result]] @
           (if n > 0
            then [Add QueueClaimedItems [] (int n), Observe QueueClaimBatchSize [] (OCount (int n))]
            else []))"

definition submitStatus :: "string \<Rightarrow> string" where
  "submitStatus status =
     (if status \<in> {''matched'', ''unmatched'', ''suppressed''} then status else ''invalid'')"

definition m_Submit :: "Takuhai option \<Rightarrow> string \<Rightarrow> string \<Rightarrow> float64 option \<Rightarrow> sample list" where
  "m_Submit m status0 result confidence =
     (if m = None then []
      else
        (let status = submitStatus status0
         in [Inc Submits [status, result]] @
            (case confidence of
               Some c \<Rightarrow>
                 if result = ''ok'' \<and> (status = ''matched'' \<or> status = ''suppressed'')
                 then [Observe SubmitConfidence [status] (OFloat c)] else []
             | None \<Rightarrow> [])))"

definition m_MCPTool :: "Takuhai option \<Rightarrow> string \<Rightarrow> string \<Rightarrow> duration \<Rightarrow> sample list" where
  "m_MCPTool m tool result dur =
     (if m = None then []
      else [Inc McpToolCalls [tool, result], Observe McpToolDuration [tool] (OSeconds dur)])"

definition m_MCPResolveMagnets :: "Takuhai option \<Rightarrow> int \<Rightarrow> int \<Rightarrow> sample list" where
  "m_MCPResolveMagnets m hits missed_n =
     (if m = None then []
      else (if hits > 0 then [Add McpResolveInfohashes [''hit''] hits] else []) @
           (if missed_n > 0 then [Add McpResolveInfohashes [''miss''] missed_n] else []))"

subsection \<open>The collector of queue and catalog gauges\<close>

datatype gauge = Gauge string "string list" int

record gauge_desc =
  gName :: string
  gLabels :: "string list"

definition queueItemsDesc :: gauge_desc where
  "queueItemsDesc = \<lparr>gName = ''takuhai_queue_items'', gLabels = [''state'']\<rparr>"

definition queueStatsScrapeOKDesc :: gauge_desc where
  "queueStatsScrapeOKDesc = \<lparr>gName = ''takuhai_queue_stats_scrape_ok'', gLabels = []\<rparr>"

definition catalogRawPostsDesc :: gauge_desc where
  "catalogRawPostsDesc = \<lparr>gName = ''takuhai_catalog_raw_posts'', gLabels = []\<rparr>"

definition catalogInfohashesDesc :: gauge_desc where
  "catalogInfohashesDesc = \<lparr>gName = ''takuhai_catalog_infohashes'', gLabels = []\<rparr>"

definition catalogRefsDesc :: gauge_desc where
  "catalogRefsDesc = \<lparr>gName = ''takuhai_catalog_refs'', gLabels = []\<rparr>"

definition catalogStatsScrapeOKDesc :: gauge_desc where
  "catalogStatsScrapeOKDesc = \<lparr>gName = ''takuhai_catalog_stats_scrape_ok'', gLabels = []\<rparr>"

definition Describe :: "gauge_desc list" where
  "Describe =
     [queueItemsDesc, queueStatsScrapeOKDesc, catalogRawPostsDesc, catalogInfohashesDesc, catalogRefsDesc,
      catalogStatsScrapeOKDesc]"

text \<open>\<open>MustNewConstMetric\<close>; it panics when the number of label values is not that of the labels.\<close>

definition const_metric :: "gauge_desc \<Rightarrow> int \<Rightarrow> string list \<Rightarrow> gauge" where
  "const_metric d v ls = Gauge (gName d) ls v"

definition registerBuildInfo :: "string \<Rightarrow> string \<Rightarrow> string \<Rightarrow> gauge_desc \<times> gauge" where
  "registerBuildInfo ns version commit =
     (let d = \<lparr>gName = ns @ ''_build_info'', gLabels = [''version'', ''commit'']\<rparr>
      in (d, const_metric d 1 [version, commit]))"

definition Collect :: "'st StoreSeam \<Rightarrow> 'st \<Rightarrow> gauge list \<times> 'st" where
  "Collect ops st =
     (let (cs, st1) = ssCatalogStats ops st;
          catalog = (case cs of
              Inl _ \<Rightarrow> [const_metric catalogStatsScrapeOKDesc 0 []]
            | Inr c \<Rightarrow> [const_metric catalogStatsScrapeOKDesc 1 [],
                        const_metric catalogRawPostsDesc (int (csRawPosts c)) [],
                        const_metric catalogInfohashesDesc (int (csInfohashes c)) [],
                        const_metric catalogRefsDesc (int (csRefs c)) []]);
          (qs, st2) = ssQueueStats ops st1
      in case qs of
           Inl _ \<Rightarrow> (catalog @ [const_metric queueStatsScrapeOKDesc 0 []], st2)
         | Inr q \<Rightarrow>
             (catalog @ [const_metric queueStatsScrapeOKDesc 1 []] @
              map (\<lambda>(state, v). const_metric queueItemsDesc (int v) [state])
                [(''claimable'', qsAvailable q), (''leased'', qsLeased q),
                 (''unmatched'', qsUnmatched q), (''matched'', qsMatched q),
                 (''suppressed'', qsSuppressed q), (''exhausted'', qsExhausted q)], st2))"

subsection \<open>The crawlers\<close>

record CrawlerMetrics =
  cmHTTP :: HTTP

definition crawler_routes :: routes where
  "crawler_routes = [(''/crawl'', ''/crawl''), (''/metrics'', ''/metrics'')]"

definition crawler_desc :: "string \<Rightarrow> metric_kind \<Rightarrow> string \<Rightarrow> string \<Rightarrow> string list \<Rightarrow> desc" where
  "crawler_desc ns k sub name labels =
     \<lparr>mKind = k, mNamespace = ns, mSubsystem = sub, mName = name, mLabels = labels\<rparr>"

definition crawler_metrics :: "string \<Rightarrow> (metric \<times> desc) list" where
  "crawler_metrics ns = http_metrics ns @
     [(CrawlRequests, crawler_desc ns Counter ''crawl'' ''requests_total'' [''result'']),
      (CrawlDuration, crawler_desc ns Histogram ''crawl'' ''duration_seconds'' []),
      (CrawlPages, crawler_desc ns Counter ''crawl'' ''pages_fetched_total'' []),
      (CrawlPosts, crawler_desc ns Counter ''crawl'' ''posts_returned_total'' []),
      (CrawlPostsPerReq, crawler_desc ns Histogram ''crawl'' ''posts_per_request'' []),
      (FetchRequests, crawler_desc ns Counter ''fetch'' ''requests_total'' [''result'']),
      (FetchDuration, crawler_desc ns Histogram ''fetch'' ''duration_seconds'' []),
      (ParsePostsTotal, crawler_desc ns Counter ''parse'' ''posts_total'' [''result''])]"

definition NewCrawlerMetrics :: CrawlerMetrics where
  "NewCrawlerMetrics = \<lparr>cmHTTP = \<lparr>hRoutes = crawler_routes\<rparr>\<rparr>"

definition m_Crawl :: "CrawlerMetrics option \<Rightarrow> string \<Rightarrow> nat \<Rightarrow> duration \<Rightarrow> sample list" where
  "m_Crawl m result posts dur =
     (if m = None then []
      else [Inc CrawlRequests [result], Observe CrawlDuration [] (OSeconds dur),
            Observe CrawlPostsPerReq [] (OCount (int posts))] @
           (if posts > 0 then [Add CrawlPosts [] (int posts)] else []))"

definition m_Fetch :: "CrawlerMetrics option \<Rightarrow> string \<Rightarrow> duration \<Rightarrow> sample list" where
  "m_Fetch m result dur =
     (if m = None then []
      else [Inc FetchRequests [result], Observe FetchDuration [] (OSeconds dur)] @
           (if result = ''ok'' then [Inc CrawlPages []] else []))"

definition m_ParsePosts :: "CrawlerMetrics option \<Rightarrow> string \<Rightarrow> nat \<Rightarrow> sample list" where
  "m_ParsePosts m result posts =
     (if m = None then [] else if posts > 0 then [Add ParsePostsTotal [result] (int posts)] else [])"

subsection \<open>Reading samples\<close>

text \<open>A sample that has the kind, the number of labels and the sign its registered metric requires.\<close>

fun accepted :: "(metric \<times> desc) list \<Rightarrow> sample \<Rightarrow> bool" where
  "accepted ms (Add m ls n) =
     (case map_of ms m of
        None \<Rightarrow> False
      | Some d \<Rightarrow> mKind d = Counter \<and> length ls = length (mLabels d) \<and> 0 \<le> n)"
| "accepted ms (Observe m ls v) =
     (case map_of ms m of
        None \<Rightarrow> False
      | Some d \<Rightarrow> mKind d = Histogram \<and> length ls = length (mLabels d))"

text \<open>The value of a counter, summed over the series whose labels satisfy \<open>P\<close>.\<close>

fun increment :: "metric \<Rightarrow> (string list \<Rightarrow> bool) \<Rightarrow> sample \<Rightarrow> int" where
  "increment m P (Add m' ls n) = (if m' = m \<and> P ls then n else 0)"
| "increment m P (Observe m' ls v) = 0"

definition counted :: "metric \<Rightarrow> (string list \<Rightarrow> bool) \<Rightarrow> sample list \<Rightarrow> int" where
  "counted m P xs = sum_list (map (increment m P) xs)"

text \<open>
  A scrape the registry takes: every gauge is one of the described ones, with its labels, and no
  series is collected twice.
\<close>

fun described :: "gauge_desc list \<Rightarrow> gauge \<Rightarrow> bool" where
  "described ds (Gauge name ls v) = list_ex (\<lambda>d. gName d = name \<and> length (gLabels d) = length ls) ds"

fun series :: "gauge \<Rightarrow> string \<times> string list" where
  "series (Gauge name ls v) = (name, ls)"

definition scrape_ok :: "gauge list \<Rightarrow> bool" where
  "scrape_ok gs \<longleftrightarrow> list_all (described Describe) gs \<and> distinct (map series gs)"

section \<open>Lemmas\<close>

named_theorems metric_defs "definitions of the recording methods"

lemmas [metric_defs] = m_IngestBatch_def m_IngestPost_def m_QueueClaim_def m_Submit_def m_MCPTool_def
  m_MCPResolveMagnets_def m_Crawl_def m_Fetch_def m_ParsePosts_def

lemma counted_simps [simp]:
  "counted m P [] = 0" "counted m P (x # xs) = increment m P x + counted m P xs"
  "counted m P (xs @ ys) = counted m P xs + counted m P ys"
  by (simp_all add: counted_def)

lemma takuhai_names: "distinct (map fst takuhai_metrics)" "distinct (map (full_name \<circ> snd) takuhai_metrics)"
  by code_simp+

lemma crawler_names:
  "distinct (map fst (crawler_metrics ns))" "distinct (map (full_name \<circ> snd) (crawler_metrics ns))"
  by (simp_all add: crawler_metrics_def http_metrics_def crawler_desc_def full_name_def)

lemma map_of_takuhai:
  "map_of takuhai_metrics m = Some d \<longleftrightarrow> (m, d) \<in> set takuhai_metrics"
  using takuhai_names(1) by simp

lemmas takuhai_metric_simps = takuhai_metrics_def http_metrics_def takuhai_desc_def
lemmas crawler_metric_simps = crawler_metrics_def http_metrics_def crawler_desc_def

lemma takuhai_samples_accepted:
  "list_all (accepted takuhai_metrics) (m_IngestBatch m n res)"
  "list_all (accepted takuhai_metrics) (m_IngestPost m src res)"
  "list_all (accepted takuhai_metrics) (m_QueueClaim m n res)"
  "list_all (accepted takuhai_metrics) (m_Submit m st res conf)"
  "list_all (accepted takuhai_metrics) (m_MCPTool m tool res dur)"
  "list_all (accepted takuhai_metrics) (m_MCPResolveMagnets m hits missed_n)"
  "list_all (accepted takuhai_metrics) (http_wrap h meth path code dur)"
  "list_all (accepted takuhai_metrics) (snd NewTakuhai)"
  by (simp_all add: metric_defs takuhai_metric_simps Let_def http_wrap_def NewTakuhai_def Sources_def
      ingest_results_def split: option.split)

lemma crawler_samples_accepted:
  "list_all (accepted (crawler_metrics ns)) (m_Crawl m' res n dur)"
  "list_all (accepted (crawler_metrics ns)) (m_Fetch m' res dur)"
  "list_all (accepted (crawler_metrics ns)) (m_ParsePosts m' res n)"
  "list_all (accepted (crawler_metrics ns)) (http_wrap h meth path code dur)"
  by (simp_all add: metric_defs crawler_metric_simps Let_def http_wrap_def)

lemmas gauge_descs = queueItemsDesc_def queueStatsScrapeOKDesc_def catalogRawPostsDesc_def catalogInfohashesDesc_def
  catalogRefsDesc_def catalogStatsScrapeOKDesc_def

lemma Collect_scrape_ok: "scrape_ok (fst (Collect ops st))"
  by (simp add: Collect_def scrape_ok_def Describe_def gauge_descs const_metric_def Let_def split: prod.split sum.split)

lemma takuhai_all_names:
  "distinct (map (full_name \<circ> snd) takuhai_metrics @ map gName Describe @ [gName (fst (registerBuildInfo ''takuhai'' v c))])"
  by (simp add: takuhai_metric_simps Describe_def gauge_descs registerBuildInfo_def full_name_def Let_def)

text \<open>At most one subtree pattern of the service matches a path.\<close>

lemma takuhai_prefix_unique:
  assumes "(p, r) \<in> set takuhai_routes" "suffix ''/'' p" "prefix p path"
    and "(p', r') \<in> set takuhai_routes" "suffix ''/'' p'" "prefix p' path"
  shows "r = r'"
proof -
  have subtree: "\<forall>x \<in> set takuhai_routes. suffix ''/'' (fst x) \<longrightarrow> fst x \<in> {''/magnets/'', ''/releases/''}"
    by code_simp
  have "p \<in> {''/magnets/'', ''/releases/''}" "p' \<in> {''/magnets/'', ''/releases/''}"
    using bspec [OF subtree assms(1)] bspec [OF subtree assms(4)] assms(2,5) by (simp_all only: fst_conv simp_thms)
  moreover have "\<not> (prefix ''/magnets/'' path \<and> prefix ''/releases/'' path)"
    by (auto simp: prefix_def)
  ultimately have "p = p'" using assms(3,6) by auto
  moreover have "distinct (map fst takuhai_routes)" by code_simp
  ultimately show ?thesis using assms(1,4) by (metis eq_key_imp_eq_value)
qed

lemma find_unique_result:
  assumes "set rs = set rs'" and "\<And>x y. x \<in> set rs \<Longrightarrow> y \<in> set rs \<Longrightarrow> P x \<Longrightarrow> P y \<Longrightarrow> f x = f y"
  shows "map_option f (find P rs) = map_option f (find P rs')"
proof (cases "find P rs")
  case None
  then have "find P rs' = None" using assms(1) by (simp add: find_None_iff)
  with None show ?thesis by simp
next
  case (Some x)
  then have x: "x \<in> set rs" "P x" by (auto dest: find_SomeD)
  then obtain y where y: "find P rs' = Some y"
    using assms(1) by (cases "find P rs'") (auto simp: find_None_iff)
  then have "y \<in> set rs" "P y" using assms(1) by (auto dest: find_SomeD)
  with x have "f x = f y" by (intro assms(2))
  with Some y show ?thesis by simp
qed

lemma route_any_order:
  assumes "mset rs = mset takuhai_routes"
  shows "route rs path = route takuhai_routes path"
proof -
  let ?P = "\<lambda>(p :: string, r :: string). suffix ''/'' p \<and> prefix p path"
  have s: "set rs = set takuhai_routes" using assms by (metis set_mset_mset)
  have "distinct (map fst takuhai_routes)" by code_simp
  moreover have "mset (map fst rs) = mset (map fst takuhai_routes)" using assms by simp
  ultimately have "distinct (map fst rs)" by (metis mset_eq_imp_distinct_iff)
  then have m: "map_of rs = map_of takuhai_routes"
    using s \<open>distinct (map fst takuhai_routes)\<close> by (intro map_of_eqI) (auto simp: image_image)
  have f: "map_option snd (find ?P rs) = map_option snd (find ?P takuhai_routes)"
    using takuhai_prefix_unique by (intro find_unique_result) (auto simp: s)
  have r: "route rs' path = (case map_of rs' path of Some r \<Rightarrow> r | None \<Rightarrow>
      (case map_option snd (find ?P rs') of Some r \<Rightarrow> r | None \<Rightarrow> ''other''))" for rs'
    by (simp add: route_def case_prod_beta split: option.split)
  show ?thesis unfolding r m f ..
qed

end
