(* ===== verification/Rest.thy ===== *)
theory Rest
  imports Dispatch Metrics "HOL-Library.AList"
begin

text \<open>
  The HTTP service of \<open>internal/rest\<close>: every handler as a function from a request and the state
  behind the store interface to the response, the metric samples it records and the state
  after it. Logging is left out.

  \<^item> A request has a method, a path and the bytes of its body, or none when reading it fails.
    \<open>decoders\<close> is \<open>encoding/json\<close> on the three request types, for which a body it cannot decode
    gives \<open>None\<close>; nothing here depends on what it reads, and \<open>go_decoders\<close> of the theory \<open>Bodies\<close>
    is its definition.
  \<^item> A response has a status and a payload. \<open>ErrText e\<close> is the text \<open>e.Error()\<close>.
  \<^item> The router matches a path with the registered patterns: a pattern that ends in a slash
    matches every path it is a prefix of, any other only itself. Its redirects of unclean paths
    are left out.
\<close>

section \<open>Definitions\<close>

record request =
  qMethod :: string
  qPath :: string
  qBody :: "string option"

record decoders =
  decClaim :: "string \<Rightarrow> ClaimRequest option"
  decSubmit :: "string \<Rightarrow> SubmitRequest option"
  decIngest :: "string \<Rightarrow> RawPost list option"

datatype message = Msg string | ErrText dispatch_error

datatype payload =
    ErrorReply string string message
  | TextReply string
  | OkReply
  | ClaimPayload ClaimReply
  | StatsPayload QueueStatsResult
  | ReleasePayload GetReleaseResult
  | MagnetPayload string string
  | IngestPayload IngestSummary

record http_reply =
  hrStatus :: int
  hrBody :: payload

record 'st Handler =
  hDispatch :: "'st Dispatcher"
  hIngest :: "'st StoreSeam"
  hMetrics :: "Takuhai option"

type_synonym 'st outcome = "http_reply \<times> sample list \<times> 'st"

definition NewWithMetrics :: "'st StoreSeam \<Rightarrow> Takuhai option \<Rightarrow> 'st Handler" where
  "NewWithMetrics s m = \<lparr>hDispatch = New s, hIngest = s, hMetrics = m\<rparr>"

definition reply :: "int \<Rightarrow> payload \<Rightarrow> http_reply" where
  "reply status body = \<lparr>hrStatus = status, hrBody = body\<rparr>"

definition writeError :: "int \<Rightarrow> string \<Rightarrow> string \<Rightarrow> message \<Rightarrow> http_reply" where
  "writeError status code ih msg = reply status (ErrorReply code ih msg)"

definition writeBadInput :: "string \<Rightarrow> http_reply" where
  "writeBadInput msg = writeError 400 ''invalid_input'' '''' (Msg msg)"

definition requirePost :: "request \<Rightarrow> http_reply + string" where
  "requirePost r =
     (if qMethod r \<noteq> ''POST'' then Inl (writeError 405 '''' '''' (Msg ''method not allowed''))
      else case qBody r of
        None \<Rightarrow> Inl (writeBadInput ''unreadable request body'')
      | Some body \<Rightarrow> Inr body)"

definition writeDispatchError :: "string \<Rightarrow> dispatch_error \<Rightarrow> http_reply" where
  "writeDispatchError ih err =
     (let code = WireCode err
      in if code = ''no_such_release'' then writeError 404 code ih (ErrText err)
         else if code = ''no_active_lease'' \<or> code = ''stale_lease'' then writeError 409 code ih (ErrText err)
         else if code = ''invalid_ref'' then writeError 400 code ih (ErrText err)
         else if code = ''invalid_input'' then writeError 400 code ih (ErrText err)
         else writeError 500 '''' ih (Msg ''internal error''))"

subsection \<open>The queue\<close>

definition handleClaim ::
  "decoders \<Rightarrow> (time \<Rightarrow> int) \<Rightarrow> 'st Handler \<Rightarrow> 'st \<Rightarrow> request \<Rightarrow> 'st outcome" where
  "handleClaim dec loc h st r =
     (case requirePost r of
        Inl resp \<Rightarrow> (resp, m_QueueClaim (hMetrics h) 0 ''error'', st)
      | Inr body \<Rightarrow>
     (case decClaim dec body of
        None \<Rightarrow> (writeBadInput ''invalid request body'', m_QueueClaim (hMetrics h) 0 ''error'', st)
      | Some req \<Rightarrow>
     (case ClaimTyped loc (hDispatch h) st req of
        (Inl err, st') \<Rightarrow> (writeDispatchError '''' err, m_QueueClaim (hMetrics h) 0 ''error'', st')
      | (Inr out, st') \<Rightarrow>
          (reply 200 (ClaimPayload out),
           (if length (crpItems out) = 0 then m_QueueClaim (hMetrics h) 0 ''empty''
            else m_QueueClaim (hMetrics h) (length (crpItems out)) ''claimed''), st'))))"

definition handleQueueStats :: "'st Handler \<Rightarrow> 'st \<Rightarrow> request \<Rightarrow> 'st outcome" where
  "handleQueueStats h st r =
     (if qMethod r \<noteq> ''GET'' then (writeError 405 '''' '''' (Msg ''method not allowed''), [], st)
      else case QueueStatsTyped (hDispatch h) st of
        (Inl err, st') \<Rightarrow> (writeDispatchError '''' err, [], st')
      | (Inr out, st') \<Rightarrow> (reply 200 (StatsPayload out), [], st'))"

definition handleSubmit :: "decoders \<Rightarrow> 'st Handler \<Rightarrow> 'st \<Rightarrow> request \<Rightarrow> 'st outcome" where
  "handleSubmit dec h st r =
     (case requirePost r of
        Inl resp \<Rightarrow> (resp, m_Submit (hMetrics h) ''invalid'' ''error'' None, st)
      | Inr body \<Rightarrow>
     (case decSubmit dec body of
        None \<Rightarrow> (writeBadInput ''invalid request body'', m_Submit (hMetrics h) ''invalid'' ''error'' None, st)
      | Some req \<Rightarrow>
     (case SubmitTyped (hDispatch h) st req of
        (Inl err, st') \<Rightarrow>
          (writeDispatchError (srInfohash req) err,
           m_Submit (hMetrics h) (srStatus req)
             (if WireCode err = ''no_active_lease'' \<or> WireCode err = ''stale_lease''
              then ''conflict'' else ''error'') None, st')
      | (Inr _, st') \<Rightarrow> (reply 200 OkReply, m_Submit (hMetrics h) (srStatus req) ''ok'' (srConfidence req), st'))))"

subsection \<open>Lookups\<close>

text \<open>The path segment after the prefix, normalised; \<open>None\<close> is the rejection of both handlers.\<close>

definition path_infohash :: "string \<Rightarrow> string \<Rightarrow> string option" where
  "path_infohash pre path =
     (let raw = trim_prefix pre path
      in if raw = [] \<or> str_contains raw ''/'' then None
         else case NormalizeInfohash raw of Inl _ \<Rightarrow> None | Inr ih \<Rightarrow> Some ih)"

definition handleGetRelease ::
  "(time \<Rightarrow> int) \<Rightarrow> 'st Handler \<Rightarrow> 'st \<Rightarrow> request \<Rightarrow> 'st outcome" where
  "handleGetRelease loc h st r =
     (if qMethod r \<noteq> ''GET'' then (writeError 405 '''' '''' (Msg ''method not allowed''), [], st)
      else case path_infohash ''/releases/'' (qPath r) of
        None \<Rightarrow> (writeBadInput ''invalid infohash'', [], st)
      | Some ih \<Rightarrow>
          (case GetReleaseTyped loc (hDispatch h) st \<lparr>grInfohash = ih\<rparr> of
             (Inl err, st') \<Rightarrow> (writeDispatchError ih err, [], st')
           | (Inr out, st') \<Rightarrow> (reply 200 (ReleasePayload out), [], st')))"

definition handleGetMagnet :: "'st Handler \<Rightarrow> 'st \<Rightarrow> request \<Rightarrow> 'st outcome" where
  "handleGetMagnet h st r =
     (if qMethod r \<noteq> ''GET'' then (writeError 405 '''' '''' (Msg ''method not allowed''), [], st)
      else case path_infohash ''/magnets/'' (qPath r) of
        None \<Rightarrow> (writeBadInput ''invalid infohash'', [], st)
      | Some ih \<Rightarrow>
          (case ResolveMagnetsTyped (hDispatch h) st \<lparr>rmInfohashes = [ih]\<rparr> of
             (Inl err, st') \<Rightarrow> (writeDispatchError ih err, [], st')
           | (Inr out, st') \<Rightarrow>
               (case rmMagnets out ih of
                  None \<Rightarrow> (writeError 404 ''no_such_release'' ih (Msg ''takuhai: no such release''), [], st')
                | Some magnet \<Rightarrow> (reply 200 (MagnetPayload ih magnet), [], st'))))"

subsection \<open>Ingest\<close>

definition maxBatchPosts :: nat where "maxBatchPosts = 1000"

datatype ingest_error = NormalizeError infohash_error | IngestError store_error

record ingestFailure =
  ifIndex :: nat
  ifSource :: string
  ifSourceID :: string
  ifErr :: "ingest_error option"

definition no_failure :: ingestFailure where
  "no_failure = \<lparr>ifIndex = 0, ifSource = [], ifSourceID = [], ifErr = None\<rparr>"

definition empty_batch :: IngestBatch where
  "empty_batch = \<lparr>ibNew = 0, ibUpdated = 0, ibDuplicate = 0, ibConflict = 0, ibSkipped = 0\<rparr>"

definition ingestParams :: "RawPost \<Rightarrow> string \<Rightarrow> IngestParams" where
  "ingestParams p ih =
     \<lparr>ipInfohash = ih, ipSource = rpSource p, ipSourceID = rpSourceID p, ipTitle = rpTitle p,
      ipURL = rpURL p, ipMagnet = rpMagnet p, ipSizeBytes = rpSizeBytes p,
      ipPublishedAt = rpPublishedAt p\<rparr>"

text \<open>The \<open>switch\<close> on the outcome: the bucket that is counted and its metric label.\<close>

definition count_outcome ::
  "Takuhai option \<Rightarrow> string \<Rightarrow> IngestOutcome \<Rightarrow> IngestBatch \<Rightarrow> IngestBatch \<times> sample list" where
  "count_outcome m source out batch =
     (if oNew out then (batch\<lparr>ibNew := ibNew batch + 1\<rparr>, m_IngestPost m source ''new'')
      else if oUpdated out then (batch\<lparr>ibUpdated := ibUpdated batch + 1\<rparr>, m_IngestPost m source ''updated'')
      else if oDuplicate out then (batch\<lparr>ibDuplicate := ibDuplicate batch + 1\<rparr>, m_IngestPost m source ''duplicate'')
      else if oConflict out then (batch\<lparr>ibConflict := ibConflict batch + 1\<rparr>, m_IngestPost m source ''conflict'')
      else (batch, []))"

type_synonym 'st batch_result = "(IngestBatch \<times> ingestFailure \<times> int \<times> string) \<times> sample list \<times> 'st"

fun ingest_loop ::
  "'st Handler \<Rightarrow> nat \<Rightarrow> IngestBatch \<Rightarrow> sample list \<Rightarrow> 'st \<Rightarrow> RawPost list \<Rightarrow> 'st batch_result" where
  "ingest_loop h i batch ms st [] = ((batch, no_failure, 200, ''''), ms, st)"
| "ingest_loop h i batch ms st (post # posts) =
     (case NormalizeInfohash (rpMagnet post) of
        Inl err \<Rightarrow>
          (if err = ErrSkipInfohash
           then ingest_loop h (Suc i) (batch\<lparr>ibSkipped := ibSkipped batch + 1\<rparr>)
                  (ms @ m_IngestPost (hMetrics h) (rpSource post) ''skipped'') st posts
           else ((batch, \<lparr>ifIndex = i, ifSource = rpSource post, ifSourceID = rpSourceID post,
                          ifErr = Some (NormalizeError err)\<rparr>, 500, ''infohash normalization failed''),
                 ms @ m_IngestPost (hMetrics h) (rpSource post) ''error'', st))
      | Inr ih \<Rightarrow>
          (case ssIngestN (hIngest h) st (ingestParams post ih) of
             (Inl err, st') \<Rightarrow>
               ((batch, \<lparr>ifIndex = i, ifSource = rpSource post, ifSourceID = rpSourceID post,
                         ifErr = Some (IngestError err)\<rparr>, 500, ''ingest failed''),
                ms @ m_IngestPost (hMetrics h) (rpSource post) ''error'', st')
           | (Inr out, st') \<Rightarrow>
               (let (batch', rec) = count_outcome (hMetrics h) (rpSource post) out batch
                in ingest_loop h (Suc i) batch' (ms @ rec) st' posts)))"

definition ingestBatch :: "'st Handler \<Rightarrow> 'st \<Rightarrow> RawPost list \<Rightarrow> 'st batch_result" where
  "ingestBatch h st posts = ingest_loop h 0 empty_batch [] st posts"

definition missing_source :: "RawPost \<Rightarrow> bool" where
  "missing_source post \<longleftrightarrow> trim_space (rpSource post) = [] \<or> trim_space (rpSourceID post) = []"

definition handleIngest :: "decoders \<Rightarrow> 'st Handler \<Rightarrow> 'st \<Rightarrow> request \<Rightarrow> 'st outcome" where
  "handleIngest dec h st r =
     (if qMethod r \<noteq> ''POST'' then (reply 405 (TextReply ''method not allowed''), [], st)
      else case Option.bind (qBody r) (decIngest dec) of
        None \<Rightarrow> (reply 400 (TextReply ''invalid request body''), m_IngestBatch (hMetrics h) 0 ''error'', st)
      | Some posts \<Rightarrow>
          if length posts > maxBatchPosts
          then (reply 400 (TextReply ''batch too large''),
                m_IngestBatch (hMetrics h) (length posts) ''error'', st)
          else if \<exists>post \<in> set posts. missing_source post
          then (reply 400 (TextReply ''post missing source or source_id''),
                m_IngestBatch (hMetrics h) (length posts) ''error'', st)
          else
            (let ((batch, failure, status, msg), ms, st1) = ingestBatch h st posts
             in if status \<noteq> 200
                then (reply status (TextReply msg),
                      ms @ m_IngestBatch (hMetrics h) (length posts) ''error'', st1)
                else case ssQueueStats (hIngest h) st1 of
                  (Inl err, st2) \<Rightarrow>
                    (reply 500 (TextReply ''queue stats failed''),
                     ms @ m_IngestBatch (hMetrics h) (length posts) ''error'', st2)
                | (Inr qs, st2) \<Rightarrow>
                    (reply 200 (IngestPayload
                       \<lparr>isBatch = batch,
                        isQueue = \<lparr>wqAvailable = int (qsAvailable qs), wqLeased = int (qsLeased qs),
                                   wqExhausted = int (qsExhausted qs)\<rparr>\<rparr>),
                     ms @ m_IngestBatch (hMetrics h) (length posts) ''ok'', st2)))"

definition sourceCounts :: "RawPost list \<Rightarrow> (string \<times> nat) list" where
  "sourceCounts posts =
     fold (\<lambda>post counts.
       let source = (if trim_space (rpSource post) = [] then ''unknown'' else trim_space (rpSource post));
           n = (case map_of counts source of None \<Rightarrow> 0 | Some n \<Rightarrow> n)
       in AList.update source (Suc n) counts) posts []"

subsection \<open>Routing\<close>

definition ServeHTTP ::
  "decoders \<Rightarrow> (time \<Rightarrow> int) \<Rightarrow> 'st Handler \<Rightarrow> 'st \<Rightarrow> request \<Rightarrow> 'st outcome" where
  "ServeHTTP dec loc h st r =
     (if qPath r = ''/ingest'' then handleIngest dec h st r
      else if prefix ''/magnets/'' (qPath r) then handleGetMagnet h st r
      else if prefix ''/releases/'' (qPath r) then handleGetRelease loc h st r
      else if qPath r = ''/queue/claim'' then handleClaim dec loc h st r
      else if qPath r = ''/queue/stats'' then handleQueueStats h st r
      else if qPath r = ''/submit'' then handleSubmit dec h st r
      else (reply 404 (TextReply ''404 page not found''), [], st))"

section \<open>Lemmas: the store behind the handlers\<close>

named_theorems handler_defs "definitions of the handlers"

lemmas [handler_defs] = handleClaim_def handleQueueStats_def handleSubmit_def handleGetRelease_def
  handleGetMagnet_def handleIngest_def ingestBatch_def NewWithMetrics_def

text \<open>The state after a handler that ends by calling one typed operation.\<close>

lemma snd_outcome [simp]:
  "snd (snd (case x of (Inl e, st) \<Rightarrow> (f e, g e, st) | (Inr v, st) \<Rightarrow> (f' v, g' v, st))) = snd x"
  by (cases x; cases "fst x") auto

lemma snd_outcome_map [simp]:
  "snd (snd (case x of (Inl e, st) \<Rightarrow> (f e, g e, st) | (Inr v, st) \<Rightarrow>
     (case k v of None \<Rightarrow> (f1 v, g1 v, st) | Some w \<Rightarrow> (f2 v w, g2 v w, st)))) = snd x"
  by (cases x; cases "fst x") (auto split: option.split)

context store_seam
begin

abbreviation "handler m \<equiv> NewWithMetrics ops m"

lemma handler_simps [simp]:
  "hDispatch (handler m) = New ops" "hIngest (handler m) = ops" "hMetrics (handler m) = m"
  by (simp_all add: NewWithMetrics_def)

lemma rel_handleClaim: "rel st (snd (snd (handleClaim dec loc (handler m) st r)))"
  by (simp add: handleClaim_def rel_refl rel_ClaimTyped split: sum.split option.split)

lemma rel_handleQueueStats: "rel st (snd (snd (handleQueueStats (handler m) st r)))"
  by (simp add: handleQueueStats_def rel_refl rel_QueueStatsTyped)

lemma rel_handleSubmit: "rel st (snd (snd (handleSubmit dec (handler m) st r)))"
  by (simp add: handleSubmit_def Let_def rel_refl rel_SubmitTyped split: sum.split option.split)

lemma rel_handleGetRelease: "rel st (snd (snd (handleGetRelease loc (handler m) st r)))"
  by (simp add: handleGetRelease_def rel_refl rel_GetReleaseTyped split: option.split)

lemma rel_handleGetMagnet: "rel st (snd (snd (handleGetMagnet (handler m) st r)))"
  by (simp add: handleGetMagnet_def rel_refl rel_ResolveMagnetsTyped split: option.split)

lemma rel_ingest_loop: "rel st (snd (snd (ingest_loop (handler m) i batch ms st posts)))"
proof (induction posts arbitrary: i batch ms st)
  case Nil
  then show ?case by (simp add: rel_refl)
next
  case (Cons post posts)
  show ?case
  proof (cases "NormalizeInfohash (rpMagnet post)")
    case (Inl e)
    with Cons show ?thesis by (simp add: rel_refl)
  next
    case (Inr ih)
    obtain res st' where n: "ssIngestN ops st (ingestParams post ih) = (res, st')" by fastforce
    with rel_IngestN [of st "ingestParams post ih"] have "rel st st'" by simp
    with Cons Inr n show ?thesis
      by (cases res) (auto simp: case_prod_beta intro: rel_trans)
  qed
qed

lemma rel_handleIngest: "rel st (snd (snd (handleIngest dec (handler m) st r)))"
proof -
  have "rel st (snd (ssQueueStats ops st1))"
    if "ingest_loop (handler m) 0 empty_batch [] st posts = (x, ms, st1)" for posts x ms st1
    using rel_ingest_loop [of st m 0 empty_batch "[]" posts] that rel_QueueStats [of st1]
    by (auto intro: rel_trans)
  moreover have "rel st st1"
    if "ingest_loop (handler m) 0 empty_batch [] st posts = (x, ms, st1)" for posts x ms st1
    using rel_ingest_loop [of st m 0 empty_batch "[]" posts] that by simp
  ultimately show ?thesis
    by (auto simp: handleIngest_def ingestBatch_def rel_refl split: option.split prod.split)
qed

lemma rel_ServeHTTP: "rel st (snd (snd (ServeHTTP dec loc (handler m) st r)))"
  by (simp add: ServeHTTP_def rel_refl rel_handleIngest rel_handleGetMagnet rel_handleGetRelease
      rel_handleClaim rel_handleQueueStats rel_handleSubmit)

end

section \<open>Lemmas: the buckets of an ingest\<close>

definition batch_total :: "IngestBatch \<Rightarrow> int" where
  "batch_total b = ibNew b + ibUpdated b + ibDuplicate b + ibConflict b + ibSkipped b"

definition skipped_post :: "RawPost \<Rightarrow> bool" where
  "skipped_post post \<longleftrightarrow> isl (NormalizeInfohash (rpMagnet post))"

lemma batch_total_empty [simp]: "batch_total empty_batch = 0" "ibSkipped empty_batch = 0"
  by (simp_all add: batch_total_def empty_batch_def)

lemma batch_total_skip [simp]:
  "batch_total (b\<lparr>ibSkipped := ibSkipped b + 1\<rparr>) = batch_total b + 1"
  by (simp add: batch_total_def)

lemma count_outcome_one:
  assumes "one_outcome out" "count_outcome m src out b = (b', rec)"
  shows "batch_total b' = batch_total b + 1 \<and> ibSkipped b' = ibSkipped b \<and>
    (m \<noteq> None \<longrightarrow> counted IngestPosts (\<lambda>_. True) rec = 1)"
  using assms
  by (auto simp: one_outcome_def count_outcome_def batch_total_def no_outcome_def m_IngestPost_def)

lemma skip_error: "(e :: infohash_error) = ErrSkipInfohash"
  by (cases e) simp

context ingest_seam
begin

lemma ingest_loop_total:
  assumes "ingest_loop (handler m) i b ms st posts = ((b', failure, status, msg), ms', st')"
  shows "status = 200 \<and> failure = no_failure \<and> batch_total b' = batch_total b + int (length posts) \<and>
      ibSkipped b' = ibSkipped b + int (length (filter skipped_post posts)) \<and>
      (m \<noteq> None \<longrightarrow> counted IngestPosts (\<lambda>_. True) ms' =
         counted IngestPosts (\<lambda>_. True) ms + int (length posts)) \<or>
    status = 500 \<and> msg = ''ingest failed'' \<and> i \<le> ifIndex failure \<and> ifIndex failure < i + length posts \<and>
      batch_total b' = batch_total b + int (ifIndex failure - i)"
  using assms
proof (induction posts arbitrary: i b ms st)
  case Nil
  then show ?case by simp
next
  case (Cons post posts)
  show ?case
  proof (cases "NormalizeInfohash (rpMagnet post)")
    case (Inl e)
    with Cons.prems have "ingest_loop (handler m) (Suc i) (b\<lparr>ibSkipped := ibSkipped b + 1\<rparr>)
        (ms @ m_IngestPost m (rpSource post) ''skipped'') st posts = ((b', failure, status, msg), ms', st')"
      by (simp add: skip_error)
    from Cons.IH [OF this] Inl show ?thesis
      by (auto simp: skipped_post_def m_IngestPost_def)
  next
    case (Inr ih)
    obtain res st1 where n: "ssIngestN ops st (ingestParams post ih) = (res, st1)" by fastforce
    show ?thesis
    proof (cases res)
      case (Inl e)
      with Cons.prems Inr n show ?thesis by auto
    next
      case (Inr out)
      obtain b1 rec where c: "count_outcome m (rpSource post) out b = (b1, rec)" by fastforce
      have one: "one_outcome out" using IngestN_outcome n Inr by blast
      from Cons.prems n Inr c \<open>NormalizeInfohash (rpMagnet post) = Inr ih\<close>
      have "ingest_loop (handler m) (Suc i) b1 (ms @ rec) st1 posts = ((b', failure, status, msg), ms', st')"
        by simp
      from Cons.IH [OF this] count_outcome_one [OF one c] \<open>NormalizeInfohash (rpMagnet post) = Inr ih\<close>
      show ?thesis by (auto simp: skipped_post_def)
    qed
  qed
qed

end

end
