(* ===== verification/Rest_Store.thy ===== *)
theory Rest_Store
  imports Rest
begin

text \<open>
  The HTTP service on the PostgreSQL store: the contract lemmas of the handlers instantiated,
  and what an ingest batch leaves in the database.
\<close>

section \<open>Definitions\<close>

abbreviation service :: "(nat \<Rightarrow> Store) \<Rightarrow> Takuhai option \<Rightarrow> backend Handler" where
  "service env m \<equiv> NewWithMetrics (postgres env) m"

text \<open>The post is in the catalog under its source and source id.\<close>

definition recorded :: "database \<Rightarrow> RawPost \<Rightarrow> bool" where
  "recorded db post \<longleftrightarrow> known_post db (ingestParams post [])"

section \<open>Lemmas: ingest batches\<close>

lemma known_post_params: "known_post db (ingestParams post ih) = recorded db post"
  by (simp add: recorded_def known_post_def ingestParams_def)

lemma IngestN_items: "set (raw_items db) \<subseteq> set (raw_items (snd (IngestN s db p)))"
proof -
  obtain res db' where i: "IngestN s db p = (res, db')" by fastforce
  from IngestN_effect [OF i]
  have "same_tables db db' \<or> db' = ingest_more s db p \<or> db' = ingest_new s db p" by (metis (full_types))
  then show ?thesis
    using i by (auto simp: same_tables_def ingest_more_def ingest_new_def add_item_def)
qed

lemma recorded_IngestN: "recorded db post \<Longrightarrow> recorded (snd (IngestN s db p)) post"
  using IngestN_items [of db s p] by (auto simp: recorded_def known_post_def)

lemma recorded_same: "same_tables db db' \<Longrightarrow> recorded db' post = recorded db post"
  by (simp add: recorded_def known_same)

lemma recorded_after:
  assumes "NormalizeInfohash (rpMagnet post) = Inr ih"
    and "IngestN s db (ingestParams post ih) = (Inr out, db')"
  shows "recorded db' post"
proof -
  have "isCanonicalInfohash (ipInfohash (ingestParams post ih))"
    using NormalizeInfohash_isCanonical [OF assms(1)] by (simp add: ingestParams_def)
  with IngestN_db [OF assms(2)] show ?thesis
    using recorded_same [of db db' post]
    by (cases "known_post db (ingestParams post ih)")
       (auto simp: known_post_params ingest_more_def ingest_new_def recorded_def known_post_def
          add_item_def new_item_def ingestParams_def split: if_splits)
qed

lemma write_call_eq:
  "write_call env f b = (r, b') \<longleftrightarrow>
     f (env (bCalls b)) (bDb b) = (r, bDb b') \<and> bCalls b' = Suc (bCalls b)"
  by (cases b') (auto simp: write_call_def split: prod.splits)

lemma postgres_simps [simp]:
  "ssIngestN (postgres env) = (\<lambda>b p. write_call env (\<lambda>s db. IngestN s db p) b)"
  "ssQueueStats (postgres env) = read_call env QueueStats_op"
  "ssSubmit (postgres env) = (\<lambda>b p. write_call env (\<lambda>s db. Submit s db p) b)"
  "ssClaim (postgres env) = (\<lambda>b p. write_call env (\<lambda>s db. Claim s db p) b)"
  "ssGetRelease (postgres env) = (\<lambda>b ih. read_call env (\<lambda>s db. GetRelease s db ih) b)"
  "ssResolveMagnets (postgres env) = (\<lambda>b ihs. read_call env (\<lambda>s db. ResolveMagnets s db ihs) b)"
  by (simp_all add: postgres_def)

lemma read_call_eq:
  "read_call env f b = (r, b') \<longleftrightarrow>
     r = f (env (bCalls b)) (bDb b) \<and> bDb b' = bDb b \<and> bCalls b' = Suc (bCalls b)"
  by (auto simp: read_call_def write_call_eq)

lemma bDb_read [simp]: "bDb (snd (read_call env f b)) = bDb b"
  by (simp add: read_call_def snd_write_call)

text \<open>After a batch that was accepted, every post with a v1 infohash is in the catalog.\<close>

lemma loop_keeps_recorded:
  assumes "recorded (bDb st) p"
  shows "recorded (bDb (snd (snd (ingest_loop (service env m) i b ms st posts)))) p"
  using assms
proof (induction posts arbitrary: i b ms st)
  case (Cons post posts)
  show ?case
  proof (cases "NormalizeInfohash (rpMagnet post)")
    case (Inl e)
    with Cons show ?thesis by (simp add: skip_error)
  next
    case (Inr ih)
    obtain res st1 where w: "write_call env (\<lambda>s db. IngestN s db (ingestParams post ih)) st = (res, st1)"
      by fastforce
    then have "recorded (bDb st1) p"
      using recorded_IngestN [OF Cons.prems, of "env (bCalls st)" "ingestParams post ih"]
      by (simp add: write_call_eq)
    with Cons.IH Inr w show ?thesis by (cases res) (auto simp: case_prod_beta)
  qed
qed simp

lemma loop_records:
  assumes "ingest_loop (service env m) i b ms st posts = ((b', failure, 200, msg), ms', st')"
  shows "\<forall>post \<in> set posts. skipped_post post \<or> recorded (bDb st') post"
  using assms
proof (induction posts arbitrary: i b ms st)
  case (Cons post posts)
  show ?case
  proof (cases "NormalizeInfohash (rpMagnet post)")
    case (Inl e)
    with Cons show ?thesis by (simp add: skip_error skipped_post_def)
  next
    case (Inr ih)
    obtain res st1 where w: "write_call env (\<lambda>s db. IngestN s db (ingestParams post ih)) st = (res, st1)"
      by fastforce
    obtain out where out: "res = Inr out" using Cons.prems Inr w by (cases res) auto
    obtain b1 rec where c: "count_outcome m (rpSource post) out b = (b1, rec)" by fastforce
    from Cons.prems Inr w out c have l:
      "ingest_loop (service env m) (Suc i) b1 (ms @ rec) st1 posts = ((b', failure, 200, msg), ms', st')"
      by (simp add: NewWithMetrics_def)
    have "recorded (bDb st1) post" using recorded_after [OF Inr] w out by (auto simp: write_call_eq)
    from loop_keeps_recorded [OF this, of env m "Suc i" b1 "ms @ rec" posts] l
    have "recorded (bDb st') post" by simp
    with Cons.IH [OF l] show ?thesis by simp
  qed
qed simp

text \<open>A batch that is in the catalog already is all duplicates and conflicts.\<close>

lemma loop_again:
  assumes "\<forall>post \<in> set posts. skipped_post post \<or> recorded (bDb st) post"
    and "\<forall>n \<ge> bCalls st. reliable (env n)"
  shows "\<exists>b' ms' st'. ingest_loop (service env m) i b ms st posts = ((b', no_failure, 200, ''''), ms', st') \<and>
    ibNew b' = ibNew b \<and> ibUpdated b' = ibUpdated b \<and> same_tables (bDb st) (bDb st') \<and>
    bCalls st \<le> bCalls st'"
  using assms
proof (induction posts arbitrary: i b ms st)
  case (Cons post posts)
  show ?case
  proof (cases "NormalizeInfohash (rpMagnet post)")
    case (Inl e)
    with Cons.IH [of st "Suc i" "b\<lparr>ibSkipped := ibSkipped b + 1\<rparr>"] Cons.prems show ?thesis
      by (auto simp: skip_error)
  next
    case (Inr ih)
    let ?p = "ingestParams post ih"
    obtain res st1 where w: "write_call env (\<lambda>s db. IngestN s db ?p) st = (res, st1)" by fastforce
    then have i: "IngestN (env (bCalls st)) (bDb st) ?p = (res, bDb st1)" "bCalls st1 = Suc (bCalls st)"
      by (simp_all add: write_call_eq)
    have "reliable (env (bCalls st))" using Cons.prems(2) by simp
    from IngestN_reliable [OF this, of "bDb st" ?p] i(1)
    have res: "res = Inr (ingest_outcome (bDb st) ?p)" by simp
    have kp: "known_post (bDb st) ?p"
      using Cons.prems(1) Inr by (simp add: skipped_post_def known_post_params)
    with IngestN_db [OF i(1) [unfolded res]] have same: "same_tables (bDb st) (bDb st1)" by simp
    obtain b1 rec where c: "count_outcome m (rpSource post) (ingest_outcome (bDb st) ?p) b = (b1, rec)"
      by fastforce
    with kp have b1: "ibNew b1 = ibNew b" "ibUpdated b1 = ibUpdated b"
      by (auto simp: ingest_outcome_def count_outcome_def no_outcome_def split: if_splits)
    have "\<forall>post \<in> set posts. skipped_post post \<or> recorded (bDb st1) post" "\<forall>n \<ge> bCalls st1. reliable (env n)"
      using Cons.prems recorded_same [OF same] i(2) by auto
    from Cons.IH [OF this, of "Suc i" b1 "ms @ rec"] obtain b' ms' st' where
      "ingest_loop (service env m) (Suc i) b1 (ms @ rec) st1 posts = ((b', no_failure, 200, ''''), ms', st')"
      "ibNew b' = ibNew b1" "ibUpdated b' = ibUpdated b1" "same_tables (bDb st1) (bDb st')"
      "bCalls st1 \<le> bCalls st'" by blast
    with Inr w res c b1 same i(2) show ?thesis
      by (auto simp: NewWithMetrics_def same_tables_def)
  qed
qed simp

text \<open>A handled ingest that answered 200, taken apart.\<close>

lemma handleIngest_ok:
  assumes "handleIngest dec (service env m) st r = (resp, ms, st')" and "hrStatus resp = 200"
  obtains posts batch ms1 st1 qs where "qMethod r = ''POST''"
    "Option.bind (qBody r) (decIngest dec) = Some posts" "length posts \<le> maxBatchPosts"
    "\<not> (\<exists>post \<in> set posts. missing_source post)"
    "ingest_loop (service env m) 0 empty_batch [] st posts = ((batch, no_failure, 200, ''''), ms1, st1)"
    "read_call env QueueStats_op st1 = (Inr qs, st')"
    "resp = reply 200 (IngestPayload \<lparr>isBatch = batch, isQueue = \<lparr>wqAvailable = int (qsAvailable qs),
       wqLeased = int (qsLeased qs), wqExhausted = int (qsExhausted qs)\<rparr>\<rparr>)"
    "ms = ms1 @ m_IngestBatch m (length posts) ''ok''"
proof -
  have ok: "msg = '''' \<and> failure = no_failure"
    if "ingest_loop (service env m) i b ms st posts = ((b', failure, 200, msg), ms', st')"
    for i b ms st posts b' failure msg ms' st'
    using that
    by (induction posts arbitrary: i b ms st)
       (auto simp: skip_error split: sum.splits prod.splits)
  obtain posts where posts: "qMethod r = ''POST''" "Option.bind (qBody r) (decIngest dec) = Some posts"
      "length posts \<le> maxBatchPosts" "\<not> (\<exists>post \<in> set posts. missing_source post)"
    using assms by (auto simp: handleIngest_def reply_def split: if_splits option.splits)
  obtain batch failure status msg ms1 st1 where l:
    "ingest_loop (service env m) 0 empty_batch [] st posts = ((batch, failure, status, msg), ms1, st1)"
    by (metis prod.exhaust)
  obtain qres st2 where q: "read_call env QueueStats_op st1 = (qres, st2)" by fastforce
  from assms posts l q have status: "status = 200"
    by (auto simp: handleIngest_def ingestBatch_def reply_def split: if_splits)
  with ok l have "failure = no_failure" "msg = ''''" by blast+
  with assms posts l q status show thesis
    by (cases qres) (auto simp: handleIngest_def ingestBatch_def reply_def intro: that)
qed

section \<open>Lemmas: rejections\<close>

lemma Submit_rejected:
  "Submit s db p = (Inl e, db') \<Longrightarrow> WireCode (StoreError e) \<noteq> '''' \<Longrightarrow> db' = db"
  unfolding Submit_eq
  by (auto simp: db_err_def commit_tx_def split: option.splits if_splits)

lemma db_err_code: "db_err s c = Some e \<Longrightarrow> WireCode (StoreError e) = ''''"
  by (auto simp: db_err_def)

lemma claim_items_code: "claim_items s tx rows = Inl e \<Longrightarrow> WireCode (StoreError e) = ''''"
  by (induction rows) (auto simp: rawItemsFor_def dest: db_err_code split: option.splits sum.splits)

lemma Claim_error_code: "Claim s db p = (Inl e, db') \<Longrightarrow> WireCode (StoreError e) = ''''"
  by (auto simp: Claim_def Let_def commit_tx_def dest: db_err_code claim_items_code
      split: option.splits sum.splits)

lemma writeDispatchError_status:
  "hrStatus (writeDispatchError ih e) \<in> {400, 404, 409, 500}"
  "hrStatus (writeDispatchError ih e) \<noteq> 500 \<Longrightarrow> WireCode e \<noteq> ''''"
  "hrStatus (writeDispatchError ih e) = 500 \<Longrightarrow>
    hrBody (writeDispatchError ih e) = ErrorReply '''' ih (Msg ''internal error'')"
  by (auto simp: writeDispatchError_def writeError_def reply_def Let_def split: if_splits)

text \<open>The statuses that reject a request.\<close>

abbreviation rejects :: "http_reply \<Rightarrow> bool" where
  "rejects resp \<equiv> hrStatus resp \<in> {400, 404, 405, 409}"

text \<open>The texts of the internal errors a client gets to see.\<close>

definition internal_texts :: "string set" where
  "internal_texts = {''infohash normalization failed'', ''ingest failed'', ''queue stats failed''}"

definition discloses_nothing :: "payload \<Rightarrow> bool" where
  "discloses_nothing b \<longleftrightarrow>
     (\<exists>ih. b = ErrorReply '''' ih (Msg ''internal error'')) \<or> (\<exists>msg \<in> internal_texts. b = TextReply msg)"

text \<open>What a handler may answer, given the database before and after.\<close>

definition answer_ok :: "database \<Rightarrow> backend outcome \<Rightarrow> bool" where
  "answer_ok db out \<longleftrightarrow>
     (case out of (resp, ms, st') \<Rightarrow>
        hrStatus resp \<in> {200, 400, 404, 405, 409, 500} \<and>
        (rejects resp \<longrightarrow> bDb st' = db) \<and>
        (hrStatus resp = 500 \<longrightarrow> discloses_nothing (hrBody resp)))"

lemma answer_ok_simps [simp]:
  "answer_ok (bDb st) (writeBadInput msg, ms, st)" "answer_ok (bDb st) (reply 200 b, ms, st')"
  "answer_ok (bDb st) (writeError 405 c ih e, ms, st)" "answer_ok (bDb st) (reply 405 b, ms, st)"
  "answer_ok (bDb st) (reply 400 b, ms, st)"
  by (simp_all add: answer_ok_def writeBadInput_def writeError_def reply_def)

lemma answer_ok_dispatch:
  assumes "WireCode e \<noteq> '''' \<Longrightarrow> bDb st' = db"
  shows "answer_ok db (writeDispatchError ih e, ms, st')"
  using assms writeDispatchError_status [of ih e] by (auto simp: answer_ok_def discloses_nothing_def)

lemma answer_ok_missing: "bDb st' = db \<Longrightarrow> answer_ok db (writeError 404 c ih e, ms, st')"
  by (simp add: answer_ok_def writeError_def reply_def)

lemma answer_Claim: "answer_ok (bDb st) (handleClaim dec loc (service env m) st r)"
proof -
  have "answer_ok (bDb st) (writeDispatchError '''' e, ms, st')"
    if c: "ClaimTyped loc (New (postgres env)) st req = (Inl e, st')" for req e st' ms
  proof (rule answer_ok_dispatch)
    from c have "WireCode e = ''''"
      by (auto simp: typed_defs write_call_eq dest!: Claim_error_code split: prod.splits sum.splits)
    then show "WireCode e \<noteq> '''' \<Longrightarrow> bDb st' = bDb st" by simp
  qed
  then show ?thesis
    by (auto simp: handleClaim_def requirePost_def split: sum.split option.split prod.split)
qed

lemma answer_Submit: "answer_ok (bDb st) (handleSubmit dec (service env m) st r)"
proof -
  have "answer_ok (bDb st) (writeDispatchError ih e, ms, st')"
    if c: "SubmitTyped (New (postgres env)) st req = (Inl e, st')" for req e st' ms ih
    using c
    by (intro answer_ok_dispatch)
       (auto simp: typed_defs write_call_eq dest!: Submit_rejected split: prod.splits sum.splits if_splits)
  then show ?thesis
    by (auto simp: handleSubmit_def requirePost_def split: sum.split option.split prod.split)
qed

lemma answer_Stats: "answer_ok (bDb st) (handleQueueStats (service env m) st r)"
  by (auto simp: handleQueueStats_def typed_defs read_call_eq intro!: answer_ok_dispatch
      split: sum.split prod.split)

lemma answer_Release: "answer_ok (bDb st) (handleGetRelease loc (service env m) st r)"
  by (auto simp: handleGetRelease_def typed_defs read_call_eq intro!: answer_ok_dispatch
      split: sum.split prod.split option.split)

lemma answer_Magnet: "answer_ok (bDb st) (handleGetMagnet (service env m) st r)"
  by (auto simp: handleGetMagnet_def typed_defs read_call_eq intro!: answer_ok_dispatch answer_ok_missing
      split: sum.split prod.split option.split)

lemma answer_Ingest: "answer_ok (bDb st) (handleIngest dec (service env m) st r)"
proof -
  have "status = 200 \<or> status = 500 \<and> msg \<in> internal_texts"
    if "ingest_loop (service env m) 0 empty_batch [] st posts = ((b, failure, status, msg), ms, st')"
    for posts b failure status msg ms st'
    using pg.ingest_loop_total [OF that] by (auto simp: internal_texts_def)
  then show ?thesis
    by (fastforce simp: handleIngest_def ingestBatch_def answer_ok_def reply_def discloses_nothing_def
        internal_texts_def split: option.split prod.split sum.split)
qed

lemma answer_Serve: "answer_ok (bDb st) (ServeHTTP dec loc (service env m) st r)"
  by (simp add: ServeHTTP_def answer_Ingest answer_Magnet answer_Release answer_Claim answer_Stats answer_Submit)
    (simp add: answer_ok_def reply_def)

text \<open>Only the three \<open>POST\<close> handlers can change the database.\<close>

lemma serve_get:
  "qMethod r \<noteq> ''POST'' \<Longrightarrow> bDb (snd (snd (ServeHTTP dec loc (service env m) st r))) = bDb st"
  by (auto simp: ServeHTTP_def handler_defs requirePost_def typed_defs read_call_eq
      split: option.split sum.split prod.split)

section \<open>Lemmas: samples\<close>

lemma samples_loop:
  "list_all (accepted takuhai_metrics) ms \<Longrightarrow>
   list_all (accepted takuhai_metrics) (fst (snd (ingest_loop h i b ms st posts)))"
  by (induction posts arbitrary: i b ms st)
     (auto simp: takuhai_samples_accepted count_outcome_def split: sum.split prod.split)

lemma samples_Ingest: "list_all (accepted takuhai_metrics) (fst (snd (handleIngest dec h st r)))"
proof -
  have loop: "list_all (accepted takuhai_metrics) (fst (snd (ingest_loop h 0 empty_batch [] st posts)))" for posts
    by (simp add: samples_loop)
  show ?thesis
    using loop unfolding handleIngest_def ingestBatch_def case_prod_beta Let_def
    by (simp add: takuhai_samples_accepted split: option.split sum.split)
qed

lemma samples_Claim: "list_all (accepted takuhai_metrics) (fst (snd (handleClaim dec loc h st r)))"
  by (simp add: handleClaim_def takuhai_samples_accepted split: sum.split option.split prod.split)

lemma samples_Submit: "list_all (accepted takuhai_metrics) (fst (snd (handleSubmit dec h st r)))"
  by (simp add: handleSubmit_def takuhai_samples_accepted split: sum.split option.split prod.split)

lemma samples_none:
  "fst (snd (handleQueueStats h st r)) = []" "fst (snd (handleGetRelease loc h st r)) = []"
  "fst (snd (handleGetMagnet h st r)) = []"
  by (simp_all add: handleQueueStats_def handleGetRelease_def handleGetMagnet_def
      split: sum.split option.split prod.split)

lemma samples_Serve: "list_all (accepted takuhai_metrics) (fst (snd (ServeHTTP dec loc h st r)))"
  by (simp add: ServeHTTP_def samples_Ingest samples_Claim samples_Submit samples_none)

section \<open>Requests as a whole\<close>

text \<open>
  The service refines the store. Whatever request is served, the database moves along a run
  of store operations, so a reachable database stays reachable and keeps the store's invariant;
  and a request that is not a \<open>POST\<close> leaves the database as it is.
\<close>

lemma rest_refines_store:
  assumes "ServeHTTP dec loc (service env m) st r = (resp, ms, st')"
  shows "runs store_step any_store (bDb st) (bDb st') \<and>
    (reachable (bDb st) \<longrightarrow> reachable (bDb st') \<and> db_inv (bDb st')) \<and>
    (qMethod r \<noteq> ''POST'' \<longrightarrow> bDb st' = bDb st)"
proof -
  have run: "runs store_step any_store (bDb st) (bDb st')"
    using pg.rel_ServeHTTP [of st dec loc env m r] assms by (simp add: store_run_def)
  moreover have "reachable (bDb st) \<longrightarrow> reachable (bDb st') \<and> db_inv (bDb st')"
    using run reachable_inv by (auto simp: reachable_def intro: runs_trans)
  moreover have "qMethod r \<noteq> ''POST'' \<longrightarrow> bDb st' = bDb st"
    using serve_get [of r dec loc env m st] assms by simp
  ultimately show ?thesis by blast
qed


text \<open>
  A lookup answers the same for every spelling of an infohash. A spelling without a slash
  that normalises to \<open>ih\<close> gets the same response, from \<open>/releases/\<close> and from \<open>/magnets/\<close>, as
  \<open>ih\<close> itself.
\<close>

lemma lookup_any_spelling:
  assumes "NormalizeInfohash raw = Inr ih" and "CHR ''/'' \<notin> set raw"
  shows "handleGetRelease loc h st \<lparr>qMethod = meth, qPath = ''/releases/'' @ raw, qBody = body\<rparr> =
      handleGetRelease loc h st \<lparr>qMethod = meth, qPath = ''/releases/'' @ ih, qBody = body\<rparr> \<and>
    handleGetMagnet h st \<lparr>qMethod = meth, qPath = ''/magnets/'' @ raw, qBody = body\<rparr> =
      handleGetMagnet h st \<lparr>qMethod = meth, qPath = ''/magnets/'' @ ih, qBody = body\<rparr>"
proof -
  note ih = NormalizeInfohash_isCanonical [OF assms(1)]
  have no_slash: "\<not> str_contains s ''/''" if "CHR ''/'' \<notin> set s" for s
    using that by (auto simp: str_contains_iff dest: set_mono_sublist)
  have "\<not> is_alnum (CHR ''/'')" by code_simp
  then have "CHR ''/'' \<notin> set ih"
    using canonical_alnum [OF ih] by (auto simp: list_all_iff)
  moreover have "raw \<noteq> []" using assms(1) by (auto simp: NormalizeInfohash_def trim_space_def trim_left_def trim_right_def)
  moreover have "ih \<noteq> []" using ih by (auto simp: isCanonicalInfohash_def)
  ultimately have "path_infohash pre (pre @ raw) = Some ih" "path_infohash pre (pre @ ih) = Some ih" for pre
    using assms no_slash NormalizeInfohash_fixed [OF ih] by (simp_all add: path_infohash_def trim_prefix_def Let_def)
  note p = this
  note p [of "''/releases/''", simplified] p [of "''/magnets/''", simplified]
  then show ?thesis by (simp add: handleGetRelease_def handleGetMagnet_def)
qed


text \<open>
  Sending a batch again changes nothing. After an accepted ingest, the same request to a
  working store is answered 200 with nothing new and nothing updated, and no table changes.
\<close>

lemma ingest_batch_idempotent:
  assumes "handleIngest dec (service env m) st r = (resp, ms, st')" and "hrStatus resp = 200"
    and "\<forall>n \<ge> bCalls st'. reliable (env n)"
  shows "\<exists>summary ms2 st2. handleIngest dec (service env m) st' r =
      (reply 200 (IngestPayload summary), ms2, st2) \<and>
    ibNew (isBatch summary) = 0 \<and> ibUpdated (isBatch summary) = 0 \<and> same_tables (bDb st') (bDb st2)"
proof -
  from handleIngest_ok [OF assms(1,2)] obtain posts batch ms1 st1 qs where h: "qMethod r = ''POST''"
    "Option.bind (qBody r) (decIngest dec) = Some posts" "length posts \<le> maxBatchPosts"
    "\<not> (\<exists>post \<in> set posts. missing_source post)"
    "ingest_loop (service env m) 0 empty_batch [] st posts = ((batch, no_failure, 200, ''''), ms1, st1)"
    "read_call env QueueStats_op st1 = (Inr qs, st')" by metis
  from loop_records [OF h(5)] h(6) have rec: "\<forall>post \<in> set posts. skipped_post post \<or> recorded (bDb st') post"
    by (simp add: read_call_eq)
  from loop_again [OF this assms(3), of m 0 empty_batch "[]"] obtain b2 ms2 st2 where l:
    "ingest_loop (service env m) 0 empty_batch [] st' posts = ((b2, no_failure, 200, ''''), ms2, st2)"
    "ibNew b2 = 0" "ibUpdated b2 = 0" "same_tables (bDb st') (bDb st2)" "bCalls st' \<le> bCalls st2"
    by (auto simp: empty_batch_def)
  obtain qres st3 where q: "read_call env QueueStats_op st2 = (qres, st3)" by fastforce
  have "reliable (env (bCalls st2))" using assms(3) l(5) by simp
  then obtain qs2 where "qres = Inr qs2" using q by (auto simp: read_call_eq QueueStats_op_def Let_def)
  moreover have "bDb st3 = bDb st2" using q by (simp add: read_call_eq)
  ultimately show ?thesis
    using h(1-4) l q by (auto simp: handleIngest_def ingestBatch_def)
qed


section \<open>A request evaluated\<close>

definition sample_post :: RawPost where
  "sample_post =
     \<lparr>rpTitle = ''t'', rpMagnet = ''magnet:?xt=urn:btih:'' @ sample_hash, rpSource = ''nyaa'',
      rpSourceID = ''1'', rpURL = [], rpPublishedAt = 5001, rpSizeBytes = 7\<rparr>"

definition sample_decoders :: decoders where
  "sample_decoders =
     \<lparr>decClaim = (\<lambda>_. Some \<lparr>crqLimit = 1, crqLeaseSeconds = 300\<rparr>), decSubmit = (\<lambda>_. None),
      decIngest = (\<lambda>_. Some [sample_post, sample_post\<lparr>rpMagnet := ''x''\<rparr>])\<rparr>"

definition sample_backend :: backend where
  "sample_backend = \<lparr>bDb = empty_database, bCalls = 0\<rparr>"

definition sample_request_ingest :: request where
  "sample_request_ingest = \<lparr>qMethod = ''POST'', qPath = ''/ingest'', qBody = Some ''[]''\<rparr>"

abbreviation "sample_env \<equiv> (\<lambda>_. sample_store 0) :: nat \<Rightarrow> Store"

lemma sample_ingested:
  "hrStatus (fst (handleIngest sample_decoders (service sample_env None) sample_backend sample_request_ingest)) = 200"
  by code_simp

section \<open>Properties\<close>

text \<open>
  C31: an ingest accounts for every post. When \<open>POST /ingest\<close> answers 200, its five buckets add
  up to the number of posts of the batch, the skipped bucket counts exactly the posts without
  a v1 infohash, the ingest counters advanced by one per post, and every other post is in the
  catalog under its source and source id. Sending the batch again changes nothing: the same request
  to a working store is answered 200 with nothing new and nothing updated, and no table changes.
\<close>

theorem ingest_accounts_for_posts:
  assumes "handleIngest dec (service env m) st r = (resp, ms, st')" and "hrStatus resp = 200"
  shows "\<exists>posts summary. Option.bind (qBody r) (decIngest dec) = Some posts \<and> length posts \<le> 1000 \<and>
    hrBody resp = IngestPayload summary \<and> batch_total (isBatch summary) = int (length posts) \<and>
    ibSkipped (isBatch summary) = int (length (filter skipped_post posts)) \<and>
    (m \<noteq> None \<longrightarrow> counted IngestPosts (\<lambda>_. True) ms = int (length posts)) \<and>
    (\<forall>post \<in> set posts. skipped_post post \<or> recorded (bDb st') post) \<and>
    ((\<forall>n \<ge> bCalls st'. reliable (env n)) \<longrightarrow>
      (\<exists>summary2 ms2 st2. handleIngest dec (service env m) st' r = (reply 200 (IngestPayload summary2), ms2, st2) \<and>
        ibNew (isBatch summary2) = 0 \<and> ibUpdated (isBatch summary2) = 0 \<and> same_tables (bDb st') (bDb st2)))"
proof -
  note again = ingest_batch_idempotent [OF assms]
  from handleIngest_ok [OF assms] obtain posts batch ms1 st1 qs where h: "qMethod r = ''POST''"
    "Option.bind (qBody r) (decIngest dec) = Some posts" "length posts \<le> maxBatchPosts"
    "ingest_loop (service env m) 0 empty_batch [] st posts = ((batch, no_failure, 200, ''''), ms1, st1)"
    "read_call env QueueStats_op st1 = (Inr qs, st')"
    "resp = reply 200 (IngestPayload \<lparr>isBatch = batch, isQueue = \<lparr>wqAvailable = int (qsAvailable qs),
       wqLeased = int (qsLeased qs), wqExhausted = int (qsExhausted qs)\<rparr>\<rparr>)"
    "ms = ms1 @ m_IngestBatch m (length posts) ''ok''" by metis
  have "counted IngestPosts (\<lambda>_. True) (m_IngestBatch m n res) = 0" for n res
    by (simp add: m_IngestBatch_def)
  with h pg.ingest_loop_total [OF h(4)] loop_records [OF h(4)] obtain summary where
    "length posts \<le> 1000" "hrBody resp = IngestPayload summary" "batch_total (isBatch summary) = int (length posts)"
    "ibSkipped (isBatch summary) = int (length (filter skipped_post posts))"
    "m \<noteq> None \<longrightarrow> counted IngestPosts (\<lambda>_. True) ms = int (length posts)"
    "\<forall>post \<in> set posts. skipped_post post \<or> recorded (bDb st') post"
    by (auto simp: reply_def maxBatchPosts_def read_call_eq)
  with h(2) again show ?thesis by blast
qed

theorem ingest_accounts_for_posts_witness:
  "\<exists>summary. hrBody (fst (handleIngest sample_decoders (service sample_env None) sample_backend
      sample_request_ingest)) = IngestPayload summary \<and> batch_total (isBatch summary) = 2"
proof -
  obtain resp ms st' where h: "handleIngest sample_decoders (service sample_env None) sample_backend
      sample_request_ingest = (resp, ms, st')" by (metis prod.exhaust)
  with sample_ingested have "hrStatus resp = 200" by simp
  moreover have "Option.bind (qBody sample_request_ingest) (decIngest sample_decoders) =
      Some [sample_post, sample_post\<lparr>rpMagnet := ''x''\<rparr>]"
    by (simp add: sample_request_ingest_def sample_decoders_def)
  ultimately show ?thesis using ingest_accounts_for_posts [OF h] by (auto simp: h)
qed

text \<open>
  C34: rejections are clean and internal errors disclose nothing. Every response has one of six
  statuses; one that rejects the request (400, 404, 405, 409) left the database exactly as it
  was; and a 500 carries a fixed text, never that of the error behind it.
\<close>

theorem rest_rejections:
  assumes "ServeHTTP dec loc (service env m) st r = (resp, ms, st')"
  shows "hrStatus resp \<in> {200, 400, 404, 405, 409, 500} \<and>
    (hrStatus resp \<in> {400, 404, 405, 409} \<longrightarrow> bDb st' = bDb st) \<and>
    (hrStatus resp = 500 \<longrightarrow> discloses_nothing (hrBody resp))"
  using answer_Serve [of st dec loc env m r] by (simp add: assms answer_ok_def)

theorem rest_rejections_witness:
  "bDb (snd (snd (ServeHTTP sample_decoders (\<lambda>_. 0) (service sample_env None) sample_backend
     \<lparr>qMethod = ''POST'', qPath = ''/submit'', qBody = None\<rparr>))) = empty_database"
proof -
  obtain resp ms st' where h: "ServeHTTP sample_decoders (\<lambda>_. 0) (service sample_env None) sample_backend
      \<lparr>qMethod = ''POST'', qPath = ''/submit'', qBody = None\<rparr> = (resp, ms, st')" by (metis prod.exhaust)
  have "hrStatus (fst (ServeHTTP sample_decoders (\<lambda>_. 0) (service sample_env None) sample_backend
      \<lparr>qMethod = ''POST'', qPath = ''/submit'', qBody = None\<rparr>)) = 400"
    by code_simp
  with rest_rejections [OF h] h show ?thesis by (simp add: sample_backend_def)
qed

end
