(* ===== verification/Service.thy ===== *)
theory Service
  imports Rest_Store
begin

text \<open>
  The remaining surfaces of the service process: the three tools of the MCP server
  (\<open>internal/mcp\<close>), the health check (\<open>internal/health\<close>) and the validation of the
  configuration (\<open>internal/config\<close>). A tool is a function from its typed input to the result,
  the samples it records and the state; \<open>dur\<close> is the measured duration. The MCP protocol itself
  is that of the SDK and is not modelled.
\<close>

section \<open>Definitions\<close>

subsection \<open>MCP tools\<close>

text \<open>\<open>ToolError code e\<close> is \<open>errorResult\<close>: the wire code and the text of \<open>e\<close>.\<close>

datatype 'a tool_result = ToolError string dispatch_error | ToolOk 'a

definition errorResult :: "dispatch_error \<Rightarrow> 'a tool_result" where
  "errorResult err = ToolError (WireCode err) err"

record 'st mcp_server =
  msDispatch :: "'st Dispatcher"
  msMetrics :: "Takuhai option"

definition NewServerWithMetrics :: "'st StoreSeam \<Rightarrow> Takuhai option \<Rightarrow> 'st mcp_server" where
  "NewServerWithMetrics s m = \<lparr>msDispatch = New s, msMetrics = m\<rparr>"

definition get_release_tool ::
  "(time \<Rightarrow> int) \<Rightarrow> duration \<Rightarrow> 'st mcp_server \<Rightarrow> 'st \<Rightarrow> GetReleaseRequest \<Rightarrow>
   GetReleaseResult tool_result \<times> sample list \<times> 'st" where
  "get_release_tool loc dur s st input =
     (case GetReleaseTyped loc (msDispatch s) st input of
        (Inl err, st') \<Rightarrow> (errorResult err, m_MCPTool (msMetrics s) ''get_release'' ''error'' dur, st')
      | (Inr out, st') \<Rightarrow> (ToolOk out, m_MCPTool (msMetrics s) ''get_release'' ''ok'' dur, st'))"

definition list_releases_tool ::
  "(time \<Rightarrow> int) \<Rightarrow> duration \<Rightarrow> 'st mcp_server \<Rightarrow> 'st \<Rightarrow> ListReleasesRequest \<Rightarrow>
   ListReleasesResult tool_result \<times> sample list \<times> 'st" where
  "list_releases_tool loc dur s st input =
     (case ListReleasesTyped loc (msDispatch s) st input of
        (Inl err, st') \<Rightarrow> (errorResult err, m_MCPTool (msMetrics s) ''list_releases'' ''error'' dur, st')
      | (Inr out, st') \<Rightarrow> (ToolOk out, m_MCPTool (msMetrics s) ''list_releases'' ''ok'' dur, st'))"

definition resolve_magnets_tool ::
  "duration \<Rightarrow> 'st mcp_server \<Rightarrow> 'st \<Rightarrow> ResolveMagnetsRequest \<Rightarrow>
   ResolveMagnetsResult tool_result \<times> sample list \<times> 'st" where
  "resolve_magnets_tool dur s st input =
     (case ResolveMagnetsTyped (msDispatch s) st input of
        (Inl err, st') \<Rightarrow> (errorResult err, m_MCPTool (msMetrics s) ''resolve_magnets'' ''error'' dur, st')
      | (Inr out, st') \<Rightarrow>
          (ToolOk out,
           m_MCPTool (msMetrics s) ''resolve_magnets'' ''ok'' dur @
           m_MCPResolveMagnets (msMetrics s) (int (card (dom (rmMagnets out))))
             (let n = int (length (rmInfohashes input)) - int (card (dom (rmMagnets out)))
              in if n < 0 then 0 else n), st'))"

definition refNamespace :: "string \<Rightarrow> string" where
  "refNamespace ref = (case str_cut ref (CHR '':'') of None \<Rightarrow> [] | Some (ns, _) \<Rightarrow> ns)"

subsection \<open>Health\<close>

text \<open>The status, and the error an unhealthy answer names.\<close>

definition healthz :: "'st StoreSeam \<Rightarrow> 'st \<Rightarrow> (int \<times> store_error option) \<times> 'st" where
  "healthz s st =
     (case ssPing s st of
        (Inl err, st') \<Rightarrow> ((503, Some err), st')
      | (Inr _, st') \<Rightarrow> ((200, None), st'))"

subsection \<open>Configuration\<close>

record Config =
  Addr :: string
  DatabaseURL :: string
  LogLevel :: string
  ConfigMaxAttempts :: int

datatype config_error = DatabaseURLRequired | UnknownLogLevel string | MaxAttemptsNotPositive

definition validLogLevels :: "string list" where
  "validLogLevels = [''debug'', ''info'', ''warn'', ''error'']"

definition Validate :: "Config \<Rightarrow> config_error option" where
  "Validate c =
     (if DatabaseURL c = [] then Some DatabaseURLRequired
      else if LogLevel c \<notin> set validLogLevels then Some (UnknownLogLevel (LogLevel c))
      else if ConfigMaxAttempts c \<le> 0 then Some MaxAttemptsNotPositive
      else None)"

section \<open>Lemmas\<close>

lemma samples_tools:
  "list_all (accepted takuhai_metrics) (fst (snd (get_release_tool loc dur s st gr)))"
  "list_all (accepted takuhai_metrics) (fst (snd (list_releases_tool loc dur s st lr)))"
  "list_all (accepted takuhai_metrics) (fst (snd (resolve_magnets_tool dur s st rm)))"
  by (simp_all add: get_release_tool_def list_releases_tool_def resolve_magnets_tool_def
      takuhai_samples_accepted split: prod.split sum.split)

text \<open>The tools and the health check are read-only.\<close>

lemma tools_read_only:
  "bDb (snd (snd (get_release_tool loc dur (NewServerWithMetrics (postgres env) m) st gr))) = bDb st"
  "bDb (snd (snd (list_releases_tool loc dur (NewServerWithMetrics (postgres env) m) st lr))) = bDb st"
  "bDb (snd (snd (resolve_magnets_tool dur (NewServerWithMetrics (postgres env) m) st rm))) = bDb st"
  "bDb (snd (healthz (postgres env) st)) = bDb st"
  by (simp_all add: get_release_tool_def list_releases_tool_def resolve_magnets_tool_def healthz_def
      NewServerWithMetrics_def typed_defs postgres_def read_call_eq split: prod.split sum.split)

text \<open>A configuration that passes validation keeps its limit when the store is built.\<close>

lemma Validate_limit:
  "Validate c = None \<Longrightarrow>
   QueueMaxAttempts (cfg (NewStoreWithConfig wall p clk \<lparr>QueueMaxAttempts = ConfigMaxAttempts c\<rparr>)) = ConfigMaxAttempts c"
  by (auto simp: Validate_def NewStoreWithConfig_def split: if_splits)

section \<open>Properties\<close>

text \<open>
  C36: the metrics are well typed. The metrics of the service, its gauges included, have distinct
  names, what the collector of the gauges returns is described, without a repeated series, every sample
  that the constructor, a request or an MCP tool records names a registered metric of the right kind with
  as many label values as the metric has labels and no negative increment, and the route label
  of a path does not depend on the order in which the route table is searched.
\<close>

theorem service_samples_accepted:
  "distinct (map (full_name \<circ> snd) takuhai_metrics @ map gName Describe @
     [gName (fst (registerBuildInfo ''takuhai'' version commit))]) \<and>
   scrape_ok (fst (Collect ops st)) \<and>
   list_all (accepted takuhai_metrics) (snd NewTakuhai) \<and>
   list_all (accepted takuhai_metrics) (fst (snd (ServeHTTP dec loc h st r))) \<and>
   list_all (accepted takuhai_metrics) (http_wrap m meth path code dur) \<and>
   list_all (accepted takuhai_metrics) (fst (snd (get_release_tool loc dur s st gr)) @
     fst (snd (list_releases_tool loc dur s st lr)) @ fst (snd (resolve_magnets_tool dur s st rm))) \<and>
   (mset rs = mset takuhai_routes \<longrightarrow> route rs path = route takuhai_routes path)"
  unfolding list_all_append
  by (intro conjI impI takuhai_all_names Collect_scrape_ok takuhai_samples_accepted samples_Serve samples_tools route_any_order)

theorem service_samples_accepted_witness:
  "route (rev takuhai_routes) ''/magnets/x'' = ''/magnets/{infohash}''"
proof -
  have "mset (rev takuhai_routes) = mset takuhai_routes" by simp
  with service_samples_accepted [of "[]" "[]" "postgres sample_env" sample_backend sample_decoders "\<lambda>_. 0" "service sample_env None"
      sample_request_ingest "\<lparr>hRoutes = takuhai_routes\<rparr>" "''GET''" "''/magnets/x''" 200 0
      "NewServerWithMetrics (postgres sample_env) None" "\<lparr>grInfohash = []\<rparr>"
      "\<lparr>lrRef = [], lrSince = None, lrLimit = 0, lrCursor = []\<rparr>" "\<lparr>rmInfohashes = []\<rparr>" "rev takuhai_routes"]
  have "route (rev takuhai_routes) ''/magnets/x'' = route takuhai_routes ''/magnets/x''" by blast
  also have "\<dots> = ''/magnets/{infohash}''" by code_simp
  finally show ?thesis .
qed

end
