(* ===== verification/Commands.thy ===== *)
theory Commands
  imports Flags Service
begin

text \<open>
  How the three programs are configured: flags, their fallbacks in the environment, defaults and
  validation, from \<open>cmd/takuhai/main.go\<close>, \<open>sources/dmhy/cmd/takuhai-dmhy/main.go\<close> and
  \<open>sources/nyaa/cmd/takuhai-nyaa/main.go\<close>. \<open>env\<close> is the environment of the process.
\<close>

section \<open>Definitions\<close>

type_synonym os_env = "string \<rightharpoonup> string"

definition Getenv :: "os_env \<Rightarrow> string \<Rightarrow> string" where
  "Getenv env name = (case env name of None \<Rightarrow> [] | Some v \<Rightarrow> v)"

datatype command_error =
    MissingCommand
  | UnknownCommand string
  | BadEnvironment string
  | FlagError flag_error
  | PositionalArgs
  | InvalidLogLevel string
  | NeedsFile
  | ConfigError config_error

subsection \<open>Log levels\<close>

definition LevelDebug :: int where "LevelDebug = - 4"
definition LevelInfo :: int where "LevelInfo = 0"
definition LevelWarn :: int where "LevelWarn = 4"
definition LevelError :: int where "LevelError = 8"

definition parseLogLevel :: "string \<Rightarrow> command_error + int" where
  "parseLogLevel s =
     (if s = ''debug'' then Inr LevelDebug
      else if s = ''info'' then Inr LevelInfo
      else if s = ''warn'' then Inr LevelWarn
      else if s = ''error'' then Inr LevelError
      else Inl (InvalidLogLevel s))"

definition slogLevel :: "string \<Rightarrow> int" where
  "slogLevel s =
     (if s = ''debug'' then LevelDebug
      else if s = ''warn'' then LevelWarn
      else if s = ''error'' then LevelError
      else LevelInfo)"

subsection \<open>The service\<close>

text \<open>An empty variable, and one that is no number, leave the default.\<close>

definition stringFlag :: "os_env \<Rightarrow> string \<Rightarrow> string \<Rightarrow> string" where
  "stringFlag env name def = (let v = Getenv env name in if v \<noteq> [] then v else def)"

definition intFlag :: "os_env \<Rightarrow> string \<Rightarrow> int \<Rightarrow> int" where
  "intFlag env name def =
     (let v = Getenv env name
      in if v \<noteq> [] then (case atoi v of Some n \<Rightarrow> n | None \<Rightarrow> def) else def)"

record takuhai_flags =
  showVersion :: bool
  addr :: string
  databaseURL :: string
  logLevel :: string
  queueMaxAttempts :: int

definition takuhai_defaults :: "os_env \<Rightarrow> takuhai_flags" where
  "takuhai_defaults env =
     \<lparr>showVersion = False,
      addr = stringFlag env ''TAKUHAI_ADDR'' '':8080'',
      databaseURL = stringFlag env ''TAKUHAI_DATABASE_URL'' '''',
      logLevel = stringFlag env ''TAKUHAI_LOG_LEVEL'' ''info'',
      queueMaxAttempts = intFlag env ''TAKUHAI_QUEUE_MAX_ATTEMPTS'' 3\<rparr>"

definition takuhai_formal :: "string \<Rightarrow> takuhai_flags flag option" where
  "takuhai_formal = map_of
     [(''version'', bool_flag showVersion_update),
      (''addr'', string_flag addr_update),
      (''database-url'', string_flag databaseURL_update),
      (''log-level'', string_flag logLevel_update),
      (''queue-max-attempts'', int_flag queueMaxAttempts_update)]"

text \<open>
  What \<open>run\<close> does before it touches the world: \<open>flag.Parse\<close> ends the process on an error or a call
  for help, the version is printed, or the service starts with a configuration and a log level.
\<close>

datatype takuhai_start = ExitStatus int | PrintVersion | Refused command_error | Start Config int

definition takuhai_config :: "os_env \<Rightarrow> string list \<Rightarrow> takuhai_start" where
  "takuhai_config env args =
     (case parse_flags takuhai_formal args (takuhai_defaults env) of
        Inl err \<Rightarrow> ExitStatus (if err = ErrHelp then 0 else 2)
      | Inr (fl, _) \<Rightarrow>
          if showVersion fl then PrintVersion
          else (let conf = \<lparr>Addr = addr fl, DatabaseURL = databaseURL fl, LogLevel = logLevel fl,
                           ConfigMaxAttempts = queueMaxAttempts fl\<rparr>
                in case Validate conf of
                     Some err \<Rightarrow> Refused (ConfigError err)
                   | None \<Rightarrow>
                       (case parseLogLevel (LogLevel conf) of
                          Inl err \<Rightarrow> Refused err
                        | Inr level \<Rightarrow> Start conf level)))"

subsection \<open>The crawlers\<close>

text \<open>Here a variable that is set counts, even when it is empty.\<close>

definition envString :: "os_env \<Rightarrow> string \<Rightarrow> string \<Rightarrow> string" where
  "envString env name def = (case env name of Some v \<Rightarrow> v | None \<Rightarrow> def)"

definition envInt :: "os_env \<Rightarrow> string \<Rightarrow> int \<Rightarrow> command_error + int" where
  "envInt env name def =
     (case env name of
        None \<Rightarrow> Inr def
      | Some v \<Rightarrow> (case atoi v of None \<Rightarrow> Inl (BadEnvironment name) | Some n \<Rightarrow> Inr n))"

definition envFloat :: "os_env \<Rightarrow> string \<Rightarrow> float_val \<Rightarrow> command_error + float_val" where
  "envFloat env name def =
     (case env name of
        None \<Rightarrow> Inr def
      | Some v \<Rightarrow> (case ParseFloat v of None \<Rightarrow> Inl (BadEnvironment name) | Some n \<Rightarrow> Inr n))"

definition envDuration ::
  "os_env \<Rightarrow> string \<Rightarrow> duration \<Rightarrow> command_error + duration" where
  "envDuration env name def =
     (case env name of
        None \<Rightarrow> Inr def
      | Some v \<Rightarrow> (case ParseDuration v of None \<Rightarrow> Inl (BadEnvironment name) | Some d \<Rightarrow> Inr d))"

definition half :: float_val where "half = Fin False (round_to_float 1 2)"

record dmhy_ServeCmd =
  dsAddr :: string
  dsBaseURL :: string
  dsSortID :: int
  dsRateRPS :: float_val
  dsCacheTTL :: duration
  dsLogLevel :: string

definition dmhy_serveDefaults :: "os_env \<Rightarrow> command_error + dmhy_ServeCmd" where
  "dmhy_serveDefaults env =
     (case envInt env ''TAKUHAI_DMHY_SORT_ID'' 2 of
        Inl err \<Rightarrow> Inl err
      | Inr sortID \<Rightarrow>
     (case envFloat env ''TAKUHAI_DMHY_RATE_RPS'' half of
        Inl err \<Rightarrow> Inl err
      | Inr rateRPS \<Rightarrow>
     (case envDuration env ''TAKUHAI_DMHY_CACHE_TTL'' (10 * 60 * 1000000000) of
        Inl err \<Rightarrow> Inl err
      | Inr cacheTTL \<Rightarrow>
          Inr \<lparr>dsAddr = envString env ''TAKUHAI_DMHY_ADDR'' '':8081'',
               dsBaseURL = envString env ''TAKUHAI_DMHY_BASE_URL'' ''https://share.dmhy.org'',
               dsSortID = sortID, dsRateRPS = rateRPS, dsCacheTTL = cacheTTL,
               dsLogLevel = envString env ''TAKUHAI_DMHY_LOG_LEVEL'' ''info''\<rparr>)))"

definition dmhy_formal :: "string \<Rightarrow> dmhy_ServeCmd flag option" where
  "dmhy_formal = map_of
     [(''addr'', string_flag dsAddr_update),
      (''dmhy-base-url'', string_flag dsBaseURL_update),
      (''sort-id'', int_flag dsSortID_update),
      (''rate-rps'', float_flag dsRateRPS_update),
      (''cache-ttl'', duration_flag dsCacheTTL_update),
      (''log-level'', string_flag dsLogLevel_update)]"

definition dmhy_parseServe ::
  "os_env \<Rightarrow> string list \<Rightarrow> command_error + dmhy_ServeCmd" where
  "dmhy_parseServe env args =
     (case dmhy_serveDefaults env of
        Inl err \<Rightarrow> Inl err
      | Inr defaults \<Rightarrow>
          (case parse_flags dmhy_formal args defaults of
             Inl err \<Rightarrow> Inl (FlagError err)
           | Inr (cmd, rest) \<Rightarrow>
               if rest \<noteq> [] then Inl PositionalArgs
               else if dsLogLevel cmd \<in> set validLogLevels then Inr cmd
               else Inl (InvalidLogLevel (dsLogLevel cmd))))"

record nyaa_ServeCmd =
  nsAddr :: string
  nsBaseURL :: string
  nsQuery :: string
  nsCategory :: string
  nsFilter :: string
  nsRateRPS :: float_val
  nsLogLevel :: string

definition nyaa_serveDefaults :: "os_env \<Rightarrow> command_error + nyaa_ServeCmd" where
  "nyaa_serveDefaults env =
     (case envFloat env ''TAKUHAI_NYAA_RATE_RPS'' half of
        Inl err \<Rightarrow> Inl err
      | Inr rateRPS \<Rightarrow>
          Inr \<lparr>nsAddr = envString env ''TAKUHAI_NYAA_ADDR'' '':8082'',
               nsBaseURL = envString env ''TAKUHAI_NYAA_BASE_URL'' ''https://nyaa.si'',
               nsQuery = envString env ''TAKUHAI_NYAA_QUERY'' '''',
               nsCategory = envString env ''TAKUHAI_NYAA_CATEGORY'' ''1_0'',
               nsFilter = envString env ''TAKUHAI_NYAA_FILTER'' ''0'',
               nsRateRPS = rateRPS,
               nsLogLevel = envString env ''TAKUHAI_NYAA_LOG_LEVEL'' ''info''\<rparr>)"

definition nyaa_formal :: "string \<Rightarrow> nyaa_ServeCmd flag option" where
  "nyaa_formal = map_of
     [(''addr'', string_flag nsAddr_update),
      (''nyaa-base-url'', string_flag nsBaseURL_update),
      (''query'', string_flag nsQuery_update),
      (''category'', string_flag nsCategory_update),
      (''filter'', string_flag nsFilter_update),
      (''rate-rps'', float_flag nsRateRPS_update),
      (''log-level'', string_flag nsLogLevel_update)]"

definition nyaa_parseServe :: "os_env \<Rightarrow> string list \<Rightarrow> command_error + nyaa_ServeCmd" where
  "nyaa_parseServe env args =
     (case nyaa_serveDefaults env of
        Inl err \<Rightarrow> Inl err
      | Inr defaults \<Rightarrow>
          (case parse_flags nyaa_formal args defaults of
             Inl err \<Rightarrow> Inl (FlagError err)
           | Inr (cmd, rest) \<Rightarrow>
               if rest \<noteq> [] then Inl PositionalArgs
               else if nsLogLevel cmd \<in> set validLogLevels then Inr cmd
               else Inl (InvalidLogLevel (nsLogLevel cmd))))"

subsection \<open>The parse command\<close>

record ParseCmd =
  pcFiles :: "string list"
  pcOut :: string
  pcKeepGoing :: bool

definition parse_formal :: "string \<Rightarrow> ParseCmd flag option" where
  "parse_formal = map_of
     [(''out'', string_flag pcOut_update),
      (''o'', string_flag pcOut_update),
      (''keep-going'', bool_flag pcKeepGoing_update)]"

definition parseParse :: "string list \<Rightarrow> command_error + ParseCmd" where
  "parseParse args =
     (case parse_flags parse_formal args \<lparr>pcFiles = [], pcOut = ''-'', pcKeepGoing = False\<rparr> of
        Inl err \<Rightarrow> Inl (FlagError err)
      | Inr (cmd, rest) \<Rightarrow> if rest = [] then Inl NeedsFile else Inr (cmd\<lparr>pcFiles := rest\<rparr>))"

subsection \<open>Dispatch on the command\<close>

datatype dmhy_command = DmhyVersion | DmhyServe dmhy_ServeCmd | DmhyParse ParseCmd

definition dmhy_command :: "os_env \<Rightarrow> string list \<Rightarrow> command_error + dmhy_command" where
  "dmhy_command env args =
     (case args of
        [] \<Rightarrow> Inl MissingCommand
      | a # rest \<Rightarrow>
          if a \<in> {''--version'', ''-version'', ''version''} then Inr DmhyVersion
          else if a = ''serve'' then map_sum id DmhyServe (dmhy_parseServe env rest)
          else if a = ''parse'' then map_sum id DmhyParse (parseParse rest)
          else Inl (UnknownCommand a))"

datatype nyaa_command = NyaaVersion | NyaaServe nyaa_ServeCmd

definition nyaa_command :: "os_env \<Rightarrow> string list \<Rightarrow> command_error + nyaa_command" where
  "nyaa_command env args =
     (case args of
        [] \<Rightarrow> Inl MissingCommand
      | a # rest \<Rightarrow>
          if a \<in> {''--version'', ''-version'', ''version''} then Inr NyaaVersion
          else if a = ''serve'' then map_sum id NyaaServe (nyaa_parseServe env rest)
          else Inl (UnknownCommand a))"

section \<open>Lemmas\<close>

lemma formal_names:
  "takuhai_formal n \<noteq> None \<Longrightarrow> plain_name n"
  "dmhy_formal n \<noteq> None \<Longrightarrow> plain_name n"
  "nyaa_formal n \<noteq> None \<Longrightarrow> plain_name n"
  by (auto simp: takuhai_formal_def dmhy_formal_def nyaa_formal_def plain_name_def split: if_splits)

text \<open>Every flag is bound to its own field.\<close>

lemma takuhai_binds:
  "flag_binds takuhai_formal ''version'' ParseBool showVersion"
  "flag_binds takuhai_formal ''addr'' Some addr"
  "flag_binds takuhai_formal ''database-url'' Some databaseURL"
  "flag_binds takuhai_formal ''log-level'' Some logLevel"
  "flag_binds takuhai_formal ''queue-max-attempts'' ParseInt0 queueMaxAttempts"
  unfolding takuhai_formal_def by (rule flag_binds_table; simp add: flag_effects)+

lemma dmhy_binds:
  "flag_binds dmhy_formal ''addr'' Some dsAddr"
  "flag_binds dmhy_formal ''dmhy-base-url'' Some dsBaseURL"
  "flag_binds dmhy_formal ''sort-id'' ParseInt0 dsSortID"
  "flag_binds dmhy_formal ''rate-rps'' ParseFloat dsRateRPS"
  "flag_binds dmhy_formal ''cache-ttl'' ParseDuration dsCacheTTL"
  "flag_binds dmhy_formal ''log-level'' Some dsLogLevel"
  unfolding dmhy_formal_def by (rule flag_binds_table; simp add: flag_effects)+

lemma nyaa_binds:
  "flag_binds nyaa_formal ''addr'' Some nsAddr"
  "flag_binds nyaa_formal ''nyaa-base-url'' Some nsBaseURL"
  "flag_binds nyaa_formal ''query'' Some nsQuery"
  "flag_binds nyaa_formal ''category'' Some nsCategory"
  "flag_binds nyaa_formal ''filter'' Some nsFilter"
  "flag_binds nyaa_formal ''rate-rps'' ParseFloat nsRateRPS"
  "flag_binds nyaa_formal ''log-level'' Some nsLogLevel"
  unfolding nyaa_formal_def by (rule flag_binds_table; simp add: flag_effects)+

text \<open>
  Where the value of a setting comes from: the last one on the command line, read, or else its
  variable, or else its default. For the service a variable that is empty or cannot be read counts
  as not set; for a crawler a variable that is set counts, and must be readable even when the
  command line gives a value.
\<close>

inductive service_setting ::
  "os_env \<Rightarrow> setting list \<Rightarrow> (string \<Rightarrow> 'a option) \<Rightarrow> (string \<Rightarrow> 'a option) \<Rightarrow> string \<Rightarrow> string \<Rightarrow> 'a \<Rightarrow> 'a \<Rightarrow> bool"
  for env as rd rd_var name var dflt where
  service_line: "last_value name as = Some v \<Longrightarrow> rd v = Some x \<Longrightarrow> service_setting env as rd rd_var name var dflt x"
| service_var: "last_value name as = None \<Longrightarrow> env var = Some v \<Longrightarrow> v \<noteq> [] \<Longrightarrow> rd_var v = Some x \<Longrightarrow>
    service_setting env as rd rd_var name var dflt x"
| service_default: "last_value name as = None \<Longrightarrow> env var = None \<or> env var = Some [] \<or> Option.bind (env var) rd_var = None \<Longrightarrow>
    service_setting env as rd rd_var name var dflt dflt"

inductive crawler_setting ::
  "os_env \<Rightarrow> setting list \<Rightarrow> (string \<Rightarrow> 'a option) \<Rightarrow> (string \<Rightarrow> 'a option) \<Rightarrow> string \<Rightarrow> string \<Rightarrow> 'a \<Rightarrow> 'a \<Rightarrow> bool"
  for env as rd rd_var name var dflt where
  crawler_line: "last_value name as = Some v \<Longrightarrow> rd v = Some x \<Longrightarrow> env var = None \<or> Option.bind (env var) rd_var \<noteq> None \<Longrightarrow>
    crawler_setting env as rd rd_var name var dflt x"
| crawler_var: "last_value name as = None \<Longrightarrow> env var = Some v \<Longrightarrow> rd_var v = Some x \<Longrightarrow>
    crawler_setting env as rd rd_var name var dflt x"
| crawler_default: "last_value name as = None \<Longrightarrow> env var = None \<Longrightarrow> crawler_setting env as rd rd_var name var dflt dflt"

inductive_cases service_settingE: "service_setting env as rd rd_var name var dflt x"
inductive_cases crawler_settingE: "crawler_setting env as rd rd_var name var dflt x"

lemma service_string:
  assumes "flag_binds formal own Some g" "set_all formal as c = Some c'" "g c = stringFlag env var dflt"
  shows "service_setting env as Some Some own var dflt (g c')"
  using set_all_field [OF assms(1,2)] assms(3)
  by (auto simp: stringFlag_def Getenv_def Let_def split: option.splits if_splits intro: service_setting.intros)

lemma service_int:
  assumes "flag_binds formal own rd g" "set_all formal as c = Some c'" "g c = intFlag env var dflt"
  shows "service_setting env as rd atoi own var dflt (g c')"
  using set_all_field [OF assms(1,2)] assms(3)
  by (auto simp: intFlag_def Getenv_def Let_def split: option.splits if_splits intro: service_setting.intros)

lemma crawler_string:
  assumes "flag_binds formal own Some g" "set_all formal as c = Some c'" "g c = envString env var dflt"
  shows "crawler_setting env as Some Some own var dflt (g c')"
  using set_all_field [OF assms(1,2)] assms(3)
  by (auto simp: envString_def split: option.splits intro: crawler_setting.intros)

lemma crawler_read:
  assumes "flag_binds formal own rd g" "set_all formal as c = Some c'"
    and "(case env var of None \<Rightarrow> Inr dflt | Some v \<Rightarrow> (case rd_var v of None \<Rightarrow> Inl err | Some x \<Rightarrow> Inr x)) = Inr (g c)"
  shows "crawler_setting env as rd rd_var own var dflt (g c')"
  using set_all_field [OF assms(1,2)] assms(3)
  by (auto split: option.splits intro: crawler_setting.intros)

lemma crawler_int:
  "flag_binds formal own rd g \<Longrightarrow> set_all formal as c = Some c' \<Longrightarrow> envInt env var dflt = Inr (g c) \<Longrightarrow>
   crawler_setting env as rd atoi own var dflt (g c')"
  unfolding envInt_def by (rule crawler_read)

lemma crawler_float:
  "flag_binds formal own rd g \<Longrightarrow> set_all formal as c = Some c' \<Longrightarrow> envFloat env var dflt = Inr (g c) \<Longrightarrow>
   crawler_setting env as rd ParseFloat own var dflt (g c')"
  unfolding envFloat_def by (rule crawler_read)

lemma crawler_duration:
  "flag_binds formal own rd g \<Longrightarrow> set_all formal as c = Some c' \<Longrightarrow> envDuration env var dflt = Inr (g c) \<Longrightarrow>
   crawler_setting env as rd ParseDuration own var dflt (g c')"
  unfolding envDuration_def by (rule crawler_read)

lemma parse_flags_set_all:
  assumes "list_all (setting_ok formal) as" "\<And>n. formal n \<noteq> None \<Longrightarrow> plain_name n"
    and "parse_flags formal (command_line as) c = Inr (c', rest)"
  shows "set_all formal as c = Some c'" "rest = []"
  using parse_flags_settings [OF assms(1,2), of c] assms(3) by (auto split: option.splits)

lemma takuhai_config_Start:
  assumes "takuhai_config env args = Start conf level"
  obtains fl rest where "parse_flags takuhai_formal args (takuhai_defaults env) = Inr (fl, rest)" "\<not> showVersion fl"
    "conf = \<lparr>Addr = addr fl, DatabaseURL = databaseURL fl, LogLevel = logLevel fl, ConfigMaxAttempts = queueMaxAttempts fl\<rparr>"
    "Validate conf = None" "parseLogLevel (LogLevel conf) = Inr level"
  using assms by (auto simp: takuhai_config_def Let_def split: sum.splits prod.splits if_splits option.splits)

lemma dmhy_parseServe_Inr:
  assumes "dmhy_parseServe env args = Inr cmd"
  obtains defaults where "dmhy_serveDefaults env = Inr defaults"
    "parse_flags dmhy_formal args defaults = Inr (cmd, [])" "dsLogLevel cmd \<in> set validLogLevels"
  using assms by (auto simp: dmhy_parseServe_def split: sum.splits prod.splits if_splits)

lemma nyaa_parseServe_Inr:
  assumes "nyaa_parseServe env args = Inr cmd"
  obtains defaults where "nyaa_serveDefaults env = Inr defaults"
    "parse_flags nyaa_formal args defaults = Inr (cmd, [])" "nsLogLevel cmd \<in> set validLogLevels"
  using assms by (auto simp: nyaa_parseServe_def split: sum.splits prod.splits if_splits)

text \<open>What each program ends up with, setting by setting.\<close>

lemma takuhai_settings:
  assumes "list_all (setting_ok takuhai_formal) as" "takuhai_config env (command_line as) = Start conf level"
  shows "service_setting env as Some Some ''addr'' ''TAKUHAI_ADDR'' '':8080'' (Addr conf)"
    "service_setting env as Some Some ''database-url'' ''TAKUHAI_DATABASE_URL'' '''' (DatabaseURL conf)"
    "service_setting env as Some Some ''log-level'' ''TAKUHAI_LOG_LEVEL'' ''info'' (LogLevel conf)"
    "service_setting env as ParseInt0 atoi ''queue-max-attempts'' ''TAKUHAI_QUEUE_MAX_ATTEMPTS'' 3 (ConfigMaxAttempts conf)"
proof -
  from assms(2) obtain fl rest where p: "parse_flags takuhai_formal (command_line as) (takuhai_defaults env) = Inr (fl, rest)"
    and conf: "conf = \<lparr>Addr = addr fl, DatabaseURL = databaseURL fl, LogLevel = logLevel fl, ConfigMaxAttempts = queueMaxAttempts fl\<rparr>"
    by (rule takuhai_config_Start)
  note s = parse_flags_set_all(1) [OF assms(1) formal_names(1) p]
  note strings = takuhai_binds(2-4) [THEN service_string, OF s]
  show "service_setting env as Some Some ''addr'' ''TAKUHAI_ADDR'' '':8080'' (Addr conf)"
    using strings(1) by (simp add: conf takuhai_defaults_def)
  show "service_setting env as Some Some ''database-url'' ''TAKUHAI_DATABASE_URL'' '''' (DatabaseURL conf)"
    using strings(2) by (simp add: conf takuhai_defaults_def)
  show "service_setting env as Some Some ''log-level'' ''TAKUHAI_LOG_LEVEL'' ''info'' (LogLevel conf)"
    using strings(3) by (simp add: conf takuhai_defaults_def)
  show "service_setting env as ParseInt0 atoi ''queue-max-attempts'' ''TAKUHAI_QUEUE_MAX_ATTEMPTS'' 3 (ConfigMaxAttempts conf)"
    using takuhai_binds(5) [THEN service_int, OF s] by (simp add: conf takuhai_defaults_def)
qed

lemma dmhy_settings:
  assumes "list_all (setting_ok dmhy_formal) as" "dmhy_parseServe env (command_line as) = Inr cmd"
  shows "crawler_setting env as Some Some ''addr'' ''TAKUHAI_DMHY_ADDR'' '':8081'' (dsAddr cmd)"
    "crawler_setting env as Some Some ''dmhy-base-url'' ''TAKUHAI_DMHY_BASE_URL'' ''https://share.dmhy.org'' (dsBaseURL cmd)"
    "crawler_setting env as ParseInt0 atoi ''sort-id'' ''TAKUHAI_DMHY_SORT_ID'' 2 (dsSortID cmd)"
    "crawler_setting env as ParseFloat ParseFloat ''rate-rps'' ''TAKUHAI_DMHY_RATE_RPS'' half (dsRateRPS cmd)"
    "crawler_setting env as ParseDuration ParseDuration ''cache-ttl'' ''TAKUHAI_DMHY_CACHE_TTL'' (10 * 60 * 1000000000) (dsCacheTTL cmd)"
    "crawler_setting env as Some Some ''log-level'' ''TAKUHAI_DMHY_LOG_LEVEL'' ''info'' (dsLogLevel cmd)"
proof -
  from assms(2) obtain d where d: "dmhy_serveDefaults env = Inr d"
    and p: "parse_flags dmhy_formal (command_line as) d = Inr (cmd, [])" by (rule dmhy_parseServe_Inr)
  have s: "set_all dmhy_formal as d = Some cmd" by (rule parse_flags_set_all(1) [OF assms(1) formal_names(2) p])
  have f: "dsAddr d = envString env ''TAKUHAI_DMHY_ADDR'' '':8081''"
    "dsBaseURL d = envString env ''TAKUHAI_DMHY_BASE_URL'' ''https://share.dmhy.org''"
    "envInt env ''TAKUHAI_DMHY_SORT_ID'' 2 = Inr (dsSortID d)" "envFloat env ''TAKUHAI_DMHY_RATE_RPS'' half = Inr (dsRateRPS d)"
    "envDuration env ''TAKUHAI_DMHY_CACHE_TTL'' (10 * 60 * 1000000000) = Inr (dsCacheTTL d)"
    "dsLogLevel d = envString env ''TAKUHAI_DMHY_LOG_LEVEL'' ''info''"
    using d by (auto simp: dmhy_serveDefaults_def split: sum.splits)
  show "crawler_setting env as Some Some ''addr'' ''TAKUHAI_DMHY_ADDR'' '':8081'' (dsAddr cmd)"
    "crawler_setting env as Some Some ''dmhy-base-url'' ''TAKUHAI_DMHY_BASE_URL'' ''https://share.dmhy.org'' (dsBaseURL cmd)"
    "crawler_setting env as Some Some ''log-level'' ''TAKUHAI_DMHY_LOG_LEVEL'' ''info'' (dsLogLevel cmd)"
    using crawler_string [OF dmhy_binds(1) s f(1)] crawler_string [OF dmhy_binds(2) s f(2)] crawler_string [OF dmhy_binds(6) s f(6)] .
  show "crawler_setting env as ParseInt0 atoi ''sort-id'' ''TAKUHAI_DMHY_SORT_ID'' 2 (dsSortID cmd)"
    "crawler_setting env as ParseFloat ParseFloat ''rate-rps'' ''TAKUHAI_DMHY_RATE_RPS'' half (dsRateRPS cmd)"
    "crawler_setting env as ParseDuration ParseDuration ''cache-ttl'' ''TAKUHAI_DMHY_CACHE_TTL'' (10 * 60 * 1000000000) (dsCacheTTL cmd)"
    using crawler_int [OF dmhy_binds(3) s f(3)] crawler_float [OF dmhy_binds(4) s f(4)] crawler_duration [OF dmhy_binds(5) s f(5)] .
qed

lemma nyaa_settings:
  assumes "list_all (setting_ok nyaa_formal) as" "nyaa_parseServe env (command_line as) = Inr cmd"
  shows "crawler_setting env as Some Some ''addr'' ''TAKUHAI_NYAA_ADDR'' '':8082'' (nsAddr cmd)"
    "crawler_setting env as Some Some ''nyaa-base-url'' ''TAKUHAI_NYAA_BASE_URL'' ''https://nyaa.si'' (nsBaseURL cmd)"
    "crawler_setting env as Some Some ''query'' ''TAKUHAI_NYAA_QUERY'' '''' (nsQuery cmd)"
    "crawler_setting env as Some Some ''category'' ''TAKUHAI_NYAA_CATEGORY'' ''1_0'' (nsCategory cmd)"
    "crawler_setting env as Some Some ''filter'' ''TAKUHAI_NYAA_FILTER'' ''0'' (nsFilter cmd)"
    "crawler_setting env as ParseFloat ParseFloat ''rate-rps'' ''TAKUHAI_NYAA_RATE_RPS'' half (nsRateRPS cmd)"
    "crawler_setting env as Some Some ''log-level'' ''TAKUHAI_NYAA_LOG_LEVEL'' ''info'' (nsLogLevel cmd)"
proof -
  from assms(2) obtain d where d: "nyaa_serveDefaults env = Inr d"
    and p: "parse_flags nyaa_formal (command_line as) d = Inr (cmd, [])" by (rule nyaa_parseServe_Inr)
  have s: "set_all nyaa_formal as d = Some cmd" by (rule parse_flags_set_all(1) [OF assms(1) formal_names(3) p])
  note strings = nyaa_binds(1-5,7) [THEN crawler_string, OF s]
  show "crawler_setting env as Some Some ''addr'' ''TAKUHAI_NYAA_ADDR'' '':8082'' (nsAddr cmd)"
    "crawler_setting env as Some Some ''nyaa-base-url'' ''TAKUHAI_NYAA_BASE_URL'' ''https://nyaa.si'' (nsBaseURL cmd)"
    "crawler_setting env as Some Some ''query'' ''TAKUHAI_NYAA_QUERY'' '''' (nsQuery cmd)"
    "crawler_setting env as Some Some ''category'' ''TAKUHAI_NYAA_CATEGORY'' ''1_0'' (nsCategory cmd)"
    "crawler_setting env as Some Some ''filter'' ''TAKUHAI_NYAA_FILTER'' ''0'' (nsFilter cmd)"
    "crawler_setting env as Some Some ''log-level'' ''TAKUHAI_NYAA_LOG_LEVEL'' ''info'' (nsLogLevel cmd)"
    by (rule strings; use d in \<open>auto simp: nyaa_serveDefaults_def split: sum.splits\<close>)+
  show "crawler_setting env as ParseFloat ParseFloat ''rate-rps'' ''TAKUHAI_NYAA_RATE_RPS'' half (nsRateRPS cmd)"
    by (rule crawler_float [OF nyaa_binds(6) s]) (use d in \<open>auto simp: nyaa_serveDefaults_def split: sum.splits\<close>)
qed

lemma levels_known:
  "s \<in> set validLogLevels \<Longrightarrow> (s, slogLevel s) \<in> {(''debug'', - 4), (''info'', 0), (''warn'', 4), (''error'', 8)}"
  by (auto simp: validLogLevels_def slogLevel_def LevelDebug_def LevelInfo_def LevelWarn_def LevelError_def)

lemma Start_valid:
  assumes "takuhai_config env args = Start conf level"
  shows "DatabaseURL conf \<noteq> [] \<and> ConfigMaxAttempts conf \<ge> 1 \<and> (LogLevel conf, level) \<in> {(''debug'', - 4), (''info'', 0), (''warn'', 4), (''error'', 8)}"
proof -
  from assms obtain fl rest where "Validate conf = None" "parseLogLevel (LogLevel conf) = Inr level" by (rule takuhai_config_Start)
  then show ?thesis
    by (auto simp: Validate_def parseLogLevel_def LevelDebug_def LevelInfo_def LevelWarn_def LevelError_def split: if_splits)
qed

section \<open>Properties\<close>

text \<open>
  C30: which value a setting has. When a program of takuhai starts from a command line that
  consists of settings only, every setting has the last value the command line gives it, read as its
  type, or else the value of its environment variable, or else its default: for the service an empty
  variable and one that is no number count as not set, for the crawlers a variable that is set counts
  and must be readable, even when the command line overrides it. The service starts only with a
  database and at least one attempt, and each program only with one of the four log levels, which
  is the level its name says.
\<close>

theorem configuration_precedence:
  assumes "list_all (setting_ok takuhai_formal) as" "list_all (setting_ok dmhy_formal) bs" "list_all (setting_ok nyaa_formal) cs"
  shows "(takuhai_config env (command_line as) = Start conf level \<longrightarrow>
      service_setting env as Some Some ''addr'' ''TAKUHAI_ADDR'' '':8080'' (Addr conf) \<and>
      service_setting env as Some Some ''database-url'' ''TAKUHAI_DATABASE_URL'' '''' (DatabaseURL conf) \<and>
      service_setting env as Some Some ''log-level'' ''TAKUHAI_LOG_LEVEL'' ''info'' (LogLevel conf) \<and>
      service_setting env as ParseInt0 atoi ''queue-max-attempts'' ''TAKUHAI_QUEUE_MAX_ATTEMPTS'' 3 (ConfigMaxAttempts conf) \<and>
      DatabaseURL conf \<noteq> [] \<and> ConfigMaxAttempts conf \<ge> 1 \<and>
      (LogLevel conf, level) \<in> {(''debug'', - 4), (''info'', 0), (''warn'', 4), (''error'', 8)}) \<and>
    (dmhy_parseServe env (command_line bs) = Inr dcmd \<longrightarrow>
      crawler_setting env bs Some Some ''addr'' ''TAKUHAI_DMHY_ADDR'' '':8081'' (dsAddr dcmd) \<and>
      crawler_setting env bs Some Some ''dmhy-base-url'' ''TAKUHAI_DMHY_BASE_URL'' ''https://share.dmhy.org'' (dsBaseURL dcmd) \<and>
      crawler_setting env bs ParseInt0 atoi ''sort-id'' ''TAKUHAI_DMHY_SORT_ID'' 2 (dsSortID dcmd) \<and>
      crawler_setting env bs ParseFloat ParseFloat ''rate-rps'' ''TAKUHAI_DMHY_RATE_RPS'' half (dsRateRPS dcmd) \<and>
      crawler_setting env bs ParseDuration ParseDuration ''cache-ttl'' ''TAKUHAI_DMHY_CACHE_TTL'' (10 * 60 * 1000000000) (dsCacheTTL dcmd) \<and>
      crawler_setting env bs Some Some ''log-level'' ''TAKUHAI_DMHY_LOG_LEVEL'' ''info'' (dsLogLevel dcmd) \<and>
      (dsLogLevel dcmd, slogLevel (dsLogLevel dcmd)) \<in> {(''debug'', - 4), (''info'', 0), (''warn'', 4), (''error'', 8)}) \<and>
    (nyaa_parseServe env (command_line cs) = Inr ncmd \<longrightarrow>
      crawler_setting env cs Some Some ''addr'' ''TAKUHAI_NYAA_ADDR'' '':8082'' (nsAddr ncmd) \<and>
      crawler_setting env cs Some Some ''nyaa-base-url'' ''TAKUHAI_NYAA_BASE_URL'' ''https://nyaa.si'' (nsBaseURL ncmd) \<and>
      crawler_setting env cs Some Some ''query'' ''TAKUHAI_NYAA_QUERY'' '''' (nsQuery ncmd) \<and>
      crawler_setting env cs Some Some ''category'' ''TAKUHAI_NYAA_CATEGORY'' ''1_0'' (nsCategory ncmd) \<and>
      crawler_setting env cs Some Some ''filter'' ''TAKUHAI_NYAA_FILTER'' ''0'' (nsFilter ncmd) \<and>
      crawler_setting env cs ParseFloat ParseFloat ''rate-rps'' ''TAKUHAI_NYAA_RATE_RPS'' half (nsRateRPS ncmd) \<and>
      crawler_setting env cs Some Some ''log-level'' ''TAKUHAI_NYAA_LOG_LEVEL'' ''info'' (nsLogLevel ncmd) \<and>
      (nsLogLevel ncmd, slogLevel (nsLogLevel ncmd)) \<in> {(''debug'', - 4), (''info'', 0), (''warn'', 4), (''error'', 8)})"
  by (intro conjI impI; (erule takuhai_settings [OF assms(1)] dmhy_settings [OF assms(2)] nyaa_settings [OF assms(3)])?;
      (drule Start_valid, simp)?; (erule dmhy_parseServe_Inr nyaa_parseServe_Inr, erule levels_known)?)

definition sample_os_env :: os_env where
  "sample_os_env = [''TAKUHAI_DATABASE_URL'' \<mapsto> ''postgres://x'', ''TAKUHAI_QUEUE_MAX_ATTEMPTS'' \<mapsto> ''many'',
     ''TAKUHAI_ADDR'' \<mapsto> '''', ''TAKUHAI_DMHY_SORT_ID'' \<mapsto> ''31'']"

definition sample_settings :: "setting list" where
  "sample_settings = [Joined True ''log-level'' ''debug'', Split False ''log-level'' ''warn'']"

definition sample_conf :: Config where
  "sample_conf = \<lparr>Addr = '':8080'', DatabaseURL = ''postgres://x'', LogLevel = ''warn'', ConfigMaxAttempts = 3\<rparr>"

lemma sample_start: "takuhai_config sample_os_env (command_line sample_settings) = Start sample_conf 4"
  by code_simp

theorem configuration_precedence_witness:
  "service_setting sample_os_env sample_settings Some Some ''database-url'' ''TAKUHAI_DATABASE_URL'' '''' ''postgres://x'' \<and>
   service_setting sample_os_env sample_settings Some Some ''log-level'' ''TAKUHAI_LOG_LEVEL'' ''info'' ''warn'' \<and>
   \<not> service_setting sample_os_env sample_settings Some Some ''log-level'' ''TAKUHAI_LOG_LEVEL'' ''info'' ''debug'' \<and>
   service_setting sample_os_env sample_settings ParseInt0 atoi ''queue-max-attempts'' ''TAKUHAI_QUEUE_MAX_ATTEMPTS'' 3 3 \<and>
   (\<exists>cmd. dmhy_parseServe sample_os_env [] = Inr cmd \<and>
     crawler_setting sample_os_env [] ParseInt0 atoi ''sort-id'' ''TAKUHAI_DMHY_SORT_ID'' 2 (dsSortID cmd))"
proof -
  let ?cmd = "projr (dmhy_parseServe sample_os_env [])"
  have ok: "list_all (setting_ok takuhai_formal) sample_settings" by code_simp
  have none: "list_all (setting_ok dmhy_formal) []" "list_all (setting_ok nyaa_formal) []" by simp_all
  have "\<not> isl (dmhy_parseServe sample_os_env [])" by code_simp
  then have cmd: "dmhy_parseServe sample_os_env (command_line []) = Inr ?cmd" by (simp add: command_line_def)
  have "last_value ''log-level'' sample_settings = Some ''warn''" by code_simp
  then have "\<not> service_setting sample_os_env sample_settings Some Some ''log-level'' ''TAKUHAI_LOG_LEVEL'' ''info'' ''debug''"
    by (auto elim: service_settingE)
  moreover note configuration_precedence [OF ok none, of sample_os_env sample_conf 4 ?cmd] sample_start cmd
  ultimately show ?thesis
    by (intro conjI exI [of _ ?cmd]) (simp_all add: sample_conf_def command_line_def)
qed

end
