(* ===== verification/Regexp.thy ===== *)
theory Regexp
  imports Takuhai_Prelude
begin

text \<open>
  The regular expressions the sources use to read HTML pages, with the semantics of Go's
  \<open>regexp\<close>: a search finds the leftmost match, and among those that start there the one a
  backtracking search finds first.

  \<^item> \<open>matching\<close> is the backtracking search with a continuation; repetition is only over single
    characters, greedy (\<open>Many\<close>) or not (\<open>Few\<close>), which is all the patterns need.
  \<^item> Captures are listed in the order of the groups; groups are not nested.
  \<^item> Patterns are matched on bytes. Go matches characters, but every class of the patterns
    contains either all non-ASCII characters or none, and every repetition is followed by
    ASCII, so that no match starts or ends inside a character.
  \<^item> \<open>lang\<close> is the declarative reading: the texts a pattern matches, with their captures and
    in their context.
\<close>

section \<open>Definitions\<close>

datatype re =
    Eps
  | Lit string
  | Cls "char \<Rightarrow> bool"
  | Many "char \<Rightarrow> bool"
  | Few "char \<Rightarrow> bool"
  | Seq re re
  | Alt re re
  | Grp re
  | WordB

type_synonym 'r cont = "char option \<Rightarrow> string \<Rightarrow> string list \<Rightarrow> 'r option"

definition or_else :: "'r option \<Rightarrow> 'r option \<Rightarrow> 'r option" where
  "or_else a b = (case a of Some x \<Rightarrow> Some x | None \<Rightarrow> b)"

fun many :: "(char \<Rightarrow> bool) \<Rightarrow> char option \<Rightarrow> string \<Rightarrow> string list \<Rightarrow> 'r cont \<Rightarrow> 'r option" where
  "many C pv [] cs k = k pv [] cs"
| "many C pv (c # s) cs k =
     (if C c then or_else (many C (Some c) s cs k) (k pv (c # s) cs) else k pv (c # s) cs)"

fun few :: "(char \<Rightarrow> bool) \<Rightarrow> char option \<Rightarrow> string \<Rightarrow> string list \<Rightarrow> 'r cont \<Rightarrow> 'r option" where
  "few C pv [] cs k = k pv [] cs"
| "few C pv (c # s) cs k =
     or_else (k pv (c # s) cs) (if C c then few C (Some c) s cs k else None)"

definition word_char :: "char \<Rightarrow> bool" where
  "word_char c \<longleftrightarrow> is_digit c \<or> is_lower c \<or> is_upper c \<or> c = CHR ''_''"

definition next_char :: "string \<Rightarrow> char option" where
  "next_char s = (case s of [] \<Rightarrow> None | c # _ \<Rightarrow> Some c)"

definition word_boundary :: "char option \<Rightarrow> string \<Rightarrow> bool" where
  "word_boundary pv s \<longleftrightarrow>
     (case pv of None \<Rightarrow> False | Some c \<Rightarrow> word_char c) \<noteq>
     (case next_char s of None \<Rightarrow> False | Some c \<Rightarrow> word_char c)"

definition last_char :: "char option \<Rightarrow> string \<Rightarrow> char option" where
  "last_char pv u = (if u = [] then pv else Some (last u))"

primrec matching :: "re \<Rightarrow> char option \<Rightarrow> string \<Rightarrow> string list \<Rightarrow> 'r cont \<Rightarrow> 'r option" where
  "matching Eps pv s cs k = k pv s cs"
| "matching (Lit l) pv s cs k = (if prefix l s then k (last_char pv l) (drop (length l) s) cs else None)"
| "matching (Cls C) pv s cs k =
     (case s of [] \<Rightarrow> None | c # t \<Rightarrow> if C c then k (Some c) t cs else None)"
| "matching (Many C) pv s cs k = many C pv s cs k"
| "matching (Few C) pv s cs k = few C pv s cs k"
| "matching (Seq r1 r2) pv s cs k = matching r1 pv s cs (\<lambda>pv' s' cs'. matching r2 pv' s' cs' k)"
| "matching (Alt r1 r2) pv s cs k = or_else (matching r1 pv s cs k) (matching r2 pv s cs k)"
| "matching (Grp r) pv s cs k =
     matching r pv s cs (\<lambda>pv' s' cs'. k pv' s' (cs' @ [take (length s - length s') s]))"
| "matching WordB pv s cs k = (if word_boundary pv s then k pv s cs else None)"

text \<open>A match: the text before it, after it, and the captures.\<close>

record found =
  fStart :: string
  fRest :: string
  fCaps :: "string list"

fun search :: "re \<Rightarrow> char option \<Rightarrow> string \<Rightarrow> found option" where
  "search r pv s =
     (case matching r pv s [] (\<lambda>pv' s' cs. Some (s', cs)) of
        Some (s', cs) \<Rightarrow> Some \<lparr>fStart = [], fRest = s', fCaps = cs\<rparr>
      | None \<Rightarrow>
          (case s of [] \<Rightarrow> None
           | c # t \<Rightarrow> map_option (fStart_update (Cons c)) (search r (Some c) t)))"

declare search.simps [simp del]

definition MatchString :: "re \<Rightarrow> string \<Rightarrow> bool" where
  "MatchString r s \<longleftrightarrow> search r None s \<noteq> None"

definition FindStringSubmatch :: "re \<Rightarrow> string \<Rightarrow> string list option" where
  "FindStringSubmatch r s = map_option fCaps (search r None s)"

text \<open>The quotes and the character classes the patterns share.\<close>

definition dq :: char where "dq = CHR 0x22"

definition quoted :: "string \<Rightarrow> string" where "quoted u = dq # u @ [dq]"

definition any_char :: "char \<Rightarrow> bool" where "any_char _ \<longleftrightarrow> True"
definition not_dq :: "char \<Rightarrow> bool" where "not_dq c \<longleftrightarrow> c \<noteq> dq"
definition not_gt :: "char \<Rightarrow> bool" where "not_gt c \<longleftrightarrow> c \<noteq> CHR ''>''"
definition re_space :: "char \<Rightarrow> bool" where
  "re_space c \<longleftrightarrow> byte_of c \<in> {9, 10, 12, 13, 32}"

text \<open>What a pattern means.\<close>

fun lang :: "re \<Rightarrow> char option \<Rightarrow> string \<Rightarrow> string \<Rightarrow> string list \<Rightarrow> bool" where
  "lang Eps pv u rest cs \<longleftrightarrow> u = [] \<and> cs = []"
| "lang (Lit l) pv u rest cs \<longleftrightarrow> u = l \<and> cs = []"
| "lang (Cls C) pv u rest cs \<longleftrightarrow> (\<exists>c. u = [c] \<and> C c) \<and> cs = []"
| "lang (Many C) pv u rest cs \<longleftrightarrow> list_all C u \<and> cs = []"
| "lang (Few C) pv u rest cs \<longleftrightarrow> list_all C u \<and> cs = []"
| "lang (Seq r1 r2) pv u rest cs \<longleftrightarrow>
     (\<exists>u1 u2 c1 c2. u = u1 @ u2 \<and> cs = c1 @ c2 \<and> lang r1 pv u1 (u2 @ rest) c1 \<and>
        lang r2 (last_char pv u1) u2 rest c2)"
| "lang (Alt r1 r2) pv u rest cs \<longleftrightarrow> lang r1 pv u rest cs \<or> lang r2 pv u rest cs"
| "lang (Grp r) pv u rest cs \<longleftrightarrow> (\<exists>c. cs = c @ [u] \<and> lang r pv u rest c)"
| "lang WordB pv u rest cs \<longleftrightarrow> u = [] \<and> cs = [] \<and> word_boundary pv rest"

section \<open>Lemmas\<close>

lemma or_else_simps [simp]:
  "or_else (Some x) b = Some x"
  "or_else None b = b"
  by (simp_all add: or_else_def)

lemma or_else_None [simp]: "or_else a b = None \<longleftrightarrow> a = None \<and> b = None"
  by (cases a) simp_all

lemma or_else_Some: "or_else a b = Some x \<Longrightarrow> a = Some x \<or> a = None \<and> b = Some x"
  by (cases a) simp_all

lemma last_char_simps [simp]:
  "last_char pv [] = pv"
  "last_char pv (u @ v) = last_char (last_char pv u) v"
  "last_char pv (c # u) = last_char (Some c) u"
  by (simp_all add: last_char_def)

text \<open>The search with a continuation returns what the continuation returns on some match \<dots>\<close>

lemma many_Some:
  "many C pv s cs k = Some x \<Longrightarrow>
   \<exists>u rest. s = u @ rest \<and> list_all C u \<and> k (last_char pv u) rest cs = Some x"
proof (induction C pv s cs k rule: many.induct)
  case (2 C pv c s cs k)
  show ?case
  proof (cases "C c \<and> many C (Some c) s cs k = Some x")
    case True
    with 2 obtain u rest where "s = u @ rest" "list_all C u" "k (last_char (Some c) u) rest cs = Some x"
      by blast
    with True show ?thesis by (intro exI [of _ "c # u"] exI [of _ rest]) simp
  next
    case False
    with 2(2) have "k pv (c # s) cs = Some x" by (auto split: if_splits dest: or_else_Some)
    then show ?thesis by (intro exI [of _ "[]"] exI [of _ "c # s"]) simp
  qed
qed (simp add: exI [of _ "[]"])

lemma few_Some:
  "few C pv s cs k = Some x \<Longrightarrow>
   \<exists>u rest. s = u @ rest \<and> list_all C u \<and> k (last_char pv u) rest cs = Some x"
proof (induction C pv s cs k rule: few.induct)
  case (2 C pv c s cs k)
  show ?case
  proof (cases "k pv (c # s) cs = Some x")
    case True
    then show ?thesis by (intro exI [of _ "[]"] exI [of _ "c # s"]) simp
  next
    case False
    with 2(2) have c: "C c" "few C (Some c) s cs k = Some x"
      by (auto dest: or_else_Some split: if_splits)
    with 2 obtain u rest where "s = u @ rest" "list_all C u" "k (last_char (Some c) u) rest cs = Some x"
      by blast
    with c show ?thesis by (intro exI [of _ "c # u"] exI [of _ rest]) simp
  qed
qed (simp add: exI [of _ "[]"])

lemma matching_Some:
  "matching r pv s cs k = Some x \<Longrightarrow>
   \<exists>u rest c. s = u @ rest \<and> lang r pv u rest c \<and> k (last_char pv u) rest (cs @ c) = Some x"
proof (induction r arbitrary: pv s cs k)
  case (Lit l)
  then show ?case
    by (intro exI [of _ l] exI [of _ "drop (length l) s"]) (auto split: if_splits simp: prefix_def)
next
  case (Cls C)
  then obtain c t where "s = c # t" "C c" "k (Some c) t cs = Some x"
    by (auto split: list.splits if_splits)
  then show ?case by (intro exI [of _ "[c]"] exI [of _ t]) simp
next
  case (Many C)
  then show ?case by (auto dest: many_Some)
next
  case (Few C)
  then show ?case by (auto dest: few_Some)
next
  case (Seq r1 r2)
  from Seq(1) [OF Seq(3) [simplified matching.simps]] obtain u1 rest1 c1 where 1: "s = u1 @ rest1"
    "lang r1 pv u1 rest1 c1" "matching r2 (last_char pv u1) rest1 (cs @ c1) k = Some x" by blast
  from Seq(2) [OF 1(3)] obtain u2 rest c2 where 2: "rest1 = u2 @ rest"
    "lang r2 (last_char pv u1) u2 rest c2" "k (last_char (last_char pv u1) u2) rest (cs @ c1 @ c2) = Some x"
    by auto
  from 1(1,2) 2 show ?case
    by (intro exI [of _ "u1 @ u2"] exI [of _ rest] exI [of _ "c1 @ c2"]) auto
next
  case (Alt r1 r2)
  then show ?case by (fastforce dest: or_else_Some)
next
  case (Grp r)
  from Grp(1) [OF Grp(2) [simplified matching.simps]] obtain u rest c where
    "s = u @ rest" "lang r pv u rest c"
    "k (last_char pv u) rest ((cs @ c) @ [take (length s - length rest) s]) = Some x" by blast
  then show ?case by (intro exI [of _ u] exI [of _ rest] exI [of _ "c @ [u]"]) simp
qed (auto split: if_splits)

text \<open>\<dots> and fails only when the continuation fails on all of them.\<close>

lemma many_None:
  "many C pv s cs k = None \<Longrightarrow> s = u @ rest \<Longrightarrow> list_all C u \<Longrightarrow> k (last_char pv u) rest cs = None"
proof (induction C pv s cs k arbitrary: u rule: many.induct)
  case (2 C pv c s cs k)
  then show ?case by (cases u) (auto split: if_splits)
qed simp

lemma few_None:
  "few C pv s cs k = None \<Longrightarrow> s = u @ rest \<Longrightarrow> list_all C u \<Longrightarrow> k (last_char pv u) rest cs = None"
proof (induction C pv s cs k arbitrary: u rule: few.induct)
  case (2 C pv c s cs k)
  then show ?case by (cases u) (auto split: if_splits)
qed simp

lemma matching_None:
  "matching r pv s cs k = None \<Longrightarrow> s = u @ rest \<Longrightarrow> lang r pv u rest c \<Longrightarrow>
   k (last_char pv u) rest (cs @ c) = None"
proof (induction r arbitrary: pv s cs k u rest c)
  case (Many C)
  then show ?case by (auto dest: many_None)
next
  case (Few C)
  then show ?case by (auto dest: few_None)
next
  case (Seq r1 r2)
  from Seq(5) obtain u1 u2 c1 c2 where u: "u = u1 @ u2" "c = c1 @ c2" "lang r1 pv u1 (u2 @ rest) c1"
    "lang r2 (last_char pv u1) u2 rest c2" by auto
  from Seq(1) [OF Seq(3) [simplified matching.simps] _ u(3)] Seq(4) u(1)
  have "matching r2 (last_char pv u1) (u2 @ rest) (cs @ c1) k = None" by simp
  from Seq(2) [OF this refl u(4)] u show ?case by simp
next
  case (Grp r)
  from Grp(4) obtain c' where "c = c' @ [u]" "lang r pv u rest c'" by auto
  with Grp(1) [OF Grp(2) [simplified matching.simps] Grp(3), of c'] Grp(3) show ?case by simp
qed (auto split: if_splits)

text \<open>A search finds a match exactly when there is one, and the one it finds is leftmost.\<close>

lemma search_Some:
  "search r pv s = Some f \<Longrightarrow>
   \<exists>u. s = fStart f @ u @ fRest f \<and> lang r (last_char pv (fStart f)) u (fRest f) (fCaps f)"
proof (induction r pv s arbitrary: f rule: search.induct)
  case (1 r pv s)
  show ?case
  proof (cases "matching r pv s [] (\<lambda>pv' s' cs. Some (s', cs))")
    case None
    with 1(2) obtain c t g where s: "s = c # t" "search r (Some c) t = Some g" "f = g\<lparr>fStart := c # fStart g\<rparr>"
      by (subst (asm) search.simps) (auto split: list.splits)
    from 1(1) [OF None s(1,2)] s show ?thesis by auto
  next
    case (Some a)
    obtain s' cs where a: "a = (s', cs)" by (cases a)
    with Some 1(2) have "f = \<lparr>fStart = [], fRest = s', fCaps = cs\<rparr>"
      by (subst (asm) search.simps) simp
    with matching_Some [OF Some] a show ?thesis by auto
  qed
qed

lemma search_None:
  "search r pv s = None \<Longrightarrow> s = p @ u @ rest \<Longrightarrow> \<not> lang r (last_char pv p) u rest c"
proof (induction r pv s arbitrary: p rule: search.induct)
  case (1 r pv s)
  have none: "matching r pv s [] (\<lambda>pv' s' cs. Some (s', cs)) = None"
    using 1(2) by (subst (asm) search.simps) (auto split: option.splits)
  show ?case
  proof (cases p)
    case Nil
    with matching_None [OF none, of u rest c] 1(3) show ?thesis by auto
  next
    case (Cons x p')
    with 1(3) have s: "s = x # p' @ u @ rest" by simp
    with 1(2) none have "search r (Some x) (p' @ u @ rest) = None"
      by (subst (asm) search.simps) simp
    with 1(1) [OF none s] Cons show ?thesis by simp
  qed
qed

lemma search_leftmost:
  "search r pv s = Some f \<Longrightarrow> s = p @ u @ rest \<Longrightarrow> lang r (last_char pv p) u rest c \<Longrightarrow>
   length (fStart f) \<le> length p"
proof (induction r pv s arbitrary: f p rule: search.induct)
  case (1 r pv s)
  show ?case
  proof (cases "matching r pv s [] (\<lambda>pv' s' cs. Some (s', cs))")
    case None
    with 1(2) obtain x t g where s: "s = x # t" "search r (Some x) t = Some g" "f = g\<lparr>fStart := x # fStart g\<rparr>"
      by (subst (asm) search.simps) (auto split: list.splits)
    show ?thesis
    proof (cases p)
      case Nil
      with matching_None [OF None, of u rest c] 1(3,4) show ?thesis by auto
    next
      case (Cons y p')
      with 1(1) [OF None s(1,2), of p'] 1(3,4) s show ?thesis by auto
    qed
  next
    case (Some a)
    with 1(2) have "fStart f = []" by (subst (asm) search.simps) (auto split: prod.splits)
    then show ?thesis by simp
  qed
qed

lemma search_Lit: "search (Lit l) pv s \<noteq> None \<longleftrightarrow> sublist l s"
proof
  assume "search (Lit l) pv s \<noteq> None"
  then obtain f where "search (Lit l) pv s = Some f" by blast
  from search_Some [OF this] show "sublist l s" by (auto simp: sublist_def)
next
  assume "sublist l s"
  then obtain p q where "s = p @ l @ q" by (auto simp: sublist_def)
  with search_None [of "Lit l" pv s p l q "[]"] show "search (Lit l) pv s \<noteq> None" by auto
qed

lemma MatchString_Lit: "MatchString (Lit l) s \<longleftrightarrow> sublist l s"
  unfolding MatchString_def by (rule search_Lit)

lemma search_shorter: "search r pv s = Some f \<Longrightarrow> length (fRest f) \<le> length s"
  using search_Some by fastforce

text \<open>Reading a pattern from left to right.\<close>

lemma lang_Seq_steps:
  "lang (Seq (Lit l) r) pv u rest cs \<longleftrightarrow> (\<exists>v. u = l @ v \<and> lang r (last_char pv l) v rest cs)"
  "lang (Seq (Many C) r) pv u rest cs \<longleftrightarrow> (\<exists>x v. u = x @ v \<and> list_all C x \<and> lang r (last_char pv x) v rest cs)"
  "lang (Seq (Few C) r) pv u rest cs \<longleftrightarrow> (\<exists>x v. u = x @ v \<and> list_all C x \<and> lang r (last_char pv x) v rest cs)"
  "lang (Seq (Cls C) r) pv u rest cs \<longleftrightarrow> (\<exists>a v. u = a # v \<and> C a \<and> lang r (Some a) v rest cs)"
  by auto (metis last_char_simps(1,3) append_Cons append_Nil)

lemma lang_Seq_Grp:
  assumes "lang (Seq (Grp g) r) pv u rest cs"
  obtains x v c c' where "u = x @ v" "cs = c @ x # c'" "lang g pv x (v @ rest) c" "lang r (last_char pv x) v rest c'"
  using assms by auto

lemma lang_Grp_steps:
  "lang (Seq (Grp (Many C)) r) pv u rest cs \<longleftrightarrow>
     (\<exists>x v c. u = x @ v \<and> cs = x # c \<and> list_all C x \<and> lang r (last_char pv x) v rest c)"
  "lang (Seq (Grp (Few C)) r) pv u rest cs \<longleftrightarrow>
     (\<exists>x v c. u = x @ v \<and> cs = x # c \<and> list_all C x \<and> lang r (last_char pv x) v rest c)"
  "lang (Seq (Grp (Seq (Cls C) (Many C))) r) pv u rest cs \<longleftrightarrow>
     (\<exists>x v c. u = x @ v \<and> cs = x # c \<and> list_all C x \<and> x \<noteq> [] \<and> lang r (last_char pv x) v rest c)"
  by (auto simp: neq_Nil_conv) (metis append_Cons append_Nil last_char_simps(1,3) list.pred_inject(2))+

lemma lang_WordB: "lang (Seq WordB r) pv u rest cs \<longleftrightarrow> word_boundary pv (u @ rest) \<and> lang r pv u rest cs"
  by auto

lemma MatchString_lang: "MatchString r s \<longleftrightarrow> (\<exists>p u rest c. s = p @ u @ rest \<and> lang r (last_char None p) u rest c)"
proof
  assume "MatchString r s"
  then obtain f where "search r None s = Some f" by (auto simp: MatchString_def)
  from search_Some [OF this] show "\<exists>p u rest c. s = p @ u @ rest \<and> lang r (last_char None p) u rest c" by blast
next
  assume "\<exists>p u rest c. s = p @ u @ rest \<and> lang r (last_char None p) u rest c"
  with search_None [of r None s] show "MatchString r s" unfolding MatchString_def by blast
qed

text \<open>A capture is part of the match.\<close>

lemma lang_caps: "lang r pv u rest cs \<Longrightarrow> x \<in> set cs \<Longrightarrow> sublist x u"
proof (induction r arbitrary: pv u rest cs)
  case (Seq r1 r2)
  from Seq(3) obtain u1 u2 c1 c2 where s: "u = u1 @ u2" "cs = c1 @ c2" "lang r1 pv u1 (u2 @ rest) c1"
    "lang r2 (last_char pv u1) u2 rest c2" by auto
  from Seq(4) s(2) have "sublist x u1 \<or> sublist x u2" using Seq(1) [OF s(3)] Seq(2) [OF s(4)] by auto
  with s(1) show ?case by (metis sublist_append)
qed auto

lemma submatch_lang:
  assumes "FindStringSubmatch r s = Some m"
  obtains pv u rest where "lang r pv u rest m" "sublist u s"
proof -
  from assms obtain f where f: "search r None s = Some f" "m = fCaps f" by (auto simp: FindStringSubmatch_def)
  from search_Some [OF f(1)] obtain u where "s = fStart f @ u @ fRest f"
    "lang r (last_char None (fStart f)) u (fRest f) (fCaps f)" by blast
  with f(2) that show thesis by (metis sublist_appendI)
qed

lemma sublist_inner: "sublist (p @ v @ q) s \<Longrightarrow> sublist v s"
  using sublist_order.order_trans sublist_appendI by blast

lemma found_iff: "FindStringSubmatch r row = None \<longleftrightarrow> search r None row = None"
  by (simp add: FindStringSubmatch_def)

text \<open>A search whose first match can be read in one way only.\<close>

lemma FindStringSubmatch_unique:
  assumes "s = p @ u @ rest" "lang r (last_char None p) u rest c"
    and "\<And>p' u' rest' c'. s = p' @ u' @ rest' \<Longrightarrow> lang r (last_char None p') u' rest' c' \<Longrightarrow> length p' \<le> length p \<Longrightarrow> c' = c"
  shows "FindStringSubmatch r s = Some c"
proof -
  have "search r None s \<noteq> None" using search_None [of r None s p u rest c] assms(1,2) by blast
  then obtain f where f: "search r None s = Some f" by blast
  from search_Some [OF f] obtain v where "s = fStart f @ v @ fRest f" "lang r (last_char None (fStart f)) v (fRest f) (fCaps f)"
    by blast
  with assms(3) search_leftmost [OF f assms(1,2)] have "fCaps f = c" by blast
  with f show ?thesis by (simp add: FindStringSubmatch_def)
qed

section \<open>All matches\<close>

text \<open>
  Successive matches that do not overlap. Go moves on by one character after an empty match;
  no pattern of the sources matches the empty text, and the search here stops at one.
\<close>

definition matched_length :: "string \<Rightarrow> found \<Rightarrow> nat" where
  "matched_length s f = length s - length (fRest f)"

function find_all :: "re \<Rightarrow> char option \<Rightarrow> string \<Rightarrow> found list" where
  "find_all r pv s =
     (case search r pv s of
        None \<Rightarrow> []
      | Some f \<Rightarrow> f # (if length (fRest f) < length s
                       then find_all r (last_char pv (take (matched_length s f) s)) (fRest f) else []))"
  by pat_completeness auto
termination by (relation "measure (\<lambda>(r, pv, s). length s)") simp_all

declare find_all.simps [simp del]

definition FindAllStringSubmatch :: "re \<Rightarrow> string \<Rightarrow> string list list" where
  "FindAllStringSubmatch r s = map fCaps (find_all r None s)"

lemma FindAllStringSubmatch_first:
  assumes "FindStringSubmatch r s = Some c"
  obtains cs where "FindAllStringSubmatch r s = c # cs"
proof -
  from assms obtain f where "search r None s = Some f" "fCaps f = c" by (auto simp: FindStringSubmatch_def)
  then show thesis using that by (simp add: FindAllStringSubmatch_def find_all.simps [of r None s])
qed

text \<open>\<open>ReplaceAllString\<close> with the empty text: what lies between the matches.\<close>

definition remove_all :: "re \<Rightarrow> string \<Rightarrow> string" where
  "remove_all r s =
     (let fs = find_all r None s in concat (map fStart fs) @ (if fs = [] then s else fRest (last fs)))"

text \<open>The starts of the matches; each match is relative to the end of the one before.\<close>

function all_starts :: "re \<Rightarrow> char option \<Rightarrow> string \<Rightarrow> nat list" where
  "all_starts r pv s =
     (case search r pv s of
        None \<Rightarrow> []
      | Some f \<Rightarrow> length (fStart f) #
          (if length (fRest f) < length s
           then map ((+) (matched_length s f))
                  (all_starts r (last_char pv (take (matched_length s f) s)) (fRest f))
           else []))"
  by pat_completeness auto
termination by (relation "measure (\<lambda>(r, pv, s). length s)") simp_all

declare all_starts.simps [simp del]

text \<open>The slices of a text between the starts, the last one open to the end.\<close>

fun slices :: "string \<Rightarrow> nat list \<Rightarrow> string list" where
  "slices s [] = []"
| "slices s [i] = [drop i s]"
| "slices s (i # j # js) = take (j - i) (drop i s) # slices s (j # js)"

text \<open>A pattern for a tag: what it matches begins with \<open><\<close> and has no other.\<close>

definition tag_pattern :: "re \<Rightarrow> bool" where
  "tag_pattern r \<longleftrightarrow> (\<forall>pv u rest c. lang r pv u rest c \<longrightarrow> (\<exists>v. u = CHR ''<'' # v \<and> CHR ''<'' \<notin> set v))"

definition match_at :: "re \<Rightarrow> char option \<Rightarrow> string \<Rightarrow> nat \<Rightarrow> bool" where
  "match_at r pv s i \<longleftrightarrow> (\<exists>u rest c. drop i s = u @ rest \<and> lang r (last_char pv (take i s)) u rest c)"

lemma find_all_caps:
  "f \<in> set (find_all r pv s) \<Longrightarrow> \<exists>pv' u rest. lang r pv' u rest (fCaps f) \<and> sublist u s"
proof (induction r pv s rule: find_all.induct)
  case (1 r pv s)
  from 1(2) obtain g where g: "search r pv s = Some g"
    by (cases "search r pv s") (simp_all add: find_all.simps [of r pv s])
  from search_Some [OF g] obtain u where u: "s = fStart g @ u @ fRest g"
    "lang r (last_char pv (fStart g)) u (fRest g) (fCaps g)" by blast
  show ?case
  proof (cases "f = g")
    case True
    with u show ?thesis by (metis sublist_appendI)
  next
    case False
    with 1(2) g have "length (fRest g) < length s"
      "f \<in> set (find_all r (last_char pv (take (matched_length s g) s)) (fRest g))"
      by (auto simp: find_all.simps [of r pv s] split: if_splits)
    from 1(1) [OF g this] obtain pv' u' rest where m: "lang r pv' u' rest (fCaps f)" "sublist u' (fRest g)" by blast
    have "suffix (fRest g) s" using u(1) by (metis append.assoc suffixI)
    with m(2) have "sublist u' s" using suffix_imp_sublist sublist_order.order_trans by blast
    with m(1) show ?thesis by blast
  qed
qed

lemma match_at_drop:
  "match_at r pv (p @ s) (length p + i) \<longleftrightarrow> match_at r (last_char pv p) s i"
  by (simp add: match_at_def)

lemma match_at_tag: "tag_pattern r \<Longrightarrow> match_at r pv s i \<Longrightarrow> i < length s \<and> s ! i = CHR ''<''"
proof -
  assume "tag_pattern r" "match_at r pv s i"
  then obtain v rest where "drop i s = CHR ''<'' # v @ rest" unfolding tag_pattern_def match_at_def by fastforce
  then show ?thesis by (metis drop_eq_Nil list.distinct(1) not_le nth_via_drop)
qed

text \<open>The starts of a tag pattern are all the places where it matches.\<close>

lemma upt_split: "a \<le> b \<Longrightarrow> b \<le> c \<Longrightarrow> [a..<c] = [a..<b] @ [b..<c]"
  using upt_add_eq_append [of a b "c - b"] by simp

lemma upt_shift: "[a..<a + m] = map ((+) a) [0..<m]"
  by (rule nth_equalityI) simp_all

lemma all_starts_tag:
  assumes "tag_pattern r"
  shows "all_starts r pv s = filter (match_at r pv s) [0..<length s]"
  using assms
proof (induction r pv s rule: all_starts.induct)
  case (1 r pv s)
  show ?case
  proof (cases "search r pv s")
    case None
    have "\<not> match_at r pv s i" for i
      using search_None [OF None, of "take i s"] by (auto simp: match_at_def) (metis append_take_drop_id)
    with None show ?thesis by (simp add: all_starts.simps)
  next
    case (Some f)
    from search_Some [OF Some] obtain u where u: "s = fStart f @ u @ fRest f"
      "lang r (last_char pv (fStart f)) u (fRest f) (fCaps f)" by blast
    with 1(2) obtain v where v: "u = CHR ''<'' # v" "CHR ''<'' \<notin> set v" unfolding tag_pattern_def by blast
    define p where "p = length (fStart f)"
    have n: "matched_length s f = Suc (p + length v)" and le: "Suc (p + length v) \<le> length s"
      using u(1) v(1) by (simp_all add: matched_length_def p_def)
    have before: "\<not> match_at r pv s i" if "i < p" for i
    proof
      assume "match_at r pv s i"
      then obtain u' rest c where m: "drop i s = u' @ rest" "lang r (last_char pv (take i s)) u' rest c"
        by (auto simp: match_at_def)
      then have "s = take i s @ u' @ rest" by (metis append_take_drop_id)
      from search_leftmost [OF Some this m(2)] that show False by (simp add: p_def)
    qed
    have at: "match_at r pv s p"
      unfolding match_at_def by (rule exI [of _ u], rule exI [of _ "fRest f"], rule exI [of _ "fCaps f"])
        (use u in \<open>simp add: p_def\<close>)
    have inside: "\<not> match_at r pv s i" if lt: "p < i" "i < Suc (p + length v)" for i
    proof
      assume "match_at r pv s i"
      then have "s ! i = CHR ''<''" using match_at_tag [OF 1(2)] by blast
      moreover obtain j where j: "i = Suc (p + j)" "j < length v" using lt less_iff_Suc_add [of p i] by auto
      then have "s ! i = v ! j" using u(1) v(1) by (simp add: nth_append p_def)
      ultimately show False using v(2) j(2) nth_mem by metis
    qed
    have after: "match_at r pv s (Suc (p + length v) + i) \<longleftrightarrow>
        match_at r (last_char pv (take (Suc (p + length v)) s)) (fRest f) i" for i
    proof -
      have "s = take (Suc (p + length v)) s @ fRest f" using u(1) v(1) by (simp add: p_def)
      then show ?thesis using match_at_drop [of r pv "take (Suc (p + length v)) s" "fRest f" i] le
        by (metis add_diff_cancel_left' length_append length_take min_absorb2)
    qed
    have "[0..<length s] = [0..<p] @ p # [Suc p..<Suc (p + length v)] @ [Suc (p + length v)..<length s]"
      using le upt_split [of 0 p "length s"] upt_split [of "Suc p" "Suc (p + length v)" "length s"]
      by (simp add: upt_rec [of p "length s"])
    moreover have "[Suc (p + length v)..<length s] = map ((+) (Suc (p + length v))) [0..<length (fRest f)]"
    proof -
      have "length s = Suc (p + length v) + length (fRest f)" using u(1) v(1) by (simp add: p_def)
      then show ?thesis by (simp only: upt_shift)
    qed
    ultimately have "filter (match_at r pv s) [0..<length s] =
        p # map ((+) (Suc (p + length v))) (filter (match_at r (last_char pv (take (Suc (p + length v)) s)) (fRest f)) [0..<length (fRest f)])"
      using before at inside after by (simp add: filter_empty_conv filter_map comp_def Suc_le_eq del: upt_Suc)
    moreover have "length (fRest f) < length s" using u(1) v(1) by simp
    ultimately show ?thesis using 1(1) [OF Some _ 1(2)] Some n
      by (simp add: all_starts.simps [of r pv s] p_def)
  qed
qed

text \<open>Cutting a text at the tags of a list.\<close>

definition is_tag :: "string \<Rightarrow> bool" where
  "is_tag l \<longleftrightarrow> (\<exists>v. l = CHR ''<'' # v \<and> CHR ''<'' \<notin> set v)"

definition begins :: "string list \<Rightarrow> string \<Rightarrow> bool" where
  "begins L s \<longleftrightarrow> list_ex (\<lambda>l. prefix l s) L"

definition contains :: "string list \<Rightarrow> string \<Rightarrow> bool" where
  "contains L s \<longleftrightarrow> list_ex (\<lambda>l. sublist l s) L"

definition occurrences :: "string list \<Rightarrow> string \<Rightarrow> nat list" where
  "occurrences L s = filter (\<lambda>i. begins L (drop i s)) [0..<length s]"

lemma begins_single [simp]: "begins [l] s \<longleftrightarrow> prefix l s"
  by (simp add: begins_def)

lemma contains_single [simp]: "contains [l] s \<longleftrightarrow> sublist l s"
  by (simp add: contains_def)

lemma all_starts_tags:
  assumes "list_all is_tag L" "\<And>pv u rest c. lang r pv u rest c \<longleftrightarrow> u \<in> set L \<and> c = []"
  shows "all_starts r pv s = occurrences L s"
proof -
  have "tag_pattern r" using assms by (auto simp: tag_pattern_def is_tag_def list_all_iff)
  moreover have "match_at r pv s i \<longleftrightarrow> begins L (drop i s)" for i
    by (auto simp: match_at_def begins_def list_ex_iff prefix_def assms(2))
  ultimately show ?thesis by (simp add: all_starts_tag occurrences_def fun_eq_iff cong: filter_cong)
qed

lemma sublist_position: "sublist l s \<longleftrightarrow> (\<exists>i. prefix l (drop i s))"
proof
  assume "sublist l s"
  then obtain p q where "s = p @ l @ q" by (auto simp: sublist_def)
  then show "\<exists>i. prefix l (drop i s)" by (intro exI [of _ "length p"]) simp
next
  assume "\<exists>i. prefix l (drop i s)"
  then obtain i q where "drop i s = l @ q" by (auto simp: prefix_def)
  then have "s = take i s @ l @ q" by (metis append_take_drop_id)
  then show "sublist l s" by (metis sublist_appendI)
qed

lemma contains_position: "contains L s \<longleftrightarrow> (\<exists>i. begins L (drop i s))"
  by (auto simp: contains_def begins_def list_ex_iff sublist_position)

lemma begins_take: "begins L (take n s) \<Longrightarrow> begins L s"
  unfolding begins_def list_ex_iff by (metis prefix_order.trans take_is_prefix)

lemma tag_distance:
  assumes "is_tag l" "is_tag l'" "prefix l (drop i s)" "prefix l' (drop j s)" "i < j"
  shows "i + length l \<le> j"
proof (rule ccontr)
  assume "\<not> i + length l \<le> j"
  then have lt: "j - i < length l" using assms(5) by simp
  obtain v where v: "l = CHR ''<'' # v" "CHR ''<'' \<notin> set v" using assms(1) by (auto simp: is_tag_def)
  obtain v' where v': "l' = CHR ''<'' # v'" using assms(2) by (auto simp: is_tag_def)
  obtain q q' where q: "drop i s = l @ q" "drop j s = l' @ q'" using assms(3,4) by (auto simp: prefix_def)
  have "drop (j - i) (l @ q) = l' @ q'" using q assms(5) by (metis drop_drop le_add_diff_inverse2 less_imp_le)
  then have "(l @ q) ! (j - i) = CHR ''<''" using lt v' by (metis append_Cons nth_via_drop)
  moreover obtain k where k: "j = Suc (i + k)" using less_iff_Suc_add [of i j] assms(5) by auto
  ultimately have "k < length v" "v ! k = CHR ''<''" using lt v(1) by (simp_all add: nth_append)
  then show False using v(2) nth_mem by metis
qed

lemma begins_bound: "list_all is_tag L \<Longrightarrow> begins L (drop i s) \<Longrightarrow> i < length s"
proof (rule ccontr)
  assume "list_all is_tag L" "begins L (drop i s)" "\<not> i < length s"
  then show False by (auto simp: begins_def list_ex_iff list_all_iff is_tag_def)
qed

lemma begins_cut:
  assumes "list_all is_tag L" "begins L (drop i s)" "begins L (drop j s)" "i < j"
  shows "begins L (take (j - i) (drop i s))"
proof -
  from assms(2,3) obtain l l' where l: "l \<in> set L" "prefix l (drop i s)" "l' \<in> set L" "prefix l' (drop j s)"
    by (auto simp: begins_def list_ex_iff)
  with assms(1) have "is_tag l" "is_tag l'" by (auto simp: list_all_iff)
  from tag_distance [OF this l(2,4) assms(4)] have "i + length l \<le> j" .
  then have "prefix l (take (j - i) (drop i s))" using l(2) by (auto simp: prefix_def)
  with l(1) show ?thesis by (auto simp: begins_def list_ex_iff)
qed

lemma slices_tag:
  assumes "list_all is_tag L" "sorted_wrt (<) is" "is \<noteq> []"
    and "\<forall>i. i \<in> set is \<longleftrightarrow> hd is \<le> i \<and> begins L (drop i s)"
  shows "concat (slices s is) = drop (hd is) s \<and> length (slices s is) = length is \<and>
    (\<forall>row \<in> set (slices s is). begins L row \<and> \<not> contains L (tl row))"
  using assms(2-4)
proof (induction s "is" rule: slices.induct)
  case (2 s i)
  have "\<not> contains L (tl (drop i s))"
  proof
    assume "contains L (tl (drop i s))"
    then obtain j where "begins L (drop (Suc (i + j)) s)"
      by (auto simp: contains_position drop_Suc [symmetric] add.commute)
    with 2(3) [rule_format, of "Suc (i + j)"] show False by simp
  qed
  moreover have "begins L (drop i s)" using 2(3) [rule_format, of i] by simp
  ultimately show ?case by simp
next
  case (3 s i j js)
  have i: "begins L (drop i s)" and j: "begins L (drop j s)" "i < j"
    using 3(4) [rule_format, of i] 3(4) [rule_format, of j] 3(2) by auto
  have sub: "k \<in> set (j # js) \<longleftrightarrow> j \<le> k \<and> begins L (drop k s)" for k
    using 3(4) [rule_format, of k] 3(2) j by auto
  have "sorted_wrt (<) (j # js)" using 3(2) by simp
  from 3(1) [OF this] sub have IH: "concat (slices s (j # js)) = drop j s"
    "length (slices s (j # js)) = length (j # js)"
    "\<forall>row \<in> set (slices s (j # js)). begins L row \<and> \<not> contains L (tl row)" by auto
  let ?row = "take (j - i) (drop i s)"
  have "begins L ?row" by (rule begins_cut [OF assms(1) i j])
  moreover have "\<not> contains L (tl ?row)"
  proof
    assume "contains L (tl ?row)"
    then obtain k where k: "begins L (drop k (tl ?row))" by (auto simp: contains_position)
    then have b: "k < length (tl ?row)" by (rule begins_bound [OF assms(1)])
    have "drop k (tl ?row) = take (j - i - Suc k) (drop (Suc (i + k)) s)"
      by (simp add: drop_Suc [symmetric] drop_take tl_drop add.commute)
    with k have "begins L (drop (Suc (i + k)) s)" by (metis begins_take)
    moreover have "Suc (i + k) < j" using b by simp
    ultimately have "Suc (i + k) \<in> set (i # j # js)" "Suc (i + k) < j" using 3(4) [rule_format, of "Suc (i + k)"] by auto
    with 3(2) show False by auto
  qed
  moreover have "?row @ drop j s = drop i s" using j(2) by (metis append_take_drop_id drop_drop le_add_diff_inverse2 less_imp_le)
  ultimately show ?case using IH by simp
qed simp

lemma occurrences_set: "list_all is_tag L \<Longrightarrow> i \<in> set (occurrences L s) \<longleftrightarrow> begins L (drop i s)"
  using begins_bound [of L i s] by (auto simp: occurrences_def)

lemma occurrences_Nil: "list_all is_tag L \<Longrightarrow> occurrences L s = [] \<longleftrightarrow> \<not> contains L s"
  by (simp add: contains_position flip: occurrences_set set_empty2)

lemma slices_occurrences:
  assumes "list_all is_tag L"
  shows "\<exists>pre. s = pre @ concat (slices s (occurrences L s)) \<and> \<not> contains L pre \<or> occurrences L s = []"
    and "length (slices s (occurrences L s)) = length (occurrences L s)"
    and "\<forall>row \<in> set (slices s (occurrences L s)). begins L row \<and> \<not> contains L (tl row)"
proof -
  let ?is = "occurrences L s"
  have sorted: "sorted_wrt (<) ?is" by (simp add: occurrences_def sorted_wrt_filter)
  note set = occurrences_set [OF assms, of _ s]
  have all: "(\<exists>pre. s = pre @ concat (slices s ?is) \<and> \<not> contains L pre) \<and> length (slices s ?is) = length ?is \<and>
    (\<forall>row \<in> set (slices s ?is). begins L row \<and> \<not> contains L (tl row))" if ne: "?is \<noteq> []"
  proof -
    have hd: "hd ?is \<le> i" if "i \<in> set ?is" for i using that sorted ne by (cases ?is) auto
    have "\<forall>i. i \<in> set ?is \<longleftrightarrow> hd ?is \<le> i \<and> begins L (drop i s)" using set hd by blast
    note sl = slices_tag [OF assms sorted ne this]
    have "\<not> contains L (take (hd ?is) s)"
    proof
      assume "contains L (take (hd ?is) s)"
      then obtain i where i: "begins L (drop i (take (hd ?is) s))" by (auto simp: contains_position)
      then have "i < length (take (hd ?is) s)" by (rule begins_bound [OF assms])
      moreover have "begins L (drop i s)" using i by (metis drop_take begins_take)
      ultimately show False using set hd by fastforce
    qed
    with sl show ?thesis by (metis append_take_drop_id)
  qed
  then show "\<exists>pre. s = pre @ concat (slices s ?is) \<and> \<not> contains L pre \<or> ?is = []" by blast
  from all show "length (slices s ?is) = length ?is" by (cases "?is = []") auto
  from all show "\<forall>row \<in> set (slices s ?is). begins L row \<and> \<not> contains L (tl row)" by (cases "?is = []") auto
qed

text \<open>A lazy repetition stops as soon as what follows it matches.\<close>

lemma few_shortest:
  "few any_char pv s cs k = Some x \<Longrightarrow>
   \<exists>u rest. s = u @ rest \<and> k (last_char pv u) rest cs = Some x \<and>
     (\<forall>v w. s = v @ w \<longrightarrow> length v < length u \<longrightarrow> k (last_char pv v) w cs = None)"
proof (induction any_char pv s cs k rule: few.induct)
  case (2 pv c s cs k)
  show ?case
  proof (cases "k pv (c # s) cs")
    case None
    with 2(2) have "few any_char (Some c) s cs k = Some x" by (simp add: any_char_def)
    with 2(1) obtain u rest where u: "s = u @ rest" "k (last_char (Some c) u) rest cs = Some x"
      "\<forall>v w. s = v @ w \<longrightarrow> length v < length u \<longrightarrow> k (last_char (Some c) v) w cs = None"
      by (auto simp: any_char_def)
    have "k (last_char pv v) w cs = None" if "c # s = v @ w" "length v < length (c # u)" for v w
      using that u(3) None by (cases v) auto
    with u(1,2) show ?thesis by (intro exI [of _ "c # u"] exI [of _ rest]) simp
  next
    case (Some y)
    with 2(2) show ?thesis by (intro exI [of _ "[]"] exI [of _ "c # s"]) simp
  qed
qed (simp add: exI [of _ "[]"])

lemma matching_Lit:
  "matching (Seq (Lit l) r) pv s cs k = Some x \<Longrightarrow> \<exists>t. s = l @ t \<and> matching r (last_char pv l) t cs k = Some x"
  by (auto simp: prefix_def split: if_splits)

lemma shortest_capture:
  assumes "matching (Seq (Grp (Few any_char)) (Lit l)) pv s cs (\<lambda>pv' s' cs. Some (s', cs)) = Some (rest, cs')" "l \<noteq> []"
  shows "\<exists>x. s = x @ l @ rest \<and> cs' = cs @ [x] \<and> \<not> sublist l x"
proof -
  let ?k = "\<lambda>pv' s'' cs''. matching (Lit l) pv' s'' (cs'' @ [take (length s - length s'') s]) (\<lambda>pv' s' cs. Some (s', cs))"
  from assms(1) have "few any_char pv s cs ?k = Some (rest, cs')" by simp
  from few_shortest [OF this] obtain u t where u: "s = u @ t" "?k (last_char pv u) t cs = Some (rest, cs')"
    "\<forall>v w. s = v @ w \<longrightarrow> length v < length u \<longrightarrow> ?k (last_char pv v) w cs = None" by blast
  have "\<not> sublist l u"
  proof
    assume "sublist l u"
    then obtain v w where "u = v @ l @ w" by (auto simp: sublist_def)
    then have "s = v @ (l @ w @ t)" "length v < length u" using u(1) assms(2) by auto
    from u(3) [rule_format, OF this] show False by simp
  qed
  moreover have "prefix l t" "drop (length l) t = rest" "cs' = cs @ [u]" using u(1,2) by (simp_all split: if_splits)
  ultimately show ?thesis using u(1) by (auto simp: prefix_def)
qed

lemma search_matching:
  "search r pv s = Some f \<Longrightarrow>
   \<exists>t. s = fStart f @ t \<and> matching r (last_char pv (fStart f)) t [] (\<lambda>pv' s' cs. Some (s', cs)) = Some (fRest f, fCaps f)"
proof (induction r pv s arbitrary: f rule: search.induct)
  case (1 r pv s)
  show ?case
  proof (cases "matching r pv s [] (\<lambda>pv' s' cs. Some (s', cs))")
    case None
    with 1(2) obtain c t g where s: "s = c # t" "search r (Some c) t = Some g" "f = g\<lparr>fStart := c # fStart g\<rparr>"
      by (subst (asm) search.simps) (auto split: list.splits)
    from 1(1) [OF None s(1,2)] s show ?thesis by auto
  next
    case (Some a)
    with 1(2) show ?thesis by (subst (asm) search.simps) (auto split: prod.splits)
  qed
qed

lemma find_all_matching:
  "f \<in> set (find_all r pv s) \<Longrightarrow>
   \<exists>pv' p t. s = p @ t \<and> matching r pv' t [] (\<lambda>pv' s' cs. Some (s', cs)) = Some (fRest f, fCaps f)"
proof (induction r pv s rule: find_all.induct)
  case (1 r pv s)
  then obtain g where g: "search r pv s = Some g"
    by (cases "search r pv s") (simp_all add: find_all.simps [of r pv s])
  from search_Some [OF g] obtain u where u: "s = (fStart g @ u) @ fRest g" by auto
  from 1(2) g consider "f = g"
    | "length (fRest g) < length s" "f \<in> set (find_all r (last_char pv (take (matched_length s g) s)) (fRest g))"
    by (auto simp: find_all.simps [of r pv s] split: if_splits)
  then show ?case
  proof cases
    case 1
    with search_matching [OF g] show ?thesis by blast
  next
    case 2
    from "1.IH" [OF g 2] obtain pv' p t where "fRest g = p @ t"
      "matching r pv' t [] (\<lambda>pv' s' cs. Some (s', cs)) = Some (fRest f, fCaps f)" by blast
    with u have "s = (fStart g @ u @ p) @ t" by simp
    with \<open>matching r pv' t [] _ = _\<close> show ?thesis by blast
  qed
qed

end
