(* ===== verification/Dmhy.thy ===== *)
theory Dmhy
  imports Regexp Floating Gotime Rawpost
begin

text \<open>
  The HTML parser of the DMHY source, \<open>sources/dmhy/html.go\<close>, and its size parser,
  \<open>sources/dmhy/parse.go\<close>. The patterns are those of the source, one definition each; \<open>plat\<close> is
  what the platform makes of a size that does not fit 64 bits.
\<close>

section \<open>Definitions\<close>

subsection \<open>Sizes\<close>

datatype size_error = NoLeadingNumber | BadNumber | UnknownUnit string

text \<open>
  The unit is compared in upper case. \<open>strings.ToUpper\<close> turns no other character into one of the
  letters of the units, so that on the comparison it is the ASCII function.
\<close>

definition size_unit :: "string \<Rightarrow> int option" where
  "size_unit u =
     (if u = [] \<or> u = ''B'' then Some 1
      else if u = ''KB'' then Some (10 ^ 3)
      else if u = ''MB'' then Some (10 ^ 6)
      else if u = ''GB'' then Some (10 ^ 9)
      else if u = ''TB'' then Some (10 ^ 12)
      else None)"

definition number_char :: "char \<Rightarrow> bool" where
  "number_char c \<longleftrightarrow> c = CHR ''.'' \<or> is_digit c"

definition ParseSize :: "platform \<Rightarrow> string \<Rightarrow> size_error + int" where
  "ParseSize plat s0 =
     (let s = trim_space s0;
          numStr = takeWhile number_char s;
          unit = to_upper (trim_space (dropWhile number_char s))
      in if numStr = [] then Inl NoLeadingNumber
         else case ParseFloat numStr of
           None \<Rightarrow> Inl BadNumber
         | Some n \<Rightarrow>
             (case size_unit unit of
                None \<Rightarrow> Inl (UnknownUnit unit)
              | Some mult \<Rightarrow> Inr (scaled_int64 plat n mult)))"

subsection \<open>Patterns\<close>

definition row_tag :: string where "row_tag = ''<tr class='' @ quoted [] @ ''>''"
definition list_anchor :: string where "list_anchor = ''id='' @ quoted ''topic_list''"

definition archiveRowRe :: re where "archiveRowRe = Lit row_tag"
definition listTableRe :: re where "listTableRe = Lit list_anchor"

definition titleCellRe :: re where
  "titleCellRe = Seq (Lit (''<td class='' @ quoted ''title'' @ ''>'')) (Seq (Grp (Few any_char)) (Lit ''</td>''))"

definition anchorRe :: re where
  "anchorRe =
     Seq (Lit ''<a'') (Seq (Many not_gt) (Seq (Lit (''href='' @ [dq])) (Seq (Grp (Many not_dq))
       (Seq (Lit [dq]) (Seq (Many not_gt) (Seq (Lit ''>'') (Seq (Grp (Few any_char)) (Lit ''</a>''))))))))"

definition magnet_group :: re where
  "magnet_group = Grp (Seq (Lit ''magnet:'') (Many not_dq))"

definition dataMagnetRe :: re where
  "dataMagnetRe = Seq (Lit (''data-magnet='' @ [dq])) (Seq magnet_group (Lit [dq]))"

definition arrowMagnetRe :: re where
  "arrowMagnetRe =
     Seq (Lit (''class='' @ [dq])) (Seq (Many not_dq) (Seq (Lit (''arrow-magnet'' @ [dq]))
       (Seq (Many not_gt) (Seq (Lit (''href='' @ [dq])) (Seq magnet_group (Lit [dq]))))))"

definition bfSizeCellRe :: re where
  "bfSizeCellRe =
     Seq (Lit (''align='' @ quoted ''center'' @ ''>''))
       (Seq (Grp (Seq (Cls number_char) (Seq (Many number_char) (Seq (Many re_space)
          (Seq (Alt (Cls (\<lambda>c. c \<in> set ''KMGT'')) Eps) (Lit ''B''))))))
       (Lit ''<''))"

definition two_digits :: re where "two_digits = Seq (Cls is_digit) (Cls is_digit)"

definition hiddenDateRe :: re where
  "hiddenDateRe =
     Seq (Lit ''display:'') (Seq (Many re_space) (Seq (Lit ''none'')
       (Seq (Alt (Lit '';'') Eps) (Seq (Lit (dq # ''>'')) (Seq (Many re_space)
         (Grp (Seq two_digits (Seq two_digits (Seq (Lit ''/'') (Seq two_digits (Seq (Lit ''/'')
            (Seq two_digits (Seq (Lit '' '') (Seq two_digits (Seq (Lit '':'') two_digits)))))))))))))))"

subsection \<open>Rows\<close>

definition rowMagnet :: "string \<Rightarrow> string" where
  "rowMagnet row =
     (case FindStringSubmatch arrowMagnetRe row of
        Some m \<Rightarrow> m ! 0
      | None \<Rightarrow> (case FindStringSubmatch dataMagnetRe row of Some m \<Rightarrow> m ! 0 | None \<Rightarrow> []))"

definition team_marker :: string where "team_marker = ''/topics/list/team_id/''"
definition view_marker :: string where "view_marker = ''/topics/view/''"

fun title_loop :: "string \<Rightarrow> string list list \<Rightarrow> string \<times> string" where
  "title_loop team [] = ([], [])"
| "title_loop team (a # as) =
     (if str_contains (a ! 0) team_marker then title_loop (trim_space (a ! 1)) as
      else if str_contains (a ! 0) view_marker
      then (let title = trim_space (a ! 1)
            in (a ! 0, if team \<noteq> [] then ''['' @ team @ ''] '' @ title else title))
      else title_loop team as)"

definition rowTitle :: "string \<Rightarrow> string \<times> string" where
  "rowTitle row =
     (case FindStringSubmatch titleCellRe row of
        None \<Rightarrow> ([], [])
      | Some cell \<Rightarrow> title_loop [] (FindAllStringSubmatch anchorRe (cell ! 0)))"

definition rowSourceID :: "string \<Rightarrow> string" where
  "rowSourceID href =
     (case str_index href view_marker of
        None \<Rightarrow> trim_space href
      | Some i \<Rightarrow>
          (let rest = drop (i + length view_marker) href
           in case index_byte rest (CHR ''_'') of
                Some j \<Rightarrow> take j rest
              | None \<Rightarrow> (case index_byte rest (CHR ''.'') of Some j \<Rightarrow> take j rest | None \<Rightarrow> rest)))"

text \<open>\<open>time.ParseInLocation\<close> with the layout \<open>2006/01/02 15:04\<close> in a zone \<open>off\<close> seconds east.\<close>

definition parse_minutes :: "int \<Rightarrow> string \<Rightarrow> time option" where
  "parse_minutes off s =
     Option.bind (take_digits 4 s) (\<lambda>(year, s).
     Option.bind (skip_lit (CHR ''/'') s) (\<lambda>s.
     Option.bind (getnum True s) (\<lambda>(month, s).
     if month \<le> 0 \<or> 12 < month then None else
     Option.bind (skip_lit (CHR ''/'') s) (\<lambda>s.
     Option.bind (getnum True s) (\<lambda>(day, s).
     Option.bind (skip_lit (CHR '' '') s) (\<lambda>s.
     Option.bind (getnum False s) (\<lambda>(hour, s).
     if hour \<ge> 24 then None else
     Option.bind (skip_lit (CHR '':'') s) (\<lambda>s.
     Option.bind (getnum True s) (\<lambda>(minute, s).
     if minute \<ge> 60 \<or> s \<noteq> [] then None
     else if day < 1 \<or> day > days_in (is_leap year) month then None
     else Some (instant year month day hour minute 0 0 - off * 1000000000))))))))))"

definition dmhyZone :: int where "dmhyZone = 8 * 3600"

definition rowPublishedAt :: "string \<Rightarrow> time" where
  "rowPublishedAt row =
     (case FindStringSubmatch hiddenDateRe row of
        None \<Rightarrow> zero_time
      | Some m \<Rightarrow> (case parse_minutes dmhyZone (trim_space (m ! 0)) of Some t \<Rightarrow> t | None \<Rightarrow> zero_time))"

definition rowSize :: "platform \<Rightarrow> string \<Rightarrow> int" where
  "rowSize plat row =
     (case FindStringSubmatch bfSizeCellRe row of
        None \<Rightarrow> 0
      | Some m \<Rightarrow> (case ParseSize plat (m ! 0) of Inr n \<Rightarrow> n | Inl _ \<Rightarrow> 0))"

definition row_post :: "platform \<Rightarrow> string \<Rightarrow> RawPost" where
  "row_post plat row =
     (let (href, title) = rowTitle row
      in \<lparr>rpTitle = title, rpMagnet = rowMagnet row, rpSource = SourceDMHY, rpSourceID = rowSourceID href,
          rpURL = href, rpPublishedAt = rowPublishedAt row, rpSizeBytes = rowSize plat row\<rparr>)"

definition errNonArchivePage :: string where
  "errNonArchivePage =
     ''dmhy: archive page has no topic_list table (non-archive 200: interstitial, truncation, or markup drift) '' @
     [CHR 0xE2, CHR 0x80, CHR 0x94] @ '' not a legitimately-empty floor''"

definition ParseArchivePage :: "platform \<Rightarrow> string \<Rightarrow> string + RawPost list" where
  "ParseArchivePage plat body =
     (let starts = all_starts archiveRowRe None body
      in if starts = []
         then (if \<not> MatchString listTableRe body then Inl errNonArchivePage else Inr [])
         else Inr (map (row_post plat) (slices body starts)))"

section \<open>Lemmas\<close>

lemma row_tag_is_tag [simp]: "is_tag row_tag"
  by (simp add: is_tag_def row_tag_def quoted_def dq_def)

lemma archive_starts: "all_starts archiveRowRe pv body = occurrences [row_tag] body"
  by (rule all_starts_tags) (auto simp: archiveRowRe_def row_tag_is_tag)

lemma ParseArchivePage_eq:
  "ParseArchivePage plat body =
     (if sublist row_tag body then Inr (map (row_post plat) (slices body (occurrences [row_tag] body)))
      else if sublist list_anchor body then Inr [] else Inl errNonArchivePage)"
  by (simp add: ParseArchivePage_def archive_starts listTableRe_def MatchString_Lit Let_def
      occurrences_Nil)

lemma ParseArchivePage_rows:
  assumes "sublist row_tag body"
  shows "\<exists>pre rows. body = pre @ concat rows \<and> \<not> sublist row_tag pre \<and> rows \<noteq> [] \<and>
    length rows = length (occurrences [row_tag] body) \<and>
    (\<forall>row \<in> set rows. prefix row_tag row \<and> \<not> sublist row_tag (tl row)) \<and>
    ParseArchivePage plat body = Inr (map (row_post plat) rows)"
proof -
  note sl = slices_occurrences [of "[row_tag]" body, simplified]
  from assms have ne: "occurrences [row_tag] body \<noteq> []" by (simp add: occurrences_Nil)
  with sl(2) have "slices body (occurrences [row_tag] body) \<noteq> []" by auto
  moreover from sl(1) ne obtain pre where
    "body = pre @ concat (slices body (occurrences [row_tag] body))" "\<not> sublist row_tag pre" by blast
  ultimately show ?thesis using sl(2,3) assms by (auto simp: ParseArchivePage_eq)
qed

lemma ParseArchivePage_empty:
  "ParseArchivePage plat body = Inr [] \<longleftrightarrow> \<not> sublist row_tag body \<and> sublist list_anchor body"
  using ParseArchivePage_rows [of body plat] by (cases "sublist row_tag body") (auto simp: ParseArchivePage_eq)

lemma magnet_group_lang:
  "lang magnet_group pv u rest c \<Longrightarrow> c = [u] \<and> prefix ''magnet:'' u \<and> dq \<notin> set u"
proof -
  assume "lang magnet_group pv u rest c"
  then obtain v where v: "u = ''magnet:'' @ v" "list_all not_dq v" "c = [u]"
    unfolding magnet_group_def by (simp only: lang.simps lang_Seq_steps) blast
  then have "dq \<notin> set v" by (auto simp: list_all_iff not_dq_def)
  moreover have "dq \<notin> set ''magnet:''" by (simp add: dq_def)
  ultimately show ?thesis using v by (metis Un_iff prefixI set_append)
qed

lemma magnet_pattern:
  assumes "lang (Seq magnet_group (Lit [dq])) pv u rest m"
  shows "u = m ! 0 @ [dq] \<and> prefix ''magnet:'' (m ! 0) \<and> dq \<notin> set (m ! 0)"
proof -
  from assms obtain x c where x: "u = x @ [dq]" "lang magnet_group pv x ([dq] @ rest) c" "m = c @ []"
    by (simp only: lang.simps) blast
  with magnet_group_lang [OF x(2)] show ?thesis by simp
qed

lemma arrow_magnet:
  assumes "FindStringSubmatch arrowMagnetRe row = Some m"
  shows "prefix ''magnet:'' (m ! 0) \<and> dq \<notin> set (m ! 0) \<and> sublist (quoted (m ! 0)) row"
proof -
  from submatch_lang [OF assms] obtain pv u rest where u: "lang arrowMagnetRe pv u rest m" "sublist u row" .
  from u(1) obtain p pv' v where v: "u = p @ (''href='' @ [dq]) @ v" "lang (Seq magnet_group (Lit [dq])) pv' v rest m"
    unfolding arrowMagnetRe_def lang_Seq_steps by (metis append.assoc)
  from magnet_pattern [OF v(2)] have g: "v = m ! 0 @ [dq]" "prefix ''magnet:'' (m ! 0)" "dq \<notin> set (m ! 0)" by auto
  have "u = (p @ ''href='') @ quoted (m ! 0) @ []" using v(1) g(1) by (simp add: quoted_def)
  with u(2) have "sublist (quoted (m ! 0)) row" using sublist_inner by metis
  with g show ?thesis by blast
qed

lemma data_magnet:
  assumes "FindStringSubmatch dataMagnetRe row = Some m"
  shows "prefix ''magnet:'' (m ! 0) \<and> dq \<notin> set (m ! 0) \<and> sublist (quoted (m ! 0)) row"
proof -
  from submatch_lang [OF assms] obtain pv u rest where u: "lang dataMagnetRe pv u rest m" "sublist u row" .
  from u(1) obtain pv' v where v: "u = (''data-magnet='' @ [dq]) @ v" "lang (Seq magnet_group (Lit [dq])) pv' v rest m"
    unfolding dataMagnetRe_def lang_Seq_steps by blast
  from magnet_pattern [OF v(2)] have g: "v = m ! 0 @ [dq]" "prefix ''magnet:'' (m ! 0)" "dq \<notin> set (m ! 0)" by auto
  have "u = ''data-magnet='' @ quoted (m ! 0) @ []" using v(1) g(1) by (simp add: quoted_def)
  with u(2) have "sublist (quoted (m ! 0)) row" using sublist_inner by metis
  with g show ?thesis by blast
qed

lemma rowMagnet_provenance:
  assumes "rowMagnet row \<noteq> []"
  shows "prefix ''magnet:'' (rowMagnet row) \<and> dq \<notin> set (rowMagnet row) \<and> sublist (quoted (rowMagnet row)) row"
  using assms arrow_magnet data_magnet by (auto simp: rowMagnet_def split: option.splits)

text \<open>A magnet of either kind is not overlooked.\<close>

lemma magnet_pattern_complete:
  assumes "prefix ''magnet:'' mag" "dq \<notin> set mag"
  shows "lang (Seq magnet_group (Lit [dq])) pv (mag @ [dq]) rest [mag]"
proof -
  obtain v where v: "mag = ''magnet:'' @ v" using assms(1) by (auto simp: prefix_def)
  then have "list_all not_dq v" using assms(2) by (auto simp: list_all_iff not_dq_def)
  with v have "lang magnet_group pv mag ([dq] @ rest) [mag]"
    unfolding magnet_group_def by (simp only: lang.simps lang_Seq_steps) blast
  then show ?thesis by (simp only: lang.simps) blast
qed

lemma rowMagnet_complete:
  assumes "sublist (''data-magnet='' @ quoted mag) row" "prefix ''magnet:'' mag" "dq \<notin> set mag"
  shows "rowMagnet row \<noteq> []"
proof -
  from assms(1) obtain p q where row: "row = p @ ((''data-magnet='' @ [dq]) @ mag @ [dq]) @ q"
    by (auto simp: sublist_def quoted_def)
  have "lang dataMagnetRe (last_char None p) ((''data-magnet='' @ [dq]) @ mag @ [dq]) q [mag]"
    unfolding dataMagnetRe_def lang_Seq_steps using magnet_pattern_complete [OF assms(2,3)] by blast
  with row have "FindStringSubmatch dataMagnetRe row \<noteq> None" unfolding found_iff using search_None by blast
  moreover have "m ! 0 \<noteq> []"
    if "FindStringSubmatch arrowMagnetRe row = Some m \<or> FindStringSubmatch dataMagnetRe row = Some m" for m
    using that arrow_magnet [of row m] data_magnet [of row m] by auto
  ultimately show ?thesis by (auto simp: rowMagnet_def split: option.split)
qed

text \<open>A link and the title cell, as the patterns find them: both end where they are closed first.\<close>

definition link_text :: "string \<Rightarrow> string \<Rightarrow> string \<Rightarrow> string \<Rightarrow> string" where
  "link_text attrs1 href attrs2 inner = ''<a'' @ attrs1 @ ''href='' @ quoted href @ attrs2 @ ''>'' @ inner @ ''</a>''"

definition title_cell :: "string \<Rightarrow> string" where
  "title_cell cell = ''<td class='' @ quoted ''title'' @ ''>'' @ cell @ ''</td>''"

definition link_in :: "string \<Rightarrow> string list \<Rightarrow> bool" where
  "link_in cell a \<longleftrightarrow> (\<exists>attrs1 href attrs2 inner. a = [href, inner] \<and> sublist (link_text attrs1 href attrs2 inner) cell \<and>
     list_all not_gt attrs1 \<and> list_all not_gt attrs2 \<and> dq \<notin> set href \<and> \<not> sublist ''</a>'' inner)"

lemma anchor_found:
  assumes "a \<in> set (FindAllStringSubmatch anchorRe cell)"
  shows "link_in cell a"
proof -
  let ?K = "\<lambda>pv' s' cs. Some (s', cs)"
  from assms obtain f where f: "f \<in> set (find_all anchorRe None cell)" "a = fCaps f"
    by (auto simp: FindAllStringSubmatch_def)
  from find_all_matching [OF f(1)] f(2) obtain pv p t where t: "cell = p @ t"
    "matching anchorRe pv t [] ?K = Some (fRest f, a)" by blast
  let ?last = "Seq (Grp (Few any_char)) (Lit ''</a>'')"
  from t(2) have "matching (Seq (Lit ''<a'') (Seq (Many not_gt) (Seq (Lit (''href='' @ [dq])) (Seq (Grp (Many not_dq))
      (Seq (Lit [dq]) (Seq (Many not_gt) (Lit ''>''))))))) pv t [] (\<lambda>pv' s' cs. matching ?last pv' s' cs ?K) =
    Some (fRest f, a)" by (simp add: anchorRe_def)
  from matching_Some [OF this, unfolded append_Nil] obtain u rest c pv' where u: "t = u @ rest"
    "lang (Seq (Lit ''<a'') (Seq (Many not_gt) (Seq (Lit (''href='' @ [dq])) (Seq (Grp (Many not_dq))
      (Seq (Lit [dq]) (Seq (Many not_gt) (Lit ''>''))))))) pv u rest c"
    "matching ?last pv' rest c ?K = Some (fRest f, a)" by blast
  from u(2) obtain a1 href a2 where h: "u = ''<a'' @ a1 @ (''href='' @ [dq]) @ href @ [dq] @ a2 @ ''>''" "c = [href]"
    "list_all not_gt a1" "list_all not_dq href" "list_all not_gt a2"
    unfolding lang_Seq_steps lang_Grp_steps by auto
  from shortest_capture [OF u(3)] obtain inner where i: "rest = inner @ ''</a>'' @ fRest f" "a = c @ [inner]" "\<not> sublist ''</a>'' inner"
    by auto
  have "cell = p @ link_text a1 href a2 inner @ fRest f" using t(1) u(1) h(1) i(1) by (simp add: link_text_def quoted_def)
  moreover have "dq \<notin> set href" using h(4) by (auto simp: list_all_iff not_dq_def)
  ultimately show ?thesis using h i unfolding link_in_def by (metis append_Cons append_Nil sublist_appendI)
qed

lemma cell_found:
  assumes "FindStringSubmatch titleCellRe row = Some m"
  shows "\<exists>cell. m = [cell] \<and> sublist (title_cell cell) row \<and> \<not> sublist ''</td>'' cell"
proof -
  let ?K = "\<lambda>pv' s' cs. Some (s', cs)" and ?td = "''<td class='' @ quoted ''title'' @ ''>''"
  from assms obtain f where f: "search titleCellRe None row = Some f" "m = fCaps f" by (auto simp: FindStringSubmatch_def)
  from search_matching [OF f(1)] f(2) obtain pv t where t: "row = fStart f @ t"
    "matching titleCellRe pv t [] ?K = Some (fRest f, m)" by blast
  from matching_Lit [OF t(2) [unfolded titleCellRe_def]] obtain t' where t': "t = ?td @ t'"
    "matching (Seq (Grp (Few any_char)) (Lit ''</td>'')) (last_char pv ?td) t' [] ?K = Some (fRest f, m)" by blast
  from shortest_capture [OF t'(2)] t'(1) obtain cell where "t = ?td @ cell @ ''</td>'' @ fRest f" "m = [cell]" "\<not> sublist ''</td>'' cell"
    by auto
  then have "row = fStart f @ title_cell cell @ fRest f" using t(1) by (simp add: title_cell_def)
  with \<open>m = [cell]\<close> \<open>\<not> sublist ''</td>'' cell\<close> show ?thesis by (metis sublist_appendI)
qed

definition topic_link :: "string list \<Rightarrow> bool" where
  "topic_link a \<longleftrightarrow> sublist view_marker (a ! 0) \<and> \<not> sublist team_marker (a ! 0)"

definition team_link :: "string list \<Rightarrow> bool" where
  "team_link a \<longleftrightarrow> sublist team_marker (a ! 0)"

text \<open>The team a title is prefixed with: that of the last team link, if there is one.\<close>

definition team_of :: "string \<Rightarrow> string list list \<Rightarrow> string" where
  "team_of team as = (if filter team_link as = [] then team else trim_space (last (filter team_link as) ! 1))"

lemma title_loop_spec:
  "title_loop team as =
    (case dropWhile (\<lambda>a. \<not> topic_link a) as of
       [] \<Rightarrow> ([], [])
     | a # _ \<Rightarrow>
         (a ! 0, (let t = team_of team (takeWhile (\<lambda>a. \<not> topic_link a) as)
                  in if t = [] then trim_space (a ! 1) else ''['' @ t @ ''] '' @ trim_space (a ! 1))))"
proof (induction team as rule: title_loop.induct)
  case (2 team a as)
  consider "team_link a" | "topic_link a" | "\<not> team_link a" "\<not> topic_link a" by blast
  then show ?case
  proof cases
    case 1
    then have "\<not> topic_link a" "str_contains (a ! 0) team_marker" by (simp_all add: team_link_def topic_link_def str_contains_iff)
    moreover have "team_of team (a # bs) = team_of (trim_space (a ! 1)) bs" for bs
      using 1 by (simp add: team_of_def)
    ultimately show ?thesis using 2(1) by (cases "dropWhile (\<lambda>a. \<not> topic_link a) as") (simp_all del: dropWhile_eq_Nil_conv)
  next
    case 2
    then show ?thesis by (simp add: topic_link_def str_contains_iff team_of_def Let_def)
  next
    case 3
    then have "\<not> str_contains (a ! 0) team_marker" "\<not> str_contains (a ! 0) view_marker"
      by (simp_all add: team_link_def topic_link_def str_contains_iff)
    moreover have "team_of team (a # bs) = team_of team bs" for bs using 3 by (simp add: team_of_def)
    ultimately show ?thesis using 2(2) 3 by (cases "dropWhile (\<lambda>a. \<not> topic_link a) as") (simp_all del: dropWhile_eq_Nil_conv)
  qed
qed simp

lemma topic_link_nonempty: "topic_link a \<Longrightarrow> a ! 0 \<noteq> []"
  by (auto simp: topic_link_def view_marker_def)

text \<open>What \<open>rowTitle\<close> reads: the first topic link of the title cell, with the team before it.\<close>

lemma rowTitle_cases:
  assumes "rowTitle row = (href, title)"
  obtains "href = []" "title = []"
    "\<forall>cell. FindStringSubmatch titleCellRe row = Some [cell] \<longrightarrow> \<not> list_ex topic_link (FindAllStringSubmatch anchorRe cell)"
  | cell before inner after where "sublist (title_cell cell) row" "\<not> sublist ''</td>'' cell"
    "FindAllStringSubmatch anchorRe cell = before @ [href, inner] # after"
    "list_all (link_in cell) (before @ [href, inner] # after)"
    "\<not> list_ex topic_link before" "topic_link [href, inner]" "href \<noteq> []"
    "title = (if team_of [] before = [] then trim_space inner else ''['' @ team_of [] before @ ''] '' @ trim_space inner)"
proof (cases "FindStringSubmatch titleCellRe row")
  case None
  with assms that(1) show thesis by (simp add: rowTitle_def)
next
  case (Some m)
  from cell_found [OF Some] obtain cell where c: "m = [cell]" "sublist (title_cell cell) row" "\<not> sublist ''</td>'' cell" by blast
  let ?as = "FindAllStringSubmatch anchorRe cell" and ?no = "\<lambda>a. \<not> topic_link a"
  have t: "title_loop [] ?as = (href, title)" using assms Some c(1) by (simp add: rowTitle_def)
  show thesis
  proof (cases "dropWhile ?no ?as")
    case Nil
    with t Some c(1) that(1) show thesis by (auto simp: title_loop_spec dropWhile_eq_Nil_conv list_ex_iff)
  next
    case (Cons a after)
    have split: "?as = takeWhile ?no ?as @ a # after" using Cons by (metis takeWhile_dropWhile_id)
    have a: "topic_link a" using Cons by (metis dropWhile_eq_Cons_conv)
    have links: "list_all (link_in cell) ?as" using anchor_found by (simp add: list_all_iff)
    moreover have "a \<in> set ?as" by (subst split) simp
    ultimately have "link_in cell a" by (simp add: list_all_iff)
    then obtain h inner where "a = [h, inner]" unfolding link_in_def by blast
    with t have h: "a = [href, inner]" "title = (if team_of [] (takeWhile ?no ?as) = [] then trim_space inner
        else ''['' @ team_of [] (takeWhile ?no ?as) @ ''] '' @ trim_space inner)"
      unfolding title_loop_spec Cons by (auto simp: Let_def)
    have "\<not> list_ex topic_link (takeWhile ?no ?as)" by (auto simp: list_ex_iff dest: set_takeWhileD)
    note parts = c(2,3) split [unfolded h(1)] _ this a [unfolded h(1)] _ h(2)
    show thesis
    proof (rule that(2) [OF parts])
      show "list_all (link_in cell) (takeWhile ?no ?as @ [href, inner] # after)"
        using links split unfolding h(1) by simp
      show "href \<noteq> []" using topic_link_nonempty [OF a] h(1) by simp
    qed
  qed
qed

text \<open>The id of a topic: what follows the marker, up to an underscore or a point.\<close>

lemma rowSourceID_topic:
  assumes "sublist view_marker href"
  shows "\<exists>pre rest. href = pre @ view_marker @ rest \<and>
    (\<forall>pre' rest'. href = pre' @ view_marker @ rest' \<longrightarrow> length pre \<le> length pre') \<and>
    rowSourceID href = (if CHR ''_'' \<in> set rest then takeWhile (\<lambda>c. c \<noteq> CHR ''_'') rest
      else takeWhile (\<lambda>c. c \<noteq> CHR ''.'') rest)"
proof -
  obtain i where i: "str_index href view_marker = Some i"
    using assms str_index_None [of href view_marker] by fastforce
  from str_index_prefix [OF i] obtain rest where rest: "drop i href = view_marker @ rest" and le: "i \<le> length href"
    by (auto simp: prefix_def)
  then have r: "drop (i + length view_marker) href = rest"
    by (metis append_eq_conv_conj drop_drop add.commute)
  have until: "take j t = takeWhile (\<lambda>c. c \<noteq> b) t" if "index_byte t b = Some j" for t b j
    using index_byte_Some [OF that] by (metis (mono_tags, lifting) in_set_conv_nth id_take_nth_drop takeWhile_tail takeWhile_eq_all_conv takeWhile_append2 append_Nil2)
  have all: "takeWhile (\<lambda>c. c \<noteq> b) t = t" if "index_byte t b = None" for t b
    using that by (auto simp: takeWhile_eq_all_conv)
  have "href = take i href @ view_marker @ rest" by (metis rest append_take_drop_id)
  moreover have "length (take i href) \<le> length pre'" if "href = pre' @ view_marker @ rest'" for pre' rest'
    using str_index_leftmost [OF i, of "length pre'"] that by (cases "length pre' < i") auto
  moreover have "rowSourceID href = (if CHR ''_'' \<in> set rest then takeWhile (\<lambda>c. c \<noteq> CHR ''_'') rest
      else takeWhile (\<lambda>c. c \<noteq> CHR ''.'') rest)"
  proof (cases "index_byte rest (CHR ''_'')")
    case (Some j)
    then have "CHR ''_'' \<in> set rest" using index_byte_None [of rest "CHR ''_''"] by fastforce
    with i r Some until [OF Some] show ?thesis by (simp add: rowSourceID_def)
  next
    case None
    then have "CHR ''_'' \<notin> set rest" by simp
    with i r None until [of rest "CHR ''.''"] all [of rest "CHR ''.''"] show ?thesis
      by (cases "index_byte rest (CHR ''.'')") (simp_all add: rowSourceID_def del: takeWhile_eq_all_conv index_byte_None)
  qed
  ultimately show ?thesis by blast
qed

lemma size_token:
  assumes "FindStringSubmatch bfSizeCellRe row = Some m"
  shows "sublist (m ! 0 @ ''<'') row"
proof -
  from submatch_lang [OF assms] obtain pv u rest where u: "lang bfSizeCellRe pv u rest m" "sublist u row" .
  from u(1) [unfolded bfSizeCellRe_def] obtain pv' v where v: "u = (''align='' @ quoted ''center'' @ ''>'') @ v"
    "lang (Seq (Grp (Seq (Cls number_char) (Seq (Many number_char) (Seq (Many re_space)
          (Seq (Alt (Cls (\<lambda>c. c \<in> set ''KMGT'')) Eps) (Lit ''B'')))))) (Lit ''<'')) pv' v rest m"
    unfolding lang_Seq_steps(1) [of "''align='' @ quoted ''center'' @ ''>''"] by blast
  from v(2) obtain x w c c' where x: "v = x @ w" "m = c @ x # c'"
    "lang (Seq (Cls number_char) (Seq (Many number_char) (Seq (Many re_space)
          (Seq (Alt (Cls (\<lambda>c. c \<in> set ''KMGT'')) Eps) (Lit ''B''))))) pv' x (w @ rest) c"
    "lang (Lit ''<'') (last_char pv' x) w rest c'" by (rule lang_Seq_Grp)
  have "c = []" using x(3) by auto
  with x have "u = (''align='' @ quoted ''center'' @ ''>'') @ (m ! 0 @ ''<'') @ []" using v(1) by simp
  with u(2) show ?thesis using sublist_inner by metis
qed

lemma rowSize_token: "rowSize plat row = 0 \<or>
    (\<exists>tok. sublist (tok @ ''<'') row \<and> ParseSize plat tok = Inr (rowSize plat row))"
  using size_token by (auto simp: rowSize_def split: option.split sum.split)

lemma date_token:
  assumes "FindStringSubmatch hiddenDateRe row = Some m"
  shows "sublist (m ! 0) row"
proof -
  from submatch_lang [OF assms] obtain pv u rest where u: "lang hiddenDateRe pv u rest m" "sublist u row" .
  have "m \<noteq> []" using u(1) unfolding hiddenDateRe_def by fastforce
  then have "m ! 0 \<in> set m" by simp
  from lang_caps [OF u(1) this] u(2) show ?thesis using sublist_order.order_trans by blast
qed

lemma rowPublishedAt_token: "rowPublishedAt row = zero_time \<or>
    (\<exists>tok. sublist tok row \<and> parse_minutes dmhyZone (trim_space tok) = Some (rowPublishedAt row))"
  using date_token by (auto simp: rowPublishedAt_def split: option.split)

subsection \<open>Sizes and dates\<close>

lemma size_unit_bounds: "size_unit u = Some k \<Longrightarrow> 0 < k \<and> k \<le> 2 ^ 40"
  by (auto simp: size_unit_def split: if_splits)

lemma solid_chars: "letter c \<or> number_char c \<Longrightarrow> solid c"
  by (rule solid_ascii) (auto simp: letter_def number_char_def is_lower_def is_upper_def is_digit_def byte_of_def)

lemma letter_not_size: "letter c \<Longrightarrow> \<not> number_char c"
  by (auto simp: letter_def number_char_def is_lower_def is_upper_def is_digit_def byte_of_def)

lemma ParseSize_exact:
  assumes "list_all is_digit ip" "list_all is_digit (fraction fp)" "ip \<noteq> []" "list_all letter u"
    and "size_unit (to_upper u) = Some k"
    and "dec_val (ip @ fraction fp) * k = N * 10 ^ length (fraction fp)" "N < 2 ^ 50"
  shows "ParseSize plat (decimal_text ip fp @ u) = Inr N"
proof -
  let ?t = "decimal_text ip fp"
  have sz: "list_all number_char ?t"
    using assms(1,2) by (auto simp: decimal_text_def fraction_def list_all_iff number_char_def split: option.splits)
  have solid: "list_all solid (?t @ u)" "list_all solid u"
    using sz assms(4) solid_chars by (auto simp: list_all_iff)
  have split: "takeWhile number_char (?t @ u) = ?t" "dropWhile number_char (?t @ u) = u"
    using sz assms(4) letter_not_size by (cases u; auto simp: list_all_iff takeWhile_append dropWhile_append)+
  note k = size_unit_bounds [OF assms(5)]
  have "dec_val (ip @ fraction fp) * k < 2 ^ 50 * 10 ^ length (fraction fp)" using assms(6,7) by simp
  from scaled_decimal [OF assms(1-3) k [THEN conjunct1] k [THEN conjunct2] this] obtain v where
    v: "ParseFloat ?t = Some v" "\<bar>real_of_int (scaled_int64 plat v k) -
       real_of_int (dec_val (ip @ fraction fp) * k) / 10 ^ length (fraction fp)\<bar> < 1" .
  from scaled_whole [OF v(2) assms(6)] have "scaled_int64 plat v k = N" .
  moreover have "?t \<noteq> []" using assms(3) by (simp add: decimal_text_def)
  ultimately show ?thesis
    using assms(5) split v(1)
    by (simp add: ParseSize_def Let_def trim_space_all_solid [OF solid(1)] trim_space_all_solid [OF solid(2)])
qed

definition minute_text :: "int \<Rightarrow> int \<Rightarrow> int \<Rightarrow> int \<Rightarrow> int \<Rightarrow> string" where
  "minute_text year month day hour minute =
     append_int 4 year @ ''/'' @ append_int 2 month @ ''/'' @ append_int 2 day @ '' '' @
     append_int 2 hour @ '':'' @ append_int 2 minute"

lemma days_in_bound: "1 \<le> m \<Longrightarrow> m \<le> 12 \<Longrightarrow> days_in leap m \<le> 31"
proof -
  have "list_all (\<lambda>m. days_in True m \<le> 31 \<and> days_in False m \<le> 31) [1..12]" by code_simp
  moreover assume "1 \<le> m" "m \<le> 12"
  ultimately show ?thesis by (cases leap) (auto simp: list_all_iff simp del: upto.simps)
qed

lemma parse_minutes_text:
  assumes "0 \<le> year" "year < 10000" "1 \<le> month" "month \<le> 12" "1 \<le> day" "day \<le> days_in (is_leap year) month"
    "0 \<le> hour" "hour < 24" "0 \<le> minute" "minute < 60"
  shows "parse_minutes off (minute_text year month day hour minute) =
    Some (instant year month day hour minute 0 0 - off * 1000000000)"
proof -
  have "days_in (is_leap year) month < 100" using days_in_bound [OF assms(3,4), of "is_leap year"] by simp
  with assms show ?thesis
    using getnum_append_int [of minute True "[]"]
    by (simp add: parse_minutes_def minute_text_def take_digits_append_int getnum_append_int)
qed

subsection \<open>A page\<close>

definition dmhy_row :: string where
  "dmhy_row = row_tag @ ''<td><span style='' @ quoted ''display: none;'' @ ''>2026/06/20 22:25</span></td>'' @
     ''<td class='' @ quoted ''title'' @ ''><a href='' @ quoted ''/topics/list/team_id/1'' @ ''> T </a>'' @
     ''<a href='' @ quoted ''/topics/view/721_x.html'' @ ''>Show</a></td>'' @
     ''<a class='' @ quoted ''dl arrow-magnet'' @ '' href='' @ quoted ''magnet:?x'' @ ''></a>'' @
     ''<a data-magnet='' @ quoted ''magnet:?y'' @ ''></a><td align='' @ quoted ''center'' @ ''>3.6GB</td></tr>''"

definition dmhy_page :: string where
  "dmhy_page = ''<table '' @ list_anchor @ ''>'' @ dmhy_row"

lemma dmhy_page_parsed:
  "ParseArchivePage (\<lambda>_. 0) dmhy_page =
     Inr [\<lparr>rpTitle = ''[T] Show'', rpMagnet = ''magnet:?x'', rpSource = ''dmhy'', rpSourceID = ''721'',
       rpURL = ''/topics/view/721_x.html'', rpPublishedAt = 1781965500000000000, rpSizeBytes = 3600000000\<rparr>]"
  by code_simp

section \<open>Properties\<close>

text \<open>
  C3: the rows of a DMHY page. A page is rejected exactly when it has neither a content row nor
  the listing table; it is an empty page exactly when it has the table and no row; otherwise it
  is cut, without loss, into one piece per content row, and every piece gives one post, in order.
\<close>

theorem dmhy_page_rows:
  "(ParseArchivePage plat body = Inl e \<longleftrightarrow>
      e = errNonArchivePage \<and> \<not> sublist row_tag body \<and> \<not> sublist list_anchor body) \<and>
   (ParseArchivePage plat body = Inr [] \<longleftrightarrow> \<not> sublist row_tag body \<and> sublist list_anchor body) \<and>
   (sublist row_tag body \<longrightarrow>
      (\<exists>pre rows. body = pre @ concat rows \<and> \<not> sublist row_tag pre \<and>
         length rows = length (occurrences [row_tag] body) \<and>
         (\<forall>row \<in> set rows. prefix row_tag row \<and> \<not> sublist row_tag (tl row)) \<and>
         ParseArchivePage plat body = Inr (map (row_post plat) rows)))"
proof (intro conjI impI)
  show "ParseArchivePage plat body = Inl e \<longleftrightarrow>
      e = errNonArchivePage \<and> \<not> sublist row_tag body \<and> \<not> sublist list_anchor body"
    by (auto simp: ParseArchivePage_eq)
qed (use ParseArchivePage_empty ParseArchivePage_rows [of body plat] in blast)+

theorem dmhy_page_rows_witness:
  "\<exists>pre rows. dmhy_page = pre @ concat rows \<and> ParseArchivePage (\<lambda>_. 0) dmhy_page = Inr (map (row_post (\<lambda>_. 0)) rows)"
proof -
  have "sublist row_tag dmhy_page" by code_simp
  with dmhy_page_rows [of "\<lambda>_. 0" dmhy_page "[]"] show ?thesis by blast
qed

text \<open>
  C21: every field of a post of the DMHY source is read from its row.
  \<^item> The magnet is empty or a quoted \<open>magnet:\<close> link of the row; a row with a \<open>data-magnet\<close> link has one.
  \<^item> The URL is the address of the first topic link among the links of the row's title cell; the cell
    ends at its first \<open></td>\<close>, the text of a link at its first \<open></a>\<close>. The title is the text of that
    link without the space around it, and in front of it, in brackets, the text of the last team link
    before it, if there is one. The source id is what follows the first topic marker of the address,
    up to an underscore, or up to a point when there is no underscore.
  \<^item> When no link of the title cell is a topic link, URL, title and source id are empty.
  \<^item> The date and the size are zero or read from a part of the row; when the row has a hidden date or a
    size cell that can be read, they are what it says.
\<close>

theorem dmhy_post_provenance:
  assumes "post = row_post plat row"
  shows "rpSource post = SourceDMHY \<and>
    (rpMagnet post = [] \<or>
      prefix ''magnet:'' (rpMagnet post) \<and> dq \<notin> set (rpMagnet post) \<and> sublist (quoted (rpMagnet post)) row) \<and>
    (rpURL post = [] \<and> rpTitle post = [] \<and> rpSourceID post = [] \<and>
      (\<forall>cell. FindStringSubmatch titleCellRe row = Some [cell] \<longrightarrow>
         \<not> list_ex topic_link (FindAllStringSubmatch anchorRe cell)) \<or>
     (\<exists>cell before inner after. sublist (title_cell cell) row \<and> \<not> sublist ''</td>'' cell \<and>
        FindAllStringSubmatch anchorRe cell = before @ [rpURL post, inner] # after \<and>
        list_all (link_in cell) (before @ [rpURL post, inner] # after) \<and>
        \<not> list_ex topic_link before \<and> topic_link [rpURL post, inner] \<and>
        rpTitle post = (if team_of [] before = [] then trim_space inner
          else ''['' @ team_of [] before @ ''] '' @ trim_space inner)) \<and>
     (\<exists>pre rest. rpURL post = pre @ view_marker @ rest \<and>
        (\<forall>pre' rest'. rpURL post = pre' @ view_marker @ rest' \<longrightarrow> length pre \<le> length pre') \<and>
        rpSourceID post = (if CHR ''_'' \<in> set rest then takeWhile (\<lambda>c. c \<noteq> CHR ''_'') rest
          else takeWhile (\<lambda>c. c \<noteq> CHR ''.'') rest))) \<and>
    (rpPublishedAt post = zero_time \<or>
      (\<exists>tok. sublist tok row \<and> parse_minutes dmhyZone (trim_space tok) = Some (rpPublishedAt post))) \<and>
    (rpSizeBytes post = 0 \<or>
      (\<exists>tok. sublist (tok @ ''<'') row \<and> ParseSize plat tok = Inr (rpSizeBytes post))) \<and>
    (\<forall>tok t. FindStringSubmatch hiddenDateRe row = Some [tok] \<and> parse_minutes dmhyZone (trim_space tok) = Some t \<longrightarrow>
      rpPublishedAt post = t) \<and>
    (\<forall>tok n. FindStringSubmatch bfSizeCellRe row = Some [tok] \<and> ParseSize plat tok = Inr n \<longrightarrow> rpSizeBytes post = n) \<and>
    (\<forall>mag. sublist (''data-magnet='' @ quoted mag) row \<and> prefix ''magnet:'' mag \<and> dq \<notin> set mag \<longrightarrow>
      rpMagnet post \<noteq> [])"
proof -
  obtain href title where t: "rowTitle row = (href, title)" by (cases "rowTitle row")
  have post: "post = \<lparr>rpTitle = title, rpMagnet = rowMagnet row, rpSource = SourceDMHY, rpSourceID = rowSourceID href,
      rpURL = href, rpPublishedAt = rowPublishedAt row, rpSizeBytes = rowSize plat row\<rparr>"
    using assms t by (simp add: row_post_def)
  have empty: "rowSourceID [] = []" by (simp add: rowSourceID_def view_marker_def trim_space_def trim_left_def)
  have link: "rpURL post = [] \<and> rpTitle post = [] \<and> rpSourceID post = [] \<and>
      (\<forall>cell. FindStringSubmatch titleCellRe row = Some [cell] \<longrightarrow>
         \<not> list_ex topic_link (FindAllStringSubmatch anchorRe cell)) \<or>
     (\<exists>cell before inner after. sublist (title_cell cell) row \<and> \<not> sublist ''</td>'' cell \<and>
        FindAllStringSubmatch anchorRe cell = before @ [rpURL post, inner] # after \<and>
        list_all (link_in cell) (before @ [rpURL post, inner] # after) \<and>
        \<not> list_ex topic_link before \<and> topic_link [rpURL post, inner] \<and>
        rpTitle post = (if team_of [] before = [] then trim_space inner
          else ''['' @ team_of [] before @ ''] '' @ trim_space inner)) \<and>
     (\<exists>pre rest. rpURL post = pre @ view_marker @ rest \<and>
        (\<forall>pre' rest'. rpURL post = pre' @ view_marker @ rest' \<longrightarrow> length pre \<le> length pre') \<and>
        rpSourceID post = (if CHR ''_'' \<in> set rest then takeWhile (\<lambda>c. c \<noteq> CHR ''_'') rest
          else takeWhile (\<lambda>c. c \<noteq> CHR ''.'') rest))"
    using t
  proof (cases rule: rowTitle_cases)
    case 1
    then show ?thesis by (simp add: post empty)
  next
    case (2 cell before inner after)
    then have "sublist view_marker href" by (simp add: topic_link_def)
    from rowSourceID_topic [OF this] 2 show ?thesis unfolding post RawPost.simps by blast
  qed
  have "rowPublishedAt row = t"
    if "FindStringSubmatch hiddenDateRe row = Some [tok]" "parse_minutes dmhyZone (trim_space tok) = Some t" for tok t
    using that by (simp add: rowPublishedAt_def)
  moreover have "rowSize plat row = n"
    if "FindStringSubmatch bfSizeCellRe row = Some [tok]" "ParseSize plat tok = Inr n" for tok n
    using that by (simp add: rowSize_def)
  ultimately show ?thesis using link unfolding post RawPost.simps
    using rowMagnet_provenance [of row] rowPublishedAt_token [of row] rowSize_token [of plat row]
      rowMagnet_complete [of _ row] by blast
qed

theorem dmhy_post_provenance_witness:
  "rpMagnet (row_post (\<lambda>_. 0) dmhy_row) \<noteq> [] \<and> prefix ''magnet:'' (rpMagnet (row_post (\<lambda>_. 0) dmhy_row))"
proof -
  have "sublist (''data-magnet='' @ quoted ''magnet:?y'') dmhy_row" by code_simp
  moreover have "prefix ''magnet:'' ''magnet:?y''" "dq \<notin> set ''magnet:?y''" by (simp_all add: dq_def)
  ultimately show ?thesis using dmhy_post_provenance [OF refl, of "\<lambda>_. 0" dmhy_row] by blast
qed

text \<open>
  C27: sizes and dates are read exactly. A size written as a decimal number with a unit is the
  number of bytes it names, in spite of the floating-point arithmetic, when that is a whole
  number below \<open>2 ^ 50\<close>; a date is the instant it names in the zone of DMHY.
\<close>

theorem dmhy_values_exact:
  assumes "list_all is_digit ip" "list_all is_digit (fraction fp)" "ip \<noteq> []" "list_all letter u"
    and "size_unit (to_upper u) = Some k"
    and "dec_val (ip @ fraction fp) * k = N * 10 ^ length (fraction fp)" "N < 2 ^ 50"
    and "0 \<le> year" "year < 10000" "1 \<le> month" "month \<le> 12" "1 \<le> day" "day \<le> days_in (is_leap year) month"
    and "0 \<le> hour" "hour < 24" "0 \<le> minute" "minute < 60"
  shows "ParseSize plat (decimal_text ip fp @ u) = Inr N \<and>
    parse_minutes dmhyZone (minute_text year month day hour minute) =
      Some (instant year month day hour minute 0 0 - dmhyZone * 1000000000)"
  using ParseSize_exact [OF assms(1-7)] parse_minutes_text [OF assms(8-17)] by blast

theorem dmhy_values_exact_witness:
  "ParseSize (\<lambda>_. 0) (decimal_text ''3'' (Some ''6'') @ ''GB'') = Inr 3600000000 \<and>
   parse_minutes dmhyZone (minute_text 2024 2 29 22 25) = Some (instant 2024 2 29 22 25 0 0 - dmhyZone * 1000000000)"
proof (rule dmhy_values_exact)
  show "size_unit (to_upper ''GB'') = Some (10 ^ 9)" by code_simp
  show "dec_val (''3'' @ fraction (Some ''6'')) * 10 ^ 9 = 3600000000 * 10 ^ length (fraction (Some ''6''))"
    by code_simp
  show "29 \<le> days_in (is_leap 2024) 2" by code_simp
  show "list_all is_digit ''3''" "list_all is_digit (fraction (Some ''6''))" "list_all letter ''GB''" by code_simp+
qed simp_all

end
