(* ===== verification/Wire.thy ===== *)
theory Wire
  imports Json_Print Gotime Rawpost
begin

text \<open>
  The posts on the wire: how \<open>encoding/json\<close> prints a \<open>rawpost.RawPost\<close>, in the response of a
  crawler and in the lines of the \<open>parse\<close> command, and how \<open>POST /ingest\<close> reads a batch of them
  (\<open>internal/rest/ingest.go\<close>). \<open>zone\<close> gives the offset the time of a post is printed with.
\<close>

section \<open>Definitions\<close>

subsection \<open>Printing\<close>

text \<open>\<open>Time.MarshalJSON\<close> refuses what RFC 3339 cannot write.\<close>

definition time_json :: "(time \<Rightarrow> int) \<Rightarrow> time \<Rightarrow> json option" where
  "time_json zone t =
     (if 0 \<le> local_year t (zone t) \<and> local_year t (zone t) \<le> 9999 \<and> \<bar>zone t\<bar> < 86400
      then Some (let s = format_rfc3339nano t (zone t) in JStr s s) else None)"

definition post_json :: "(time \<Rightarrow> int) \<Rightarrow> RawPost \<Rightarrow> json option" where
  "post_json zone p =
     map_option (\<lambda>t. JObj
       [(''title'', json_str (rpTitle p)), (''magnet'', json_str (rpMagnet p)), (''source'', json_str (rpSource p)),
        (''source_id'', json_str (rpSourceID p)), (''url'', json_str (rpURL p)), (''published_at'', t),
        (''size_bytes'', json_integer (rpSizeBytes p))]) (time_json zone (rpPublishedAt p))"

text \<open>One line of JSONL: \<open>Encoder.Encode\<close>.\<close>

definition post_line :: "(time \<Rightarrow> int) \<Rightarrow> RawPost \<Rightarrow> string option" where
  "post_line zone p = map_option (\<lambda>j. json_print j @ [CHR 0x0A]) (post_json zone p)"

fun all_some :: "'a option list \<Rightarrow> 'a list option" where
  "all_some [] = Some []"
| "all_some (None # xs) = None"
| "all_some (Some x # xs) = map_option (Cons x) (all_some xs)"

text \<open>The posts of a response. The walk leaves the slice nil when it returns none, and nil is \<open>null\<close>.\<close>

definition posts_json :: "(time \<Rightarrow> int) \<Rightarrow> RawPost list \<Rightarrow> json option" where
  "posts_json zone ps = (if ps = [] then Some JNull else map_option JArr (all_some (map (post_json zone) ps)))"

subsection \<open>Reading\<close>

definition zero_post :: RawPost where
  "zero_post = \<lparr>rpTitle = [], rpMagnet = [], rpSource = [], rpSourceID = [], rpURL = [], rpPublishedAt = zero_time,
     rpSizeBytes = 0\<rparr>"

text \<open>\<open>Time.UnmarshalJSON\<close> reads the text between the quotes as it is.\<close>

definition json_time :: "time \<Rightarrow> json \<Rightarrow> time option" where
  "json_time cur v = (case v of JNull \<Rightarrow> Some cur | JStr raw _ \<Rightarrow> parse_rfc3339nano raw | _ \<Rightarrow> None)"

text \<open>A member of a post; \<open>DisallowUnknownFields\<close> makes an unknown key an error.\<close>

definition store_post_member :: "RawPost \<Rightarrow> string \<times> json \<Rightarrow> RawPost option" where
  "store_post_member p m =
     (let (key, v) = m in
      if key_is ''title'' key then map_option (\<lambda>s. p\<lparr>rpTitle := s\<rparr>) (json_string (rpTitle p) v)
      else if key_is ''magnet'' key then map_option (\<lambda>s. p\<lparr>rpMagnet := s\<rparr>) (json_string (rpMagnet p) v)
      else if key_is ''source'' key then map_option (\<lambda>s. p\<lparr>rpSource := s\<rparr>) (json_string (rpSource p) v)
      else if key_is ''source_id'' key then map_option (\<lambda>s. p\<lparr>rpSourceID := s\<rparr>) (json_string (rpSourceID p) v)
      else if key_is ''url'' key then map_option (\<lambda>s. p\<lparr>rpURL := s\<rparr>) (json_string (rpURL p) v)
      else if key_is ''published_at'' key
        then map_option (\<lambda>t. p\<lparr>rpPublishedAt := t\<rparr>) (json_time (rpPublishedAt p) v)
      else if key_is ''size_bytes'' key
        then map_option (\<lambda>n. p\<lparr>rpSizeBytes := n\<rparr>) (json_int (rpSizeBytes p) v)
      else None)"

definition decode_post :: "RawPost \<Rightarrow> json \<Rightarrow> RawPost option" where
  "decode_post cur v = json_struct store_post_member cur v"

definition decode_slice :: "RawPost list \<times> nat \<Rightarrow> json \<Rightarrow> (RawPost list \<times> nat) option" where
  "decode_slice cur v = json_slice decode_post zero_post cur v"

definition store_request :: "RawPost list \<times> nat \<Rightarrow> string \<times> json \<Rightarrow> (RawPost list \<times> nat) option" where
  "store_request cur m = (if key_is ''posts'' (fst m) then decode_slice cur (snd m) else None)"

definition decode_ingest :: "string \<Rightarrow> RawPost list option" where
  "decode_ingest body =
     map_option (\<lambda>(elems, n). take n elems) (Option.bind (json_decode body) (json_struct store_request ([], 0)))"

definition ingest_body :: "json \<Rightarrow> string" where
  "ingest_body posts = json_print (JObj [(''posts'', posts)])"

text \<open>The posts that survive the trip.\<close>

definition wire_post :: "(time \<Rightarrow> int) \<Rightarrow> RawPost \<Rightarrow> bool" where
  "wire_post zone p \<longleftrightarrow>
     utf8_valid (rpTitle p) \<and> utf8_valid (rpMagnet p) \<and> utf8_valid (rpSource p) \<and> utf8_valid (rpSourceID p) \<and>
     utf8_valid (rpURL p) \<and> printable_time (rpPublishedAt p) (zone (rpPublishedAt p)) \<and>
     \<bar>zone (rpPublishedAt p)\<bar> < 86400 \<and> in_int64 (rpSizeBytes p)"

section \<open>Lemmas\<close>

text \<open>A timestamp needs no escapes.\<close>

definition time_char :: "char \<Rightarrow> bool" where
  "time_char c \<longleftrightarrow> is_digit c \<or> c \<in> set ''-:TZ+.''"

lemma time_char_plain: "time_char c \<Longrightarrow> byte_of c < 0x80 \<and> escape_ascii c = [c]"
proof -
  assume "time_char c"
  then have "0x20 \<le> byte_of c" "byte_of c < 0x80" "c \<noteq> CHR 0x22" "c \<noteq> CHR 0x5C" "c \<noteq> CHR ''<''" "c \<noteq> CHR ''>''" "c \<noteq> CHR ''&''"
    by (auto simp: time_char_def is_digit_def byte_of_def)
  moreover from this(1) have "c \<notin> {CHR 0x08, CHR 0x0C, CHR 0x0A, CHR 0x0D, CHR 0x09}" by (auto simp: byte_of_def)
  ultimately show ?thesis by (auto simp: escape_ascii_def escape_short_def)
qed

lemma json_escape_plain: "list_all time_char s \<Longrightarrow> json_escape s = s"
proof (induction s)
  case (Cons c s)
  then show ?case by (subst json_escape.simps) (simp add: time_char_plain)
qed (simp add: json_escape.simps)

lemma utf8_valid_plain: "list_all time_char s \<Longrightarrow> utf8_valid s"
proof (induction s)
  case (Cons c s)
  then show ?case by (subst utf8_valid.simps) (simp add: time_char_plain)
qed (simp add: utf8_valid.simps)

lemma pad_digits_time: "list_all time_char (pad_digits w n)"
  using nat_digits_digits [of n] zero_digit by (auto simp: pad_digits_def list_all_iff time_char_def)

lemma append_int_time: "list_all time_char (append_int w x)"
  using pad_digits_time by (simp add: append_int_def) (simp add: time_char_def)

lemma format_time: "list_all time_char (format_rfc3339nano t off)"
proof -
  have "list_all time_char (trim_zeros s)" if "list_all time_char s" for s
    using that by (auto simp: trim_zeros_def list_all_iff dest: set_dropWhileD)
  then have "list_all time_char (format_frac n)" for n
    by (simp add: format_frac_def pad_digits_time) (simp add: time_char_def)
  moreover have "list_all time_char (format_zone off)"
    by (simp add: format_zone_def Let_def append_int_time) (simp add: time_char_def)
  moreover have "time_char CHR ''-''" "time_char CHR '':''" "time_char CHR ''T''"
    by (simp_all add: time_char_def)
  ultimately show ?thesis
    by (simp add: format_rfc3339nano_def Let_def append_int_time split: prod.splits)
qed

definition post_members :: "(time \<Rightarrow> int) \<Rightarrow> RawPost \<Rightarrow> (string \<times> json) list" where
  "post_members zone p =
     [(''title'', json_str (rpTitle p)), (''magnet'', json_str (rpMagnet p)), (''source'', json_str (rpSource p)),
      (''source_id'', json_str (rpSourceID p)), (''url'', json_str (rpURL p)),
      (''published_at'', json_str (format_rfc3339nano (rpPublishedAt p) (zone (rpPublishedAt p)))),
      (''size_bytes'', json_integer (rpSizeBytes p))]"

lemma post_json_members:
  assumes "wire_post zone p"
  shows "post_json zone p = Some (JObj (post_members zone p))"
  using assms by (simp add: post_json_def time_json_def post_members_def wire_post_def printable_time_def Let_def
        json_escape_plain [OF format_time])

lemma post_keys: "list_all (\<lambda>k. utf8_valid k)
    [''title'', ''magnet'', ''source'', ''source_id'', ''url'', ''published_at'', ''size_bytes'', ''posts'']"
  by (simp add: utf8_valid_ascii byte_of_def)

lemma post_json_ok:
  assumes "wire_post zone p"
  shows "json_ok (JObj (post_members zone p))" "json_depth (JObj (post_members zone p)) = 1"
  using assms post_keys by (auto simp: post_members_def wire_post_def utf8_valid_plain [OF format_time])

lemma wire_fold [json_keys]:
  "json_fold ''title'' = ''TITLE''" "json_fold ''magnet'' = ''MAGNET''" "json_fold ''source'' = ''SOURCE''"
  "json_fold ''source_id'' = ''SOURCE_ID''" "json_fold ''url'' = ''URL''" "json_fold ''published_at'' = ''PUBLISHED_AT''"
  "json_fold ''size_bytes'' = ''SIZE_BYTES''" "json_fold ''posts'' = ''POSTS''"
  by code_simp+

lemma store_post_members:
  assumes "wire_post zone p"
  shows "json_store store_post_member q (post_members zone p) = Some p"
  using assms parse_format_rfc3339nano [of "rpPublishedAt p" "zone (rpPublishedAt p)"]
  by (simp add: post_members_def store_post_member_def key_is_def wire_fold json_string_def json_time_def json_int_def
      json_escape_plain [OF format_time] atoi_itoa wire_post_def del: json_fold.simps)

lemma decode_post_members:
  "wire_post zone p \<Longrightarrow> decode_post zero_post (JObj (post_members zone p)) = Some p"
  by (simp add: decode_post_def json_struct_def store_post_members)

lemma all_some_posts:
  "list_all (wire_post zone) ps \<Longrightarrow>
   all_some (map (post_json zone) ps) = Some (map (\<lambda>p. JObj (post_members zone p)) ps)"
  by (induction ps) (simp_all add: post_json_members)

text \<open>The body of a request is read back.\<close>

definition posts_array :: "(time \<Rightarrow> int) \<Rightarrow> RawPost list \<Rightarrow> json" where
  "posts_array zone ps = JArr (map (\<lambda>p. JObj (post_members zone p)) ps)"

lemma posts_array_ok:
  assumes "list_all (wire_post zone) ps"
  shows "json_ok (posts_array zone ps)" "json_depth (posts_array zone ps) \<le> 2"
proof -
  show "json_ok (posts_array zone ps)" using assms post_json_ok(1) by (auto simp: posts_array_def list_all_iff simp del: json_ok.simps(6))
  have "fold max (map json_depth (map (\<lambda>p. JObj (post_members zone p)) ps)) 0 \<le> 1"
    unfolding fold_max_le using assms post_json_ok(2) by (auto simp: list_all_iff)
  then show "json_depth (posts_array zone ps) \<le> 2" by (simp add: posts_array_def)
qed

lemma posts_json_array:
  "list_all (wire_post zone) ps \<Longrightarrow> posts_json zone ps = Some (if ps = [] then JNull else posts_array zone ps)"
  by (simp add: posts_json_def posts_array_def all_some_posts)

lemma decode_ingest_body:
  assumes "json_ok v" "json_depth v < 10000" "decode_slice ([], 0) v = Some (elems, n)"
  shows "decode_ingest (ingest_body v) = Some (take n elems)"
proof -
  have "json_decode (json_print (JObj [(''posts'', v)]) @ []) = Some (JObj [(''posts'', v)])"
    using assms(1,2) post_keys by (intro json_decode_print) simp_all
  then show ?thesis
    using assms(3) by (simp add: decode_ingest_def ingest_body_def json_struct_def store_request_def key_is_def
        del: json_print.simps json_fold.simps)
qed

lemma decode_ingest_array:
  assumes "list_all (wire_post zone) ps"
  shows "decode_ingest (ingest_body (posts_array zone ps)) = Some ps"
proof -
  have "decode_slice ([], 0) (posts_array zone ps) = Some (ps, length ps)"
    using assms by (auto simp: decode_slice_def posts_array_def list_all_iff decode_post_members intro!: json_slice_map)
  from decode_ingest_body [OF posts_array_ok(1) [OF assms] _ this] posts_array_ok(2) [OF assms] show ?thesis by simp
qed

lemma decode_ingest_posts:
  assumes "list_all (wire_post zone) ps"
  obtains js where "posts_json zone ps = Some js" "decode_ingest (ingest_body js) = Some ps"
proof (cases "ps = []")
  case True
  have "decode_ingest (ingest_body JNull) = Some []"
    using decode_ingest_body [of JNull "[]" 0] by (simp add: decode_slice_def json_slice_def)
  with True that [of JNull] show ?thesis by (simp add: posts_json_def)
next
  case False
  with that decode_ingest_array [OF assms] posts_json_array [OF assms] show ?thesis by auto
qed

text \<open>A line of JSONL is not a request.\<close>

lemma decode_ingest_line:
  assumes "wire_post zone p"
  shows "\<exists>line. post_line zone p = Some line \<and> decode_ingest line = None"
proof -
  let ?v = "JObj (post_members zone p)"
  have "json_decode (json_print ?v @ [CHR 0x0A]) = Some ?v"
    using post_json_ok [OF assms] by (intro json_decode_print) simp_all
  moreover have "json_store store_request ([], 0) (post_members zone p) = None"
    by (simp add: post_members_def store_request_def key_is_def wire_fold del: json_fold.simps)
  ultimately have "decode_ingest (json_print ?v @ [CHR 0x0A]) = None"
    by (simp add: decode_ingest_def json_struct_def del: json_print.simps)
  then show ?thesis by (simp add: post_line_def post_json_members [OF assms])
qed

section \<open>Properties\<close>

definition sample_wire_post :: RawPost where
  "sample_wire_post = \<lparr>rpTitle = ''A <B>'', rpMagnet = ''magnet:?x'', rpSource = ''dmhy'', rpSourceID = ''7'',
     rpURL = ''/t'', rpPublishedAt = 1781965500000000000, rpSizeBytes = 3600000000\<rparr>"

text \<open>
  C7: posts survive the wire. A batch of posts whose texts are valid UTF-8 and whose times have a
  four-digit year is printed by the crawler, and \<open>POST /ingest\<close> reads from the request that
  forwards them the same posts; a line of the \<open>parse\<close> command is not such a request and is refused.
\<close>

theorem posts_survive_the_wire:
  assumes "list_all (wire_post zone) posts"
  shows "(\<exists>js. posts_json zone posts = Some js \<and> decode_ingest (ingest_body js) = Some posts) \<and>
    (\<forall>p \<in> set posts. \<exists>line. post_line zone p = Some line \<and> decode_ingest line = None)"
proof -
  have "\<exists>js. posts_json zone posts = Some js \<and> decode_ingest (ingest_body js) = Some posts"
    using decode_ingest_posts [OF assms] by metis
  moreover have "\<exists>line. post_line zone p = Some line \<and> decode_ingest line = None" if "p \<in> set posts" for p
    using assms that by (intro decode_ingest_line) (simp add: list_all_iff)
  ultimately show ?thesis by blast
qed

theorem posts_survive_the_wire_witness:
  "\<exists>js. posts_json (\<lambda>_. 28800) [sample_wire_post] = Some js \<and> decode_ingest (ingest_body js) = Some [sample_wire_post]"
proof -
  have "local_year 1781965500000000000 28800 = 2026" by code_simp
  moreover have "list_all utf8_valid [''A <B>'', ''magnet:?x'', ''dmhy'', ''7'', ''/t'']"
    by (simp add: utf8_valid_ascii byte_of_def)
  moreover have "in_int64 3600000000" by (simp add: in_int64_def)
  ultimately have "list_all (wire_post (\<lambda>_. 28800)) [sample_wire_post]"
    by (simp add: wire_post_def sample_wire_post_def printable_time_def printable_zone_def)
  from posts_survive_the_wire [OF this] show ?thesis by blast
qed

end
