(* ===== verification/Parse_Cmd.thy ===== *)
theory Parse_Cmd
  imports Commands Dmhy Wire
begin

text \<open>
  The \<open>parse\<close> command of the DMHY crawler, \<open>sources/dmhy/cmd/takuhai-dmhy/parse.go\<close>: saved pages
  in, one JSON post per line out. \<open>parse_world\<close> is what the operating system answers: the contents
  of files, the successive readings of the standard input, whether the output can be created, and
  the error, if any, of every write.
\<close>

section \<open>Definitions\<close>

record parse_world =
  pwReadFile :: "string \<Rightarrow> string + string"
  pwStdin :: "nat \<Rightarrow> string + string"
  pwCreate :: "string \<Rightarrow> string option"
  pwWrite :: "nat \<Rightarrow> string option"

datatype parse_error =
    OpenOutput string string
  | FileFailed string string
  | WriteFailed string
  | FilesFailed nat nat

text \<open>\<open>parseFile\<close>; the number counts the readings of the standard input.\<close>

definition parseFile :: "platform \<Rightarrow> parse_world \<Rightarrow> nat \<Rightarrow> string \<Rightarrow> (string + RawPost list) \<times> nat" where
  "parseFile plat w k name =
     (let (html, k') = (if name = ''-'' then (pwStdin w k, Suc k) else (pwReadFile w name, k))
      in (case html of Inl err \<Rightarrow> Inl err | Inr b \<Rightarrow> ParseArchivePage plat b, k'))"

text \<open>The posts of one file; \<open>out\<close> are the lines written so far.\<close>

fun emit_posts :: "(time \<Rightarrow> int) \<Rightarrow> parse_world \<Rightarrow> string list \<Rightarrow> RawPost list \<Rightarrow> string list \<times> parse_error option" where
  "emit_posts loc w out [] = (out, None)"
| "emit_posts loc w out (p # ps) =
     (case post_line loc p of
        None \<Rightarrow> (out, Some (WriteFailed ''json: error calling MarshalJSON for type time.Time''))
      | Some line \<Rightarrow>
          (case pwWrite w (length out) of
             Some err \<Rightarrow> (out, Some (WriteFailed err))
           | None \<Rightarrow> emit_posts loc w (out @ [line]) ps))"

text \<open>\<open>emit\<close>: the lines, whose number is the count of posts, the failures and the fatal error.\<close>

fun emit_loop ::
  "(time \<Rightarrow> int) \<Rightarrow> platform \<Rightarrow> parse_world \<Rightarrow> bool \<Rightarrow> string list \<Rightarrow> nat \<Rightarrow> nat \<Rightarrow> string list \<Rightarrow>
   string list \<times> nat \<times> parse_error option" where
  "emit_loop loc plat w keep out failures k [] = (out, failures, None)"
| "emit_loop loc plat w keep out failures k (name # files) =
     (case parseFile plat w k name of
        (Inl err, k') \<Rightarrow>
          if \<not> keep then (out, Suc failures, Some (FileFailed name err))
          else emit_loop loc plat w keep out (Suc failures) k' files
      | (Inr parsed, k') \<Rightarrow>
          (case emit_posts loc w out parsed of
             (out', Some err) \<Rightarrow> (out', failures, Some err)
           | (out', None) \<Rightarrow> emit_loop loc plat w keep out' failures k' files))"

definition emit ::
  "(time \<Rightarrow> int) \<Rightarrow> platform \<Rightarrow> parse_world \<Rightarrow> ParseCmd \<Rightarrow> string list \<times> nat \<times> parse_error option" where
  "emit loc plat w c = emit_loop loc plat w (pcKeepGoing c) [] 0 0 (pcFiles c)"

text \<open>\<open>ParseCmd.Run\<close>: what is written and the error.\<close>

definition ParseCmd_Run ::
  "(time \<Rightarrow> int) \<Rightarrow> platform \<Rightarrow> parse_world \<Rightarrow> ParseCmd \<Rightarrow> string list \<times> parse_error option" where
  "ParseCmd_Run loc plat w c =
     (case (if pcOut c \<noteq> ''-'' then pwCreate w (pcOut c) else None) of
        Some err \<Rightarrow> ([], Some (OpenOutput (pcOut c) err))
      | None \<Rightarrow>
          (case emit loc plat w c of
             (out, failures, Some err) \<Rightarrow> (out, Some err)
           | (out, failures, None) \<Rightarrow>
               (out, if failures > 0 then Some (FilesFailed failures (length (pcFiles c))) else None)))"

section \<open>Lemmas\<close>

text \<open>What the files hold, one after the other.\<close>

fun parse_results :: "platform \<Rightarrow> parse_world \<Rightarrow> nat \<Rightarrow> string list \<Rightarrow> (string \<times> (string + RawPost list)) list" where
  "parse_results plat w k [] = []"
| "parse_results plat w k (name # files) =
     (case parseFile plat w k name of (res, k') \<Rightarrow> (name, res) # parse_results plat w k' files)"

definition good_posts :: "(string \<times> (string + RawPost list)) list \<Rightarrow> RawPost list" where
  "good_posts rs = concat (map (\<lambda>(name, res). case res of Inl _ \<Rightarrow> [] | Inr ps \<Rightarrow> ps) rs)"

definition parsed_ok :: "string \<times> (string + RawPost list) \<Rightarrow> bool" where
  "parsed_ok x \<longleftrightarrow> (case snd x of Inl _ \<Rightarrow> False | Inr _ \<Rightarrow> True)"

text \<open>A world in which every write succeeds, and posts that can be printed.\<close>

definition line_of :: "(time \<Rightarrow> int) \<Rightarrow> RawPost \<Rightarrow> string" where
  "line_of loc p = (case post_line loc p of None \<Rightarrow> [] | Some l \<Rightarrow> l)"

lemma emit_posts_all:
  assumes "\<And>k. pwWrite w k = None" "list_all (\<lambda>p. post_line loc p \<noteq> None) ps"
  shows "emit_posts loc w out ps = (out @ map (line_of loc) ps, None)"
  using assms(2)
  by (induction ps arbitrary: out) (auto simp: assms(1) line_of_def)

lemma emit_loop_keep:
  assumes "\<And>k. pwWrite w k = None" "list_all (\<lambda>p. post_line loc p \<noteq> None) (good_posts (parse_results plat w k files))"
  shows "emit_loop loc plat w True out failures k files =
    (out @ map (line_of loc) (good_posts (parse_results plat w k files)),
     failures + length (filter (Not \<circ> parsed_ok) (parse_results plat w k files)), None)"
  using assms(2)
proof (induction files arbitrary: out failures k)
  case (Cons name files)
  obtain res k' where r: "parseFile plat w k name = (res, k')" by (cases "parseFile plat w k name")
  with Cons show ?case
    by (cases res) (simp_all add: good_posts_def parsed_ok_def emit_posts_all [OF assms(1)])
qed (simp add: good_posts_def)

definition first_failure :: "(string \<times> (string + RawPost list)) list \<Rightarrow> parse_error option" where
  "first_failure rs =
     (case dropWhile parsed_ok rs of
        [] \<Rightarrow> None
      | (name, res) # _ \<Rightarrow> Some (FileFailed name (case res of Inl err \<Rightarrow> err | Inr _ \<Rightarrow> [])))"

lemma emit_loop_stop:
  assumes "\<And>k. pwWrite w k = None" "list_all (\<lambda>p. post_line loc p \<noteq> None) (good_posts (parse_results plat w k files))"
  shows "emit_loop loc plat w False out 0 k files =
    (out @ map (line_of loc) (good_posts (takeWhile parsed_ok (parse_results plat w k files))),
     (if first_failure (parse_results plat w k files) = None then 0 else 1),
     first_failure (parse_results plat w k files))"
  using assms(2)
proof (induction files arbitrary: out k)
  case (Cons name files)
  obtain res k' where r: "parseFile plat w k name = (res, k')" by (cases "parseFile plat w k name")
  with Cons show ?case
    by (cases res) (simp_all add: good_posts_def parsed_ok_def first_failure_def emit_posts_all [OF assms(1)])
qed (simp add: good_posts_def first_failure_def)

text \<open>Without any assumption: what is written is the beginning of what the files hold.\<close>

lemma emit_posts_prefix:
  assumes "emit_posts loc w out ps = (out', err)"
  shows "\<exists>n \<le> length ps. out' = out @ map (line_of loc) (take n ps) \<and> (err = None \<longrightarrow> n = length ps)"
  using assms
proof (induction ps arbitrary: out)
  case (Cons p ps)
  show ?case
  proof (cases "\<exists>line. post_line loc p = Some line \<and> pwWrite w (length out) = None")
    case True
    then obtain line where l: "post_line loc p = Some line" "pwWrite w (length out) = None" by blast
    with Cons(2) have "emit_posts loc w (out @ [line]) ps = (out', err)" by simp
    from Cons(1) [OF this] obtain n where "n \<le> length ps" "out' = (out @ [line]) @ map (line_of loc) (take n ps)"
      "err = None \<longrightarrow> n = length ps" by blast
    with l show ?thesis by (intro exI [of _ "Suc n"]) (simp add: line_of_def)
  next
    case False
    with Cons(2) have "out' = out" "err \<noteq> None" by (auto split: option.splits)
    then show ?thesis by (intro exI [of _ 0]) simp
  qed
qed simp

lemma emit_loop_prefix:
  assumes "emit_loop loc plat w keep out failures k files = (out', failures', err)"
  shows "prefix out out' \<and> prefix out' (out @ map (line_of loc) (good_posts (parse_results plat w k files)))"
  using assms
proof (induction files arbitrary: out failures k)
  case (Cons name files)
  obtain res k' where r: "parseFile plat w k name = (res, k')" by (cases "parseFile plat w k name")
  show ?case
  proof (cases res)
    case (Inl e)
    show ?thesis
    proof (cases keep)
      case True
      with Cons(2) r Inl have "emit_loop loc plat w keep out (Suc failures) k' files = (out', failures', err)" by simp
      from Cons(1) [OF this] r Inl show ?thesis by (simp add: good_posts_def)
    next
      case False
      with Cons(2) r Inl show ?thesis by (simp add: good_posts_def)
    qed
  next
    case (Inr ps)
    obtain out1 err1 where e: "emit_posts loc w out ps = (out1, err1)" by (cases "emit_posts loc w out ps")
    from emit_posts_prefix [OF e] obtain n where n: "n \<le> length ps" "out1 = out @ map (line_of loc) (take n ps)"
      "err1 = None \<longrightarrow> n = length ps" by blast
    show ?thesis
    proof (cases err1)
      case None
      with Cons(2) r Inr e have "emit_loop loc plat w keep out1 failures k' files = (out', failures', err)" by simp
      from Cons(1) [OF this] n None r Inr show ?thesis by (auto simp: good_posts_def prefix_def)
    next
      case (Some x)
      with Cons(2) r Inr e have "out' = out1" by simp
      with n r Inr show ?thesis by (auto simp: good_posts_def intro: map_mono_prefix prefix_order.trans [OF map_mono_prefix [OF take_is_prefix]])
    qed
  qed
qed (simp add: good_posts_def)

lemma emit_posts_done: "emit_posts loc w out ps = (out', None) \<Longrightarrow> list_all (\<lambda>p. post_line loc p \<noteq> None) ps"
  by (induction ps arbitrary: out) (auto split: option.splits)

lemma emit_loop_done:
  assumes "emit_loop loc plat w keep out failures k files = (out', failures', None)"
  shows "out' = out @ map (line_of loc) (good_posts (parse_results plat w k files)) \<and>
    failures' = failures + length (filter (Not \<circ> parsed_ok) (parse_results plat w k files)) \<and>
    list_all (\<lambda>p. post_line loc p \<noteq> None) (good_posts (parse_results plat w k files))"
  using assms
proof (induction files arbitrary: out failures k)
  case (Cons name files)
  obtain res k' where r: "parseFile plat w k name = (res, k')" by (cases "parseFile plat w k name")
  show ?case
  proof (cases res)
    case (Inl e)
    with Cons(2) r have "emit_loop loc plat w keep out (Suc failures) k' files = (out', failures', None)"
      by (auto split: if_splits)
    from Cons(1) [OF this] r Inl show ?thesis by (simp add: good_posts_def parsed_ok_def)
  next
    case (Inr ps)
    with Cons(2) r obtain out1 where e: "emit_posts loc w out ps = (out1, None)"
      "emit_loop loc plat w keep out1 failures k' files = (out', failures', None)"
      by (auto split: prod.splits option.splits)
    from emit_posts_prefix [OF e(1)] have "out1 = out @ map (line_of loc) ps" by auto
    with Cons(1) [OF e(2)] emit_posts_done [OF e(1)] r Inr show ?thesis by (simp add: good_posts_def parsed_ok_def)
  qed
qed (simp add: good_posts_def)

lemma no_failures: "filter (Not \<circ> parsed_ok) rs = [] \<longleftrightarrow> list_all parsed_ok rs"
  by (simp add: filter_empty_conv list_all_iff)

text \<open>A line is a post that \<open>POST /ingest\<close> reads, once it stands in a batch.\<close>

lemma line_is_post:
  assumes "wire_post loc p"
  shows "\<exists>j. line_of loc p = json_print j @ [CHR 0x0A] \<and> decode_ingest (ingest_body (JArr [j])) = Some [p]"
  using decode_ingest_array [of loc "[p]"] assms
  by (intro exI [of _ "JObj (post_members loc p)"]) (simp add: line_of_def post_line_def post_json_members posts_array_def)

section \<open>Properties\<close>

text \<open>
  C35: the \<open>parse\<close> command. What it writes is always a beginning of the posts of the files, one per
  line, in order; it succeeds only when every file was a listing page and every post was written.
  When the output can be written, \<open>--keep-going\<close> writes the posts of all files that are listing
  pages and fails with the number of the others, and without it the command stops at the first file
  that is none, with the posts before it written. Every line is the JSON of its post as
  \<open>POST /ingest\<close> reads it.
\<close>

theorem parse_command:
  assumes "ParseCmd_Run loc plat w c = (out, err)" "rs = parse_results plat w 0 (pcFiles c)"
  shows "prefix out (map (line_of loc) (good_posts rs)) \<and>
    (err = None \<longrightarrow> out = map (line_of loc) (good_posts rs) \<and> list_all parsed_ok rs) \<and>
    ((pcOut c = ''-'' \<or> pwCreate w (pcOut c) = None) \<and> (\<forall>k. pwWrite w k = None) \<and>
     list_all (\<lambda>p. post_line loc p \<noteq> None) (good_posts rs) \<longrightarrow>
      (if pcKeepGoing c
       then out = map (line_of loc) (good_posts rs) \<and>
         err = (if list_all parsed_ok rs then None
                else Some (FilesFailed (length (filter (Not \<circ> parsed_ok) rs)) (length (pcFiles c))))
       else out = map (line_of loc) (good_posts (takeWhile parsed_ok rs)) \<and> err = first_failure rs)) \<and>
    (\<forall>p \<in> set (good_posts rs). wire_post loc p \<longrightarrow>
      (\<exists>j. line_of loc p = json_print j @ [CHR 0x0A] \<and> decode_ingest (ingest_body (JArr [j])) = Some [p]))"
proof (intro conjI)
  obtain out0 failures err0 where e: "emit loc plat w c = (out0, failures, err0)" by (cases "emit loc plat w c")
  note loop = e [unfolded emit_def]
  have run: "(out, err) = ([], err) \<and> err \<noteq> None \<or> out = out0 \<and> (err = None \<longrightarrow> err0 = None \<and> failures = 0)"
    using assms(1) e by (auto simp: ParseCmd_Run_def split: option.splits if_splits)
  show "prefix out (map (line_of loc) (good_posts rs))"
    using run emit_loop_prefix [OF loop] assms(2) by auto
  show "err = None \<longrightarrow> out = map (line_of loc) (good_posts rs) \<and> list_all parsed_ok rs"
  proof
    assume "err = None"
    with run have o: "out = out0" "err0 = None" "failures = 0" by auto
    with emit_loop_done [of loc plat w "pcKeepGoing c" "[]" 0 0 "pcFiles c"] loop assms(2)
    show "out = map (line_of loc) (good_posts rs) \<and> list_all parsed_ok rs" by (simp add: no_failures)
  qed
  show "\<forall>p \<in> set (good_posts rs). wire_post loc p \<longrightarrow>
      (\<exists>j. line_of loc p = json_print j @ [CHR 0x0A] \<and> decode_ingest (ingest_body (JArr [j])) = Some [p])"
    using line_is_post by blast
  show "(pcOut c = ''-'' \<or> pwCreate w (pcOut c) = None) \<and> (\<forall>k. pwWrite w k = None) \<and>
     list_all (\<lambda>p. post_line loc p \<noteq> None) (good_posts rs) \<longrightarrow>
      (if pcKeepGoing c
       then out = map (line_of loc) (good_posts rs) \<and>
         err = (if list_all parsed_ok rs then None
                else Some (FilesFailed (length (filter (Not \<circ> parsed_ok) rs)) (length (pcFiles c))))
       else out = map (line_of loc) (good_posts (takeWhile parsed_ok rs)) \<and> err = first_failure rs)"
  proof
    assume a: "(pcOut c = ''-'' \<or> pwCreate w (pcOut c) = None) \<and> (\<forall>k. pwWrite w k = None) \<and>
     list_all (\<lambda>p. post_line loc p \<noteq> None) (good_posts rs)"
    then have w: "\<And>k. pwWrite w k = None" and p: "list_all (\<lambda>p. post_line loc p \<noteq> None) (good_posts (parse_results plat w 0 (pcFiles c)))"
      using assms(2) by auto
    have run': "(out, err) = (case emit loc plat w c of (out, failures, Some err) \<Rightarrow> (out, Some err)
        | (out, failures, None) \<Rightarrow> (out, if failures > 0 then Some (FilesFailed failures (length (pcFiles c))) else None))"
      using assms(1) a by (auto simp: ParseCmd_Run_def split: if_splits)
    show "if pcKeepGoing c
       then out = map (line_of loc) (good_posts rs) \<and>
         err = (if list_all parsed_ok rs then None
                else Some (FilesFailed (length (filter (Not \<circ> parsed_ok) rs)) (length (pcFiles c))))
       else out = map (line_of loc) (good_posts (takeWhile parsed_ok rs)) \<and> err = first_failure rs"
    proof (cases "pcKeepGoing c")
      case True
      with run' emit_loop_keep [OF w p, of "[]" 0] assms(2) show ?thesis
        by (auto simp: emit_def no_failures split: if_splits)
    next
      case False
      with run' emit_loop_stop [OF w p, of "[]"] assms(2) show ?thesis
        by (cases "first_failure rs") (simp_all add: emit_def)
    qed
  qed
qed

definition sample_parse_world :: parse_world where
  "sample_parse_world =
     \<lparr>pwReadFile = (\<lambda>name. if name = ''a.html'' then Inr dmhy_page else Inl ''no such file''),
      pwStdin = (\<lambda>_. Inr []), pwCreate = (\<lambda>_. None), pwWrite = (\<lambda>_. None)\<rparr>"

definition sample_parse_cmd :: ParseCmd where
  "sample_parse_cmd = \<lparr>pcFiles = [''b.html'', ''a.html''], pcOut = ''-'', pcKeepGoing = True\<rparr>"

lemma sample_parseParse: "parseParse [''--keep-going'', ''b.html'', ''a.html''] = Inr sample_parse_cmd"
  by code_simp

lemma sample_parse_results:
  "parse_results (\<lambda>_. 0) sample_parse_world 0 (pcFiles sample_parse_cmd) =
     [(''b.html'', Inl ''no such file''), (''a.html'', ParseArchivePage (\<lambda>_. 0) dmhy_page)]"
  by (simp add: sample_parse_world_def sample_parse_cmd_def parseFile_def)

theorem parse_command_witness:
  "snd (ParseCmd_Run (\<lambda>_. 28800) (\<lambda>_. 0) sample_parse_world sample_parse_cmd) = Some (FilesFailed 1 2) \<and>
   length (fst (ParseCmd_Run (\<lambda>_. 28800) (\<lambda>_. 0) sample_parse_world sample_parse_cmd)) = 1"
proof -
  let ?run = "ParseCmd_Run (\<lambda>_. 28800) (\<lambda>_. 0) sample_parse_world sample_parse_cmd"
  let ?rs = "[(''b.html'', Inl ''no such file''), (''a.html'', ParseArchivePage (\<lambda>_. 0) dmhy_page)]"
  obtain p where p: "ParseArchivePage (\<lambda>_. 0) dmhy_page = Inr [p]" "rpPublishedAt p = 1781965500000000000"
    using dmhy_page_parsed by auto
  have "local_year 1781965500000000000 28800 = 2026" by code_simp
  then have l: "post_line (\<lambda>_. 28800) p \<noteq> None" by (simp add: post_line_def post_json_def time_json_def p(2))
  have "?run = (fst ?run, snd ?run)" by simp
  from parse_command [OF this sample_parse_results [symmetric]] p(1) l show ?thesis
    by (auto simp: sample_parse_cmd_def sample_parse_world_def good_posts_def parsed_ok_def)
qed

end
