(* ===== verification/Mux.thy ===== *)
theory Mux
  imports Takuhai_Prelude
begin

text \<open>
  \<open>http.ServeMux\<close> for patterns that are paths: one that ends in a slash stands for the paths below
  it, any other for itself. A path is cleaned before it is looked up, unless the method is
  \<open>CONNECT\<close>; a request for a path that is not clean, or for a registered tree without its last
  slash, is redirected, with the temporary status that the mux of Go 1.26 uses; the request target
  \<open>*\<close> is a bad request. Paths are the escaped paths of the requests, for requests without escapes in
  them; \<open>OPTIONS *\<close>, which the server of \<open>net/http\<close> answers itself, reaches no mux.
\<close>

section \<open>Definitions\<close>

datatype 'h mux_result = Found 'h | Redirect string | NoRoute | BadTarget

text \<open>\<open>path.Clean\<close> of a rooted path, by its segments, the innermost first.\<close>

fun split_slash :: "string \<Rightarrow> string \<Rightarrow> string list" where
  "split_slash acc [] = [rev acc]"
| "split_slash acc (c # s) = (if c = CHR ''/'' then rev acc # split_slash [] s else split_slash (c # acc) s)"

fun clean_segments :: "string list \<Rightarrow> string list \<Rightarrow> string list" where
  "clean_segments acc [] = rev acc"
| "clean_segments acc (s # ss) =
     (if s = [] \<or> s = ''.'' then clean_segments acc ss
      else if s = ''..'' then clean_segments (case acc of [] \<Rightarrow> [] | _ # t \<Rightarrow> t) ss
      else clean_segments (s # acc) ss)"

definition rooted :: "string list \<Rightarrow> string" where
  "rooted ss = (if ss = [] then ''/'' else concat (map (Cons (CHR ''/'')) ss))"

definition cleanPath :: "string \<Rightarrow> string" where
  "cleanPath p =
     (if p = [] then ''/''
      else (let q = (if hd p = CHR ''/'' then p else CHR ''/'' # p);
                np = rooted (clean_segments [] (split_slash [] q))
            in if last q = CHR ''/'' \<and> np \<noteq> ''/'' then np @ ''/'' else np))"

definition is_tree :: "string \<Rightarrow> bool" where
  "is_tree pat \<longleftrightarrow> pat \<noteq> [] \<and> last pat = CHR ''/''"

text \<open>An exact pattern wins over a tree, and a longer tree over a shorter one.\<close>

fun best_tree :: "(string \<times> 'h) list \<Rightarrow> string \<Rightarrow> (string \<times> 'h) option" where
  "best_tree [] path = None"
| "best_tree ((pat, h) # ps) path =
     (if is_tree pat \<and> prefix pat path
      then (case best_tree ps path of
              Some (pat', h') \<Rightarrow> if length pat' > length pat then Some (pat', h') else Some (pat, h)
            | None \<Rightarrow> Some (pat, h))
      else best_tree ps path)"

definition mux_find :: "(string \<times> 'h) list \<Rightarrow> string \<Rightarrow> 'h option" where
  "mux_find ps path =
     (case map_of ps path of Some h \<Rightarrow> Some h | None \<Rightarrow> map_option snd (best_tree ps path))"

definition mux_route :: "(string \<times> 'h) list \<Rightarrow> string \<Rightarrow> string \<Rightarrow> 'h mux_result" where
  "mux_route ps meth path0 =
     (if path0 = ''*'' then BadTarget
      else
        (let path = (if meth = ''CONNECT'' then path0 else cleanPath path0)
         in if map_of ps path = None \<and> path \<noteq> [] \<and> \<not> is_tree path \<and> map_of ps (path @ ''/'') \<noteq> None
            then Redirect (cleanPath path0 @ ''/'')
            else if path \<noteq> path0 then Redirect path
            else case mux_find ps path of Some h \<Rightarrow> Found h | None \<Rightarrow> NoRoute))"

section \<open>Lemmas\<close>

lemma mux_route_Found: "mux_route ps meth path = Found h \<Longrightarrow> mux_find ps path = Some h \<and> path \<noteq> ''*''"
  by (auto simp: mux_route_def Let_def split: option.splits if_splits)

text \<open>Where the roots of the registered trees are clean and not registered themselves.\<close>

lemma mux_route_trees:
  assumes "\<And>p. map_of ps (p @ ''/'') \<noteq> None \<longleftrightarrow> p \<in> roots"
    and "\<And>p. p \<in> roots \<Longrightarrow> map_of ps p = None \<and> \<not> is_tree p \<and> p \<noteq> [] \<and> cleanPath p = p \<and> p \<noteq> ''*''"
  shows "mux_route ps meth path =
    (if path = ''*'' then BadTarget
     else if meth \<noteq> ''CONNECT'' \<and> cleanPath path \<noteq> path
     then Redirect (cleanPath path @ (if cleanPath path \<in> roots then ''/'' else []))
     else if path \<in> roots then Redirect (path @ ''/'')
     else case mux_find ps path of Some h \<Rightarrow> Found h | None \<Rightarrow> NoRoute)"
  using assms(2) [of path] assms(2) [of "cleanPath path"] unfolding mux_route_def Let_def assms(1) by auto

end
