(* ===== verification/Cache.thy ===== *)
theory Cache
  imports Takuhai_Prelude Runs
begin

text \<open>
  The page cache of \<open>sources/dmhy/cache.go\<close>. \<open>get\<close> and \<open>put\<close> run under the mutex and are the
  atomic steps; \<open>wrap\<close> is a lookup, a fetch outside the lock, and a store. The clock is read in
  each step; its readings are arguments.
\<close>

section \<open>Definitions\<close>

record pageEntry =
  peBody :: string
  peExpires :: time

record pageCache =
  pcTTL :: duration
  pcItems :: "string \<rightharpoonup> pageEntry"

definition newPageCache :: "duration \<Rightarrow> pageCache" where
  "newPageCache ttl = \<lparr>pcTTL = ttl, pcItems = Map.empty\<rparr>"

definition pageCacheKey :: "int \<Rightarrow> int \<Rightarrow> string" where
  "pageCacheKey sortID page = itoa sortID @ ''|'' @ itoa page"

definition cache_get :: "pageCache \<Rightarrow> time \<Rightarrow> string \<Rightarrow> string option" where
  "cache_get c nw key =
     (case pcItems c key of
        None \<Rightarrow> None
      | Some e \<Rightarrow> if \<not> nw < peExpires e then None else Some (peBody e))"

definition sweep :: "time \<Rightarrow> (string \<rightharpoonup> pageEntry) \<Rightarrow> (string \<rightharpoonup> pageEntry)" where
  "sweep nw items = (\<lambda>k. case items k of None \<Rightarrow> None | Some e \<Rightarrow> if \<not> nw < peExpires e then None else Some e)"

definition cache_put :: "pageCache \<Rightarrow> time \<Rightarrow> string \<Rightarrow> string \<Rightarrow> pageCache" where
  "cache_put c nw key body =
     c\<lparr>pcItems := (sweep nw (pcItems c))(key \<mapsto> \<lparr>peBody = body, peExpires = time_Add nw (pcTTL c)\<rparr>)\<rparr>"

text \<open>
  The fetcher \<open>wrap\<close> returns: \<open>t1\<close> and \<open>t2\<close> are the clock readings of the lookup and of the
  store, \<open>fetch\<close> the upstream answer. The last component says whether upstream was asked.
\<close>

definition wrap ::
  "(int \<Rightarrow> int \<Rightarrow> string + string) \<Rightarrow> pageCache \<Rightarrow> time \<Rightarrow> time \<Rightarrow> int \<Rightarrow> int \<Rightarrow>
   (string + string) \<times> pageCache \<times> bool" where
  "wrap fetch c t1 t2 sortID page =
     (let key = pageCacheKey sortID page
      in case cache_get c t1 key of
           Some body \<Rightarrow> (Inr body, c, False)
         | None \<Rightarrow>
             (case fetch sortID page of
                Inl err \<Rightarrow> (Inl err, c, True)
              | Inr body \<Rightarrow> (Inr body, cache_put c t2 key body, True)))"

text \<open>
  Concurrent requests interleave their steps; only the stores change the cache. The trace
  records them, newest first: key, body and clock reading of every page stored after it was
  fetched.
\<close>

type_synonym stores = "(string \<times> string \<times> time) list"

inductive cache_step :: "string \<times> string \<times> time \<Rightarrow> pageCache \<times> stores \<Rightarrow> pageCache \<times> stores \<Rightarrow> bool" where
  store: "cache_step (key, body, t) (c, h) (cache_put c t key body, (key, body, t) # h)"

inductive_cases cache_stepE: "cache_step l s s'"

definition last_store :: "stores \<Rightarrow> string \<Rightarrow> (string \<times> time) option" where
  "last_store h key = map_of h key"

text \<open>
  The entries are the last stores of their keys, and a last store is missing only when it has
  expired by the clock of a later store.
\<close>

definition cache_ok :: "duration \<Rightarrow> pageCache \<times> stores \<Rightarrow> bool" where
  "cache_ok ttl s \<longleftrightarrow>
     (case s of (c, h) \<Rightarrow>
        pcTTL c = ttl \<and>
        (\<forall>key e. pcItems c key = Some e \<longrightarrow>
           (\<exists>t. last_store h key = Some (peBody e, t) \<and> peExpires e = t + ttl)) \<and>
        (\<forall>key body t. last_store h key = Some (body, t) \<and> pcItems c key = None \<longrightarrow>
           (\<exists>(k, b, t') \<in> set h. t + ttl \<le> t')))"

section \<open>Lemmas\<close>

lemma itoa_no_bar: "CHR ''|'' \<notin> set (itoa i)"
proof -
  have "\<not> is_digit (CHR ''|'')" by code_simp
  then show ?thesis
    using nat_digits_digits [of "nat i"] nat_digits_digits [of "nat (- i)"]
    by (auto simp: itoa_def list_all_iff)
qed

lemma pageCacheKey_inject:
  assumes "in_int64 a" "in_int64 b" "in_int64 c" "in_int64 d"
  shows "pageCacheKey a b = pageCacheKey c d \<longleftrightarrow> a = c \<and> b = d"
proof
  assume eq: "pageCacheKey a b = pageCacheKey c d"
  have "str_cut (pageCacheKey x y) (CHR ''|'') = Some (itoa x, itoa y)" for x y
    using str_cut_append [OF itoa_no_bar] by (simp add: pageCacheKey_def)
  with eq have "itoa a = itoa c" "itoa b = itoa d" by (metis option.inject prod.inject)+
  with atoi_itoa assms show "a = c \<and> b = d" by (metis option.inject)
qed simp

lemma cache_ok_new: "cache_ok ttl (newPageCache ttl, [])"
  by (simp add: cache_ok_def newPageCache_def last_store_def)

lemma cache_ok_step:
  assumes "cache_step l s s'" "cache_ok ttl s"
  shows "cache_ok ttl s'"
  using assms
proof cases
  case (store key body t c h)
  have old: "\<exists>(k, b, t') \<in> set ((key, body, t) # h). t0 + ttl \<le> t'"
    if ls: "last_store h k0 = Some (b0, t0)" and gone: "sweep t (pcItems c) k0 = None" for k0 b0 t0
  proof (cases "pcItems c k0")
    case None
    with ls assms(2) store show ?thesis by (fastforce simp: cache_ok_def)
  next
    case (Some e)
    with assms(2) ls store have "peExpires e = t0 + ttl" by (fastforce simp: cache_ok_def)
    with Some gone show ?thesis by (auto simp: sweep_def split: if_splits)
  qed
  have kept: "sweep t (pcItems c) k0 = Some e \<Longrightarrow> pcItems c k0 = Some e" for k0 e
    by (auto simp: sweep_def split: option.splits if_splits)
  show ?thesis
    unfolding store(3) cache_ok_def prod.case
  proof (intro conjI allI impI)
    show "pcTTL (cache_put c t key body) = ttl"
      using assms(2) store by (simp add: cache_put_def cache_ok_def)
    show "\<exists>t'. last_store ((key, body, t) # h) k = Some (peBody e, t') \<and> peExpires e = t' + ttl"
      if "pcItems (cache_put c t key body) k = Some e" for k e
      using that kept [of k e] assms(2) store
      by (auto simp: cache_put_def cache_ok_def last_store_def time_Add_def split: if_splits)
    show "\<exists>(k, b, t') \<in> set ((key, body, t) # h). t1 + ttl \<le> t'"
      if "last_store ((key, body, t) # h) k = Some (b1, t1) \<and> pcItems (cache_put c t key body) k = None" for k b1 t1
      using that old [of k b1 t1] by (auto simp: cache_put_def last_store_def split: if_splits)
  qed
qed

interpretation cache: step_system cache_step "cache_ok ttl" for ttl
  by unfold_locales (rule cache_ok_step)

abbreviation any_store_event :: "string \<times> string \<times> time \<Rightarrow> bool" where
  "any_store_event \<equiv> \<lambda>_. True"

text \<open>
  The wrapped fetcher. A hit asks nothing upstream and changes nothing; a failure is
  passed on and never stored; a fetched page is returned as it came and is the answer to every
  request for the same page, and to no other, until the time to live is over.
\<close>

lemma page_cache_wrap:
  assumes "wrap fetch c t1 t2 sortID page = (res, c', asked)"
  shows "(\<not> asked \<longrightarrow> c' = c \<and> (\<exists>body. res = Inr body \<and> cache_get c t1 (pageCacheKey sortID page) = Some body)) \<and>
    (asked \<longrightarrow> res = fetch sortID page) \<and>
    (\<forall>err. res = Inl err \<longrightarrow> c' = c \<and> asked) \<and>
    (\<forall>body. asked \<and> res = Inr body \<longrightarrow>
      (\<forall>t. t < t2 + pcTTL c \<longrightarrow> cache_get c' t (pageCacheKey sortID page) = Some body) \<and>
      (\<forall>t s p. t2 \<le> t \<and> in_int64 sortID \<and> in_int64 page \<and> in_int64 s \<and> in_int64 p \<and> (s, p) \<noteq> (sortID, page) \<longrightarrow>
        cache_get c' t (pageCacheKey s p) = cache_get c t (pageCacheKey s p)))"
proof -
  have put_same: "cache_get (cache_put c t2 k b) t k = Some b" if "t < t2 + pcTTL c" for k b t
    using that by (simp add: cache_get_def cache_put_def time_Add_def)
  have put_other: "cache_get (cache_put c t2 k b) t k' = cache_get c t k'" if "k' \<noteq> k" "t2 \<le> t" for k b t k'
    using that by (auto simp: cache_get_def cache_put_def sweep_def split: option.splits)
  from assms show ?thesis
    by (auto simp: wrap_def Let_def put_same put_other pageCacheKey_inject split: option.splits sum.splits)
qed

section \<open>Properties\<close>

text \<open>
  C38: the cache is transparent for the time to live. After any interleaving of requests, a
  lookup at a time no store has passed answers exactly when the page's last store is less than
  the time to live old, and then with the bytes of that store; so within the time to live a
  page is fetched upstream at most once, no answer is older, and pages are not confused.
\<close>

theorem page_cache_fresh:
  assumes "runs cache_step any_store_event (newPageCache ttl, []) (c, h)"
    and "\<forall>(k, b, t) \<in> set h. t \<le> nw"
  shows "cache_get c nw key = Some body \<longleftrightarrow>
    (\<exists>t. last_store h key = Some (body, t) \<and> nw < t + ttl)"
proof -
  from cache.runs_inv [OF assms(1) cache_ok_new] have ok: "cache_ok ttl (c, h)" .
  show ?thesis
  proof
    assume "cache_get c nw key = Some body"
    then show "\<exists>t. last_store h key = Some (body, t) \<and> nw < t + ttl"
      using ok by (fastforce simp: cache_get_def cache_ok_def split: option.splits if_splits)
  next
    assume "\<exists>t. last_store h key = Some (body, t) \<and> nw < t + ttl"
    then obtain t where t: "last_store h key = Some (body, t)" "nw < t + ttl" by blast
    have "pcItems c key \<noteq> None"
    proof
      assume "pcItems c key = None"
      with ok t(1) have "\<exists>(k, b, t') \<in> set h. t + ttl \<le> t'" by (simp add: cache_ok_def)
      then obtain k b t' where "(k, b, t') \<in> set h" "t + ttl \<le> t'" by auto
      with assms(2) t(2) show False by fastforce
    qed
    with ok t show "cache_get c nw key = Some body"
      by (fastforce simp: cache_get_def cache_ok_def split: option.splits)
  qed
qed

theorem page_cache_fresh_witness:
  "cache_get (cache_put (newPageCache 10) 5 (pageCacheKey 2 1) ''a'') 14 (pageCacheKey 2 1) = Some ''a''"
proof -
  have "runs cache_step any_store_event (newPageCache 10, [])
      (cache_put (newPageCache 10) 5 (pageCacheKey 2 1) ''a'', [(pageCacheKey 2 1, ''a'', 5)])"
    by (rule runs_single [of cache_step]) (auto intro: cache_step.store)
  from page_cache_fresh [OF this, of 14 "pageCacheKey 2 1" "''a''"] show ?thesis
    by (simp add: last_store_def)
qed

end
