(* ===== verification/Crawl.thy ===== *)
theory Crawl
  imports Rawpost
begin

text \<open>
  The stateless crawl engine \<open>pkg/crawl/crawl.go\<close> behind \<open>POST /crawl\<close>, which returns
  posts of the wire type \<open>RawPost\<close>.

  \<^item> \<open>ParseCursor\<close> and \<open>FormatCursor\<close> are the resume point \<open>page:offset\<close>.
  \<^item> \<open>Crawl\<close> walks the pages. One iteration of its \<open>for\<close> loop is \<open>crawl_loop\<close>, the inner
    loop over the rows of a page is \<open>scan_rows\<close>. The source's fetcher and parser are the
    fields \<open>fetch\<close> and \<open>parse\<close> of the crawler: any functions. In one call every page is
    fetched at most once, so a function of the page number is no restriction.
  \<^item> The metrics sink is the list of \<open>ParsePosts\<close> records the walk emits; the wall-clock
    durations of the other records are not modelled.

  The engine terminates for every fetcher: \<open>crawl_loop\<close> is a total function, by the measure
  in its termination proof.
\<close>

section \<open>Definitions\<close>

record CrawlRequest =
  crPageSize :: int
  crCursor :: string
  crLookback :: string

record CrawlResponse =
  Posts :: "RawPost list"
  NextCursor :: string
  HasMore :: bool
  StopReason :: string
  PagesFetched :: int
  LastPage :: int

datatype crawl_error =
    MalformedCursor string string
  | ErrCrawlFetch string string
  | ErrCrawlParse string string string

datatype crawl_metric = ParsePosts string nat

record Crawler =
  source :: string
  fetch :: "int \<Rightarrow> string + string"
  parse :: "string \<Rightarrow> string + RawPost list"
  threshold :: int
  floorReason :: string
  parseErrorContext :: "(int \<Rightarrow> string) option"
  now :: time
  metrics :: bool

subsection \<open>The resume cursor\<close>

definition ParseCursor :: "string \<Rightarrow> string \<Rightarrow> crawl_error + (int \<times> int)" where
  "ParseCursor src cursor =
     (if cursor = [] then Inr (0, 0)
      else case str_cut cursor (CHR '':'') of
        None \<Rightarrow> Inl (MalformedCursor src cursor)
      | Some (p, off) \<Rightarrow>
          (case atoi p of
             None \<Rightarrow> Inl (MalformedCursor src cursor)
           | Some page \<Rightarrow>
               if page < 0 then Inl (MalformedCursor src cursor)
               else case atoi off of
                 None \<Rightarrow> Inl (MalformedCursor src cursor)
               | Some offset \<Rightarrow>
                   if offset < 0 then Inl (MalformedCursor src cursor)
                   else Inr (page, offset)))"

definition FormatCursor :: "int \<Rightarrow> int \<Rightarrow> string" where
  "FormatCursor page offset = itoa page @ '':'' @ itoa offset"

subsection \<open>The page walk\<close>

definition outOfWindow :: "time \<Rightarrow> time \<Rightarrow> bool \<Rightarrow> bool" where
  "outOfWindow publishedAt cutoff hasCutoff \<longleftrightarrow>
     (if \<not> hasCutoff then False else publishedAt \<noteq> zero_time \<and> publishedAt < cutoff)"

definition clampPageSize :: "int \<Rightarrow> int" where
  "clampPageSize n = (if n < 1 then 1 else if n > 200 then 200 else n)"

definition response ::
  "RawPost list \<Rightarrow> string \<Rightarrow> bool \<Rightarrow> string \<Rightarrow> int \<Rightarrow> int \<Rightarrow> CrawlResponse" where
  "response posts nextCursor hasMore stopReason pagesFetched lastPage =
     \<lparr>Posts = posts, NextCursor = nextCursor, HasMore = hasMore, StopReason = stopReason,
      PagesFetched = pagesFetched, LastPage = lastPage\<rparr>"

definition parsePage :: "Crawler \<Rightarrow> string \<Rightarrow> int \<Rightarrow> crawl_error + RawPost list" where
  "parsePage c body page =
     (case parse c body of
        Inr posts \<Rightarrow> Inr posts
      | Inl err \<Rightarrow>
          (let contextText = (case parseErrorContext c of None \<Rightarrow> [] | Some f \<Rightarrow> f page)
           in if contextText \<noteq> [] then Inl (ErrCrawlParse (source c) contextText err)
              else Inl (ErrCrawlParse (source c) (''page '' @ itoa page) err)))"

definition recordParsePosts :: "bool \<Rightarrow> string \<Rightarrow> nat \<Rightarrow> crawl_metric list" where
  "recordParsePosts m result posts = (if m then [ParsePosts result posts] else [])"

text \<open>How the loop over the rows of one page ends.\<close>

datatype scan =
    Exhausted "RawPost list"
  | Boundary "RawPost list"
  | Full "RawPost list" int

fun scan_rows ::
  "(RawPost \<Rightarrow> bool) \<Rightarrow> int \<Rightarrow> RawPost list \<Rightarrow> int \<Rightarrow> RawPost list \<Rightarrow> scan" where
  "scan_rows out pageSize posts i [] = Exhausted posts"
| "scan_rows out pageSize posts i (p # rest) =
     (if out p then Boundary posts
      else let posts' = posts @ [p]
        in if int (length posts') < pageSize then scan_rows out pageSize posts' (i + 1) rest
           else case rest of
             q # _ \<Rightarrow> if out q then Boundary posts' else Full posts' (i + 1)
           | [] \<Rightarrow> Full posts' 0)"

lemma scan_rows_Exhausted:
  "scan_rows out n posts i rows = Exhausted posts' \<Longrightarrow>
   posts' = posts @ rows \<and> (rows \<noteq> [] \<longrightarrow> int (length posts') < n)"
  by (induction out n posts i rows rule: scan_rows.induct)
     (auto simp: Let_def split: if_splits list.splits)

record walk =
  w_posts :: "RawPost list"
  w_empty :: int
  w_page :: int
  w_skip :: int
  w_fetched :: int
  w_last :: int
  w_events :: "crawl_metric list"

definition next_walk :: "walk \<Rightarrow> RawPost list \<Rightarrow> int \<Rightarrow> crawl_metric list \<Rightarrow> walk" where
  "next_walk w posts empties events =
     w\<lparr>w_posts := posts, w_empty := empties, w_page := s64 (w_page w + 1), w_skip := 0,
       w_fetched := w_fetched w + 1, w_last := w_page w, w_events := events\<rparr>"

function crawl_loop ::
  "Crawler \<Rightarrow> (RawPost \<Rightarrow> bool) \<Rightarrow> int \<Rightarrow> walk \<Rightarrow>
   (crawl_error + CrawlResponse) \<times> crawl_metric list" where
  "crawl_loop c out pageSize w =
     (let page = w_page w; pagesFetched = w_fetched w + 1; lastPage = page
      in case fetch c page of
        Inl err \<Rightarrow> (Inl (ErrCrawlFetch (source c) err), w_events w)
      | Inr body \<Rightarrow>
          (case parsePage c body page of
             Inl err \<Rightarrow> (Inl err, w_events w)
           | Inr pagePosts \<Rightarrow>
               (let events = w_events w @ recordParsePosts (metrics c) ''ok'' (length pagePosts)
                in if pagePosts = [] then
                     (if w_empty w + 1 \<ge> threshold c
                      then (Inr (response (w_posts w) [] False (floorReason c) pagesFetched lastPage),
                            events)
                      else crawl_loop c out pageSize
                             (next_walk w (w_posts w) (w_empty w + 1) events))
                   else
                     (let pageStart =
                            (if w_skip w > int (length pagePosts) then int (length pagePosts)
                             else w_skip w)
                      in case scan_rows out pageSize (w_posts w) pageStart
                                (drop (nat pageStart) pagePosts) of
                        Boundary posts \<Rightarrow>
                          (Inr (response posts [] False ''lookback_boundary'' pagesFetched lastPage),
                           events)
                      | Full posts offset \<Rightarrow>
                          (Inr (response posts (FormatCursor page offset) True ''page_budget''
                             pagesFetched lastPage), events)
                      | Exhausted posts \<Rightarrow>
                          crawl_loop c out pageSize (next_walk w posts 0 events)))))"
  by pat_completeness auto
termination
proof (relation "measures [\<lambda>(c, out, n, w). of_bool (w_skip w \<noteq> 0),
    \<lambda>(c, out, n, w). nat (n - int (length (w_posts w))),
    \<lambda>(c, out, n, w). nat (threshold c - w_empty w)]", goal_cases)
  case 3
  then show ?case
    by (simp add: next_walk_def) (auto dest!: scan_rows_Exhausted split: if_splits)
qed (simp_all add: next_walk_def)

declare crawl_loop.simps [simp del]

definition first_walk :: "int \<Rightarrow> int \<Rightarrow> walk" where
  "first_walk curPage curOffset =
     \<lparr>w_posts = [], w_empty = 0,
      w_page = (if curOffset = 0 then s64 (curPage + 1) else curPage),
      w_skip = curOffset, w_fetched = 0, w_last = 0, w_events = []\<rparr>"

definition Crawl ::
  "Crawler \<Rightarrow> CrawlRequest \<Rightarrow> duration \<Rightarrow>
   (crawl_error + CrawlResponse) \<times> crawl_metric list" where
  "Crawl c req lookback =
     (case ParseCursor (source c) (crCursor req) of
        Inl err \<Rightarrow> (Inl err, [])
      | Inr (curPage, curOffset) \<Rightarrow>
          (let pageSize = clampPageSize (crPageSize req);
               hasCutoff = lookback > 0;
               cutoff = (if hasCutoff then time_Add (now c) (- lookback) else zero_time)
           in crawl_loop c (\<lambda>p. outOfWindow (rpPublishedAt p) cutoff hasCutoff) pageSize
                (first_walk curPage curOffset)))"

text \<open>Names for the parts of one iteration, used by the lemmas below.\<close>

definition page_start :: "walk \<Rightarrow> RawPost list \<Rightarrow> int" where
  "page_start w pp = (if w_skip w > int (length pp) then int (length pp) else w_skip w)"

definition page_scan :: "(RawPost \<Rightarrow> bool) \<Rightarrow> int \<Rightarrow> walk \<Rightarrow> RawPost list \<Rightarrow> scan" where
  "page_scan out n w pp =
     scan_rows out n (w_posts w) (page_start w pp) (drop (nat (page_start w pp)) pp)"

definition walk_events :: "Crawler \<Rightarrow> walk \<Rightarrow> RawPost list \<Rightarrow> crawl_metric list" where
  "walk_events c w pp = w_events w @ recordParsePosts (metrics c) ''ok'' (length pp)"

subsection \<open>Reference: what a crawl of an archive should return\<close>

text \<open>The rows of one page, as the walk sees them.\<close>

definition page_rows :: "Crawler \<Rightarrow> int \<Rightarrow> crawl_error + RawPost list" where
  "page_rows c page =
     (case fetch c page of
        Inl err \<Rightarrow> Inl (ErrCrawlFetch (source c) err)
      | Inr body \<Rightarrow> parsePage c body page)"

text \<open>
  An archive: pages \<open>1..final\<close> hold \<open>pg 1, \<dots>, pg final\<close>, the following \<open>threshold\<close> pages are
  empty, and no run of \<open>threshold\<close> empty pages occurs before \<open>final\<close>.
\<close>

definition archive :: "Crawler \<Rightarrow> (int \<Rightarrow> RawPost list) \<Rightarrow> int \<Rightarrow> bool" where
  "archive c pg final \<longleftrightarrow>
     1 \<le> threshold c \<and> 0 \<le> final \<and> final + threshold c < 9223372036854775807 \<and>
     (\<forall>p \<in> {1..final + threshold c}. page_rows c p = Inr (pg p)) \<and>
     (\<forall>p \<in> {final + 1..final + threshold c}. pg p = []) \<and>
     (\<forall>p \<in> {1..final}. \<exists>q \<in> {p..final}. q < p + threshold c \<and> pg q \<noteq> []) \<and>
     (\<forall>p \<in> {1..final}. int (length (pg p)) \<le> 9223372036854775807)"

text \<open>The rows after a resume point \<open>(page, offset)\<close>; offset 0 means the page is consumed.\<close>

definition rows_after :: "(int \<Rightarrow> RawPost list) \<Rightarrow> int \<Rightarrow> int \<Rightarrow> int \<Rightarrow> RawPost list" where
  "rows_after pg final page offset =
     (if offset = 0 then [] else drop (nat offset) (pg page)) @ concat (map pg [page + 1..final])"

text \<open>The lookback predicate of a call: a row is dropped when it is older than the cutoff.\<close>

definition crawl_out :: "Crawler \<Rightarrow> duration \<Rightarrow> RawPost \<Rightarrow> bool" where
  "crawl_out c lookback p =
     outOfWindow (rpPublishedAt p)
       (if lookback > 0 then time_Add (now c) (- lookback) else zero_time) (lookback > 0)"

text \<open>A walk that is about to fetch a page of the archive, with its run of empty pages.\<close>

definition on_archive :: "Crawler \<Rightarrow> (int \<Rightarrow> RawPost list) \<Rightarrow> int \<Rightarrow> walk \<Rightarrow> bool" where
  "on_archive c pg final w \<longleftrightarrow>
     1 \<le> w_page w \<and> 0 \<le> w_empty w \<and> 0 \<le> w_skip w \<and>
     (if w_page w \<le> final
      then \<exists>q \<in> {w_page w..final}. pg q \<noteq> [] \<and> (\<forall>j \<in> {w_page w..<q}. pg j = []) \<and>
             w_empty w + (q - w_page w) < threshold c
      else w_empty w < threshold c \<and> w_page w \<le> final + 1 + w_empty w)"

definition walk_rest :: "(int \<Rightarrow> RawPost list) \<Rightarrow> int \<Rightarrow> walk \<Rightarrow> RawPost list" where
  "walk_rest pg final w =
     drop (nat (w_skip w)) (pg (w_page w)) @ concat (map pg [w_page w + 1..final])"

text \<open>Threading \<open>next_cursor\<close> into the next request until \<open>has_more\<close> is false.\<close>

inductive drained :: "Crawler \<Rightarrow> duration \<Rightarrow> CrawlRequest \<Rightarrow> RawPost list \<Rightarrow> bool"
  for c lookback where
  last_page: "fst (Crawl c req lookback) = Inr r \<Longrightarrow> \<not> HasMore r \<Longrightarrow>
    drained c lookback req (Posts r)"
| more_pages: "fst (Crawl c req lookback) = Inr r \<Longrightarrow> HasMore r \<Longrightarrow>
    drained c lookback (req\<lparr>crCursor := NextCursor r\<rparr>) rest \<Longrightarrow>
    drained c lookback req (Posts r @ rest)"

section \<open>Lemmas: the cursor\<close>

lemma ParseCursor_FormatCursor:
  assumes "0 \<le> page" "in_int64 page" "0 \<le> offset" "in_int64 offset"
  shows "ParseCursor src (FormatCursor page offset) = Inr (page, offset)"
proof -
  have "str_cut (FormatCursor page offset) (CHR '':'') = Some (itoa page, itoa offset)"
    using str_cut_append [OF itoa_no_colon, of page "itoa offset"] by (simp add: FormatCursor_def)
  with assms show ?thesis
    by (simp add: ParseCursor_def atoi_itoa FormatCursor_def)
qed

section \<open>Lemmas: one page\<close>

lemma scan_rows_Boundary:
  "scan_rows out n posts i rows = Boundary posts' \<Longrightarrow> int (length posts) < n \<Longrightarrow>
   (let W = takeWhile (\<lambda>p. \<not> out p) rows
    in posts' = posts @ W \<and> int (length posts') \<le> n \<and> W \<noteq> rows)"
  by (induction out n posts i rows rule: scan_rows.induct)
     (auto simp: Let_def split: if_splits list.splits)

lemma scan_rows_Full:
  "scan_rows out n posts i rows = Full posts' j \<Longrightarrow> int (length posts) < n \<Longrightarrow>
   (\<exists>u v. rows = u @ v \<and> u \<noteq> [] \<and> posts' = posts @ u \<and> int (length posts') = n \<and>
     list_all (\<lambda>p. \<not> out p) u \<and>
     (if v = [] then j = 0 else \<not> out (hd v) \<and> j = i + int (length u)))"
proof (induction out n posts i rows rule: scan_rows.induct)
  case (2 out n posts i p rest)
  show ?case
  proof (cases "int (length (posts @ [p])) < n")
    case True
    with 2 obtain u v where "rest = u @ v" "posts' = (posts @ [p]) @ u" "int (length posts') = n"
        "list_all (\<lambda>p. \<not> out p) u" "if v = [] then j = 0 else \<not> out (hd v) \<and> j = i + 1 + int (length u)"
      by (auto simp: Let_def split: if_splits)
    with 2 True show ?thesis
      by (intro exI [of _ "p # u"] exI [of _ v]) (auto split: if_splits)
  next
    case False
    with 2 show ?thesis
      by (intro exI [of _ "[p]"] exI [of _ rest]) (auto simp: Let_def split: if_splits list.splits)
  qed
qed simp

lemma scan_rows_Exhausted_in:
  "scan_rows out n posts i rows = Exhausted posts' \<Longrightarrow> list_all (\<lambda>p. \<not> out p) rows"
  by (induction out n posts i rows rule: scan_rows.induct)
     (auto simp: Let_def split: if_splits list.splits)

section \<open>Lemmas: the walk\<close>

lemma crawl_loop_error:
  "page_rows c (w_page w) = Inl e \<Longrightarrow> crawl_loop c out n w = (Inl e, w_events w)"
  by (subst crawl_loop.simps) (auto simp: page_rows_def Let_def split: sum.splits)

lemma crawl_loop_empty:
  "page_rows c (w_page w) = Inr [] \<Longrightarrow> crawl_loop c out n w =
    (if threshold c \<le> w_empty w + 1
     then (Inr (response (w_posts w) [] False (floorReason c) (w_fetched w + 1) (w_page w)), walk_events c w [])
     else crawl_loop c out n (next_walk w (w_posts w) (w_empty w + 1) (walk_events c w [])))"
  by (subst crawl_loop.simps) (auto simp: page_rows_def Let_def walk_events_def split: sum.splits)

lemma crawl_loop_rows:
  "page_rows c (w_page w) = Inr pp \<Longrightarrow> pp \<noteq> [] \<Longrightarrow> crawl_loop c out n w =
    (case page_scan out n w pp of
       Boundary posts \<Rightarrow>
         (Inr (response posts [] False ''lookback_boundary'' (w_fetched w + 1) (w_page w)), walk_events c w pp)
     | Full posts offset \<Rightarrow>
         (Inr (response posts (FormatCursor (w_page w) offset) True ''page_budget'' (w_fetched w + 1) (w_page w)),
          walk_events c w pp)
     | Exhausted posts \<Rightarrow> crawl_loop c out n (next_walk w posts 0 (walk_events c w pp)))"
  unfolding walk_events_def page_scan_def page_start_def
  by (subst crawl_loop.simps) (auto simp: page_rows_def Let_def split: sum.splits)

lemmas crawl_loop_unfold = crawl_loop_error crawl_loop_empty crawl_loop_rows

lemma crawl_loop_walk_induct [case_names step]:
  assumes step: "\<And>w.
    (page_rows c (w_page w) = Inr [] \<Longrightarrow> w_empty w + 1 < threshold c \<Longrightarrow>
       P (next_walk w (w_posts w) (w_empty w + 1) (walk_events c w []))) \<Longrightarrow>
    (\<And>pp posts. page_rows c (w_page w) = Inr pp \<Longrightarrow> pp \<noteq> [] \<Longrightarrow>
       page_scan out n w pp = Exhausted posts \<Longrightarrow> P (next_walk w posts 0 (walk_events c w pp))) \<Longrightarrow>
    P w"
  shows "P w"
proof -
  define Q where "Q = (\<lambda>c' out' (n' :: int) w. c' = c \<longrightarrow> out' = out \<longrightarrow> n' = n \<longrightarrow> P w)"
  have "Q c out n w"
  proof (induction c out n w rule: crawl_loop.induct)
    case (1 c' out' n' w)
    show ?case
      unfolding Q_def
    proof (intro impI, rule step)
      assume eq: "c' = c" "out' = out" "n' = n"
      {
        assume "page_rows c (w_page w) = Inr []" "w_empty w + 1 < threshold c"
        with eq 1 show "P (next_walk w (w_posts w) (w_empty w + 1) (walk_events c w []))"
          by (auto simp: page_rows_def walk_events_def Q_def split: sum.splits)
      next
        fix pp posts
        assume "page_rows c (w_page w) = Inr pp" "pp \<noteq> []" "page_scan out n w pp = Exhausted posts"
        with eq 1 show "P (next_walk w posts 0 (walk_events c w pp))"
          by (auto simp: page_rows_def walk_events_def page_scan_def page_start_def Q_def split: sum.splits)
      }
    qed
  qed
  then show ?thesis by (simp add: Q_def)
qed

subsection \<open>Every walk\<close>

lemma page_rows_cases:
  obtains e where "page_rows c p = Inl e" | "page_rows c p = Inr []"
    | pp where "page_rows c p = Inr pp" "pp \<noteq> []"
  by (cases "page_rows c p") auto

lemma next_walk_simps [simp]:
  "w_posts (next_walk w ps e ev) = ps" "w_empty (next_walk w ps e ev) = e"
  "w_page (next_walk w ps e ev) = s64 (w_page w + 1)" "w_skip (next_walk w ps e ev) = 0"
  "w_fetched (next_walk w ps e ev) = w_fetched w + 1" "w_events (next_walk w ps e ev) = ev"
  by (simp_all add: next_walk_def)

lemma response_simps [simp]:
  "Posts (response ps nc hm sr pf lp) = ps" "NextCursor (response ps nc hm sr pf lp) = nc"
  "HasMore (response ps nc hm sr pf lp) = hm" "StopReason (response ps nc hm sr pf lp) = sr"
  "PagesFetched (response ps nc hm sr pf lp) = pf" "LastPage (response ps nc hm sr pf lp) = lp"
  by (simp_all add: response_def)

lemma page_scan_Exhausted:
  assumes "page_scan out n w pp = Exhausted posts" and "int (length (w_posts w)) < n"
  shows "posts = w_posts w @ drop (nat (page_start w pp)) pp" and "int (length posts) < n"
    and "list_all (\<lambda>p. \<not> out p) (drop (nat (page_start w pp)) pp)"
  using assms scan_rows_Exhausted scan_rows_Exhausted_in
  by (auto simp: page_scan_def, metis append.right_neutral)

lemma page_start_0 [simp]: "w_skip w = 0 \<Longrightarrow> page_start w pp = 0"
  by (simp add: page_start_def)

lemma crawl_loop_posts:
  assumes "fst (crawl_loop c out n w) = Inr r" and "int (length (w_posts w)) < n"
    and "list_all (\<lambda>p. \<not> out p) (w_posts w)"
  shows "int (length (Posts r)) \<le> n \<and> list_all (\<lambda>p. \<not> out p) (Posts r) \<and>
    (HasMore r \<longrightarrow> int (length (Posts r)) = n) \<and> (NextCursor r = [] \<longleftrightarrow> \<not> HasMore r)"
  using assms
proof (induction w rule: crawl_loop_walk_induct [where c = c and out = out and n = n])
  case (step w)
  note IH_empty = step(1) and IH_rows = step(2) and r = step(3) and len = step(4) and win = step(5)
  show ?case
  proof (cases c "w_page w" rule: page_rows_cases)
    case 1
    with r show ?thesis by (simp add: crawl_loop_error)
  next
    case 2
    with r len win IH_empty [OF 2] show ?thesis
      by (auto simp: crawl_loop_empty [OF 2] split: if_splits)
  next
    case (3 pp)
    show ?thesis
    proof (cases "page_scan out n w pp")
      case (Exhausted posts)
      note ex = page_scan_Exhausted [OF Exhausted len]
      from IH_rows [OF 3 Exhausted] r ex win show ?thesis
        by (simp add: crawl_loop_rows [OF 3] Exhausted)
    next
      case (Boundary posts)
      with r len win scan_rows_Boundary [of out n "w_posts w" _ _ posts] show ?thesis
        by (fastforce simp: crawl_loop_rows [OF 3] page_scan_def Let_def list_all_iff dest: set_takeWhileD)
    next
      case (Full posts j)
      then obtain u where "posts = w_posts w @ u" "int (length posts) = n" "list_all (\<lambda>p. \<not> out p) u"
        using len scan_rows_Full [of out n "w_posts w" _ _ posts j] by (fastforce simp: page_scan_def)
      with r len win Full show ?thesis
        by (auto simp: crawl_loop_rows [OF 3] FormatCursor_def)
    qed
  qed
qed

text \<open>How many more pages a walk can fetch.\<close>

definition walk_potential :: "Crawler \<Rightarrow> int \<Rightarrow> walk \<Rightarrow> int" where
  "walk_potential c n w =
     (of_bool (w_skip w \<noteq> 0) + (n - int (length (w_posts w))) + 1) * max 1 (threshold c) - w_empty w"

lemma crawl_loop_pages:
  assumes "fst (crawl_loop c out n w) = Inr r" and "int (length (w_posts w)) < n"
    and "0 \<le> w_empty w" and "w_empty w < max 1 (threshold c)"
  shows "PagesFetched r \<le> w_fetched w + walk_potential c n w"
  using assms
proof (induction w rule: crawl_loop_walk_induct [where c = c and out = out and n = n])
  case (step w)
  note IH_empty = step(1) and IH_rows = step(2) and r = step(3) and len = step(4) and e = step(5,6)
  let ?T = "max 1 (threshold c)"
  let ?X = "of_bool (w_skip w \<noteq> 0) + (n - int (length (w_posts w)))"
  have "0 \<le> ?X * ?T" using len by (intro mult_nonneg_nonneg) simp_all
  moreover have "walk_potential c n w = ?X * ?T + ?T - w_empty w"
    by (simp add: walk_potential_def distrib_right)
  ultimately have one: "1 \<le> walk_potential c n w" using e by simp
  show ?case
  proof (cases c "w_page w" rule: page_rows_cases)
    case 1
    with r show ?thesis by (simp add: crawl_loop_error)
  next
    case 2
    show ?thesis
    proof (cases "threshold c \<le> w_empty w + 1")
      case True
      with r one show ?thesis by (auto simp: crawl_loop_empty [OF 2])
    next
      case False
      then have "walk_potential c n (next_walk w (w_posts w) (w_empty w + 1) (walk_events c w []))
          \<le> walk_potential c n w - 1"
        by (simp add: walk_potential_def algebra_simps)
      with False r len e IH_empty [OF 2] show ?thesis by (simp add: crawl_loop_empty [OF 2])
    qed
  next
    case (3 pp)
    show ?thesis
    proof (cases "page_scan out n w pp")
      case (Exhausted posts)
      note ex = page_scan_Exhausted [OF Exhausted len]
      have "w_skip w = 0 \<Longrightarrow> length (w_posts w) + 1 \<le> length posts"
        using ex(1) 3(2) by (cases pp) auto
      then have "of_bool (w_skip w \<noteq> 0) + (n - int (length (w_posts w))) \<ge> (n - int (length posts)) + 1"
        using ex(1) by (cases "w_skip w = 0") auto
      from mult_right_mono [OF this, of ?T]
      have "walk_potential c n (next_walk w posts 0 (walk_events c w pp)) \<le> walk_potential c n w - 1"
        using e by (simp add: walk_potential_def algebra_simps)
      with IH_rows [OF 3 Exhausted] r ex(2) show ?thesis
        by (simp add: crawl_loop_rows [OF 3] Exhausted less_max_iff_disj)
    qed (use r one in \<open>auto simp: crawl_loop_rows [OF 3]\<close>)
  qed
qed

text \<open>
  Every page a successful walk counted was fetched and parsed, and a walk that stopped at the
  floor saw \<open>threshold\<close> empty pages in a row.
\<close>

lemma crawl_loop_fetched:
  assumes "fst (crawl_loop c out n w) = Inr r" and "in_int64 (w_page w)"
    and "\<forall>j \<in> {1..w_fetched w}. \<exists>pp. page_rows c (s64 (w_page w - j)) = Inr pp"
    and "\<forall>j \<in> {1..w_empty w}. page_rows c (s64 (w_page w - j)) = Inr []"
  shows "(\<forall>j \<in> {0..<PagesFetched r}. \<exists>pp. page_rows c (s64 (LastPage r - j)) = Inr pp) \<and>
    (\<not> HasMore r \<and> StopReason r \<noteq> ''lookback_boundary'' \<longrightarrow>
      (\<forall>j \<in> {0..<threshold c}. page_rows c (s64 (LastPage r - j)) = Inr []))"
  using assms
proof (induction w rule: crawl_loop_walk_induct [where c = c and out = out and n = n])
  case (step w)
  note IH_empty = step(1) and IH_rows = step(2) and r = step(3) and page = step(4)
    and seen = step(5) and empties = step(6)
  have shift: "page_rows c (s64 (s64 (w_page w + 1) - j)) = page_rows c (s64 (w_page w - (j - 1)))" for j
    using s64_add [of "w_page w + 1" "- j"] by (simp add: algebra_simps)
  have seen': "\<forall>j \<in> {1..w_fetched w + 1}. \<exists>pp. page_rows c (s64 (s64 (w_page w + 1) - j)) = Inr pp"
    if "page_rows c (w_page w) = Inr pp" for pp
    unfolding shift
  proof
    fix j assume "j \<in> {1..w_fetched w + 1}"
    then consider "j = 1" | "j - 1 \<in> {1..w_fetched w}" by fastforce
    then show "\<exists>pp. page_rows c (s64 (w_page w - (j - 1))) = Inr pp"
      using that seen page by cases auto
  qed
  have empties': "\<forall>j \<in> {1..w_empty w + 1}. page_rows c (s64 (s64 (w_page w + 1) - j)) = Inr []"
    if "page_rows c (w_page w) = Inr []"
    unfolding shift
  proof
    fix j assume "j \<in> {1..w_empty w + 1}"
    then consider "j = 1" | "j - 1 \<in> {1..w_empty w}" by fastforce
    then show "page_rows c (s64 (w_page w - (j - 1))) = Inr []"
      using that empties page by cases auto
  qed
  have here: "\<forall>j \<in> {0..<w_fetched w + 1}. \<exists>pp. page_rows c (s64 (w_page w - j)) = Inr pp"
    if "page_rows c (w_page w) = Inr pp" for pp
  proof
    fix j assume "j \<in> {0..<w_fetched w + 1}"
    then consider "j = 0" | "j \<in> {1..w_fetched w}" by fastforce
    then show "\<exists>pp. page_rows c (s64 (w_page w - j)) = Inr pp" using that seen page by cases auto
  qed
  show ?case
  proof (cases c "w_page w" rule: page_rows_cases)
    case 1
    with r show ?thesis by (simp add: crawl_loop_error)
  next
    case 2
    show ?thesis
    proof (cases "threshold c \<le> w_empty w + 1")
      case True
      have "page_rows c (s64 (w_page w - j)) = Inr []" if "j \<in> {0..<threshold c}" for j
      proof -
        from that True consider "j = 0" | "j \<in> {1..w_empty w}" by fastforce
        then show ?thesis using 2 empties page by cases auto
      qed
      with True r here [OF 2] show ?thesis by (auto simp: crawl_loop_empty [OF 2])
    next
      case False
      with r IH_empty [OF 2] seen' [OF 2] empties' [OF 2] s64_range show ?thesis
        by (simp add: crawl_loop_empty [OF 2])
    qed
  next
    case (3 pp)
    show ?thesis
    proof (cases "page_scan out n w pp")
      case (Exhausted posts)
      with IH_rows [OF 3 Exhausted] r seen' [OF 3(1)] s64_range show ?thesis
        by (simp add: crawl_loop_rows [OF 3])
    qed (use r here [OF 3(1)] in \<open>auto simp: crawl_loop_rows [OF 3]\<close>)
  qed
qed

subsection \<open>Walks over an archive\<close>

lemma archiveD:
  assumes "archive c pg final"
  shows "1 \<le> threshold c" "0 \<le> final" "final + threshold c < 9223372036854775807"
    "1 \<le> p \<Longrightarrow> p \<le> final + threshold c \<Longrightarrow> page_rows c p = Inr (pg p)"
    "final < p \<Longrightarrow> p \<le> final + threshold c \<Longrightarrow> pg p = []"
    "1 \<le> p \<Longrightarrow> p \<le> final \<Longrightarrow> int (length (pg p)) \<le> 9223372036854775807"
  using assms by (auto simp: archive_def)

lemma archive_next_content:
  assumes ar: "archive c pg final" and p: "1 \<le> p" "p \<le> final"
  shows "\<exists>q \<in> {p..final}. pg q \<noteq> [] \<and> (\<forall>j \<in> {p..<q}. pg j = []) \<and> q - p < threshold c"
proof -
  let ?S = "{q \<in> {p..final}. pg q \<noteq> []}"
  have "\<exists>q \<in> {p..final}. q < p + threshold c \<and> pg q \<noteq> []"
    using ar p unfolding archive_def by (meson atLeastAtMost_iff)
  then obtain q where q: "q \<in> ?S" "q < p + threshold c" by blast
  have fin: "finite ?S" by (rule finite_subset [of _ "{p..final}"]) auto
  define m where "m = Min ?S"
  have min: "m \<in> ?S" unfolding m_def using fin q(1) by (intro Min_in) blast+
  have "m \<le> q" unfolding m_def using fin q(1) by (rule Min_le)
  have "pg j = []" if "j \<in> {p..<m}" for j
  proof (rule ccontr)
    assume "pg j \<noteq> []"
    with that min have "j \<in> ?S" by simp
    with fin have "m \<le> j" unfolding m_def by (rule Min_le)
    with that show False by simp
  qed
  with min q(2) \<open>m \<le> q\<close> show ?thesis by (intro bexI [of _ m]) auto
qed

lemma on_archive_bound: "archive c pg final \<Longrightarrow> on_archive c pg final w \<Longrightarrow> w_page w \<le> final + threshold c"
  by (auto simp: on_archive_def split: if_splits dest: archiveD(1))

lemma on_archive_rows:
  assumes "archive c pg final" and "on_archive c pg final w"
  shows "page_rows c (w_page w) = Inr (pg (w_page w))"
  using archiveD(4) [OF assms(1), of "w_page w"] on_archive_bound [OF assms] assms(2)
  by (simp add: on_archive_def)

lemma on_archive_next_page:
  assumes "archive c pg final" and "on_archive c pg final w"
  shows "s64 (w_page w + 1) = w_page w + 1"
  using on_archive_bound [OF assms] archiveD(3) [OF assms(1)] assms(2)
  by (intro s64_id) (simp add: on_archive_def in_int64_def)

lemma on_archive_empty:
  assumes ar: "archive c pg final" and w: "on_archive c pg final w"
    and "pg (w_page w) = []" and "w_empty w + 1 < threshold c"
  shows "on_archive c pg final (next_walk w ps (w_empty w + 1) ev)"
proof (cases "w_page w \<le> final")
  case True
  with w obtain q where q: "q \<in> {w_page w..final}" "pg q \<noteq> []" "\<forall>j \<in> {w_page w..<q}. pg j = []"
      "w_empty w + (q - w_page w) < threshold c"
    by (auto simp: on_archive_def)
  with assms(3) have "q \<noteq> w_page w" by auto
  with q True w show ?thesis
    by (auto simp: on_archive_def on_archive_next_page [OF ar w] intro!: bexI [of _ q])
next
  case False
  with w assms(4) show ?thesis by (auto simp: on_archive_def on_archive_next_page [OF ar w])
qed

lemma on_archive_content:
  assumes ar: "archive c pg final" and w: "on_archive c pg final w" and ne: "pg (w_page w) \<noteq> []"
  shows "w_page w \<le> final" and "on_archive c pg final (next_walk w ps 0 ev)"
proof -
  show le: "w_page w \<le> final"
    using archiveD(5) [OF ar, of "w_page w"] on_archive_bound [OF ar w] ne by force
  show "on_archive c pg final (next_walk w ps 0 ev)"
    using le w archive_next_content [OF ar, of "w_page w + 1"] archiveD(1) [OF ar]
    by (auto simp: on_archive_def on_archive_next_page [OF ar w])
qed

lemma walk_rest_next:
  assumes "archive c pg final" and "on_archive c pg final w" and "w_page w + 1 \<le> final + threshold c"
  shows "walk_rest pg final (next_walk w ps e ev) = concat (map pg [w_page w + 1..final])"
proof (cases "w_page w + 1 \<le> final")
  case True
  then show ?thesis
    by (simp add: walk_rest_def on_archive_next_page [OF assms(1,2)] upto_rec1 [of "w_page w + 1"])
next
  case False
  with archiveD(5) [OF assms(1), of "w_page w + 1"] assms(3) show ?thesis
    by (simp add: walk_rest_def on_archive_next_page [OF assms(1,2)])
qed

lemma drop_page_start: "drop (nat (page_start w pp)) pp = drop (nat (w_skip w)) pp"
  by (simp add: page_start_def)

text \<open>What a walk returns, in terms of the rows still ahead of it.\<close>

definition walk_result ::
  "(int \<Rightarrow> RawPost list) \<Rightarrow> int \<Rightarrow> (RawPost \<Rightarrow> bool) \<Rightarrow> RawPost list \<Rightarrow> RawPost list \<Rightarrow> CrawlResponse \<Rightarrow> bool" where
  "walk_result pg final out posts rest r \<longleftrightarrow>
     (if HasMore r
      then \<exists>u page off. rest = u @ rows_after pg final page off \<and> Posts r = posts @ u \<and> u \<noteq> [] \<and>
             list_all (\<lambda>p. \<not> out p) u \<and> NextCursor r = FormatCursor page off \<and>
             1 \<le> page \<and> page \<le> final \<and> 0 \<le> off \<and> off \<le> int (length (pg page))
      else Posts r = posts @ takeWhile (\<lambda>p. \<not> out p) rest)"

lemma walk_result_step:
  assumes "walk_result pg final out (posts @ u) rest r" and "list_all (\<lambda>p. \<not> out p) u"
  shows "walk_result pg final out posts (u @ rest) r"
proof (cases "HasMore r")
  case True
  with assms(1) obtain u' page off where "rest = u' @ rows_after pg final page off"
      "Posts r = posts @ (u @ u')" "u' \<noteq> []" "list_all (\<lambda>p. \<not> out p) u'" "NextCursor r = FormatCursor page off"
      "1 \<le> page" "page \<le> final" "0 \<le> off" "off \<le> int (length (pg page))"
    by (auto simp: walk_result_def)
  with True assms(2) show ?thesis
    unfolding walk_result_def
    by (simp, intro exI [of _ "u @ u'"] exI [of _ page] exI [of _ off]) simp
next
  case False
  have "takeWhile (\<lambda>p. \<not> out p) (u @ rest) = u @ takeWhile (\<lambda>p. \<not> out p) rest"
    using assms(2) by (intro takeWhile_append2) (simp add: list_all_iff)
  with False assms(1) show ?thesis by (simp add: walk_result_def)
qed

lemma page_scan_Full_rows:
  assumes "page_scan out n w pp = Full posts off" and "int (length (w_posts w)) < n" and "0 \<le> w_skip w"
  shows "\<exists>u. posts = w_posts w @ u \<and> u \<noteq> [] \<and> list_all (\<lambda>p. \<not> out p) u \<and> 0 \<le> off \<and>
    off \<le> int (length pp) \<and>
    drop (nat (w_skip w)) pp = u @ (if off = 0 then [] else drop (nat off) pp)"
proof -
  let ?s = "page_start w pp"
  obtain u v where uv: "drop (nat ?s) pp = u @ v" "posts = w_posts w @ u" "u \<noteq> []"
      "list_all (\<lambda>p. \<not> out p) u" "if v = [] then off = 0 else \<not> out (hd v) \<and> off = ?s + int (length u)"
    using scan_rows_Full [OF assms(1) [unfolded page_scan_def] assms(2)] by metis
  have s: "0 \<le> ?s" "?s \<le> int (length pp)" using assms(3) by (auto simp: page_start_def)
  have v: "v = drop (nat ?s + length u) pp"
    using uv(1) by (metis append_eq_conv_conj drop_drop add.commute)
  have "int (length u) + ?s \<le> int (length pp)"
    using arg_cong [OF uv(1), of length] s by simp
  moreover have "?s + int (length u) \<noteq> 0" using s(1) uv(3) by (cases u) auto
  ultimately show ?thesis
    using uv v s
    by (intro exI [of _ u]) (auto simp: drop_page_start [symmetric] nat_add_distrib split: if_splits)
qed

lemma crawl_loop_archive:
  assumes "archive c pg final" and "on_archive c pg final w" and "int (length (w_posts w)) < n"
  shows "\<exists>r. fst (crawl_loop c out n w) = Inr r \<and>
    walk_result pg final out (w_posts w) (walk_rest pg final w) r"
  using assms
proof (induction w rule: crawl_loop_walk_induct [where c = c and out = out and n = n])
  case (step w)
  note IH_empty = step(1) and IH_rows = step(2) and ar = step(3) and w = step(4) and len = step(5)
  note rows = on_archive_rows [OF ar w]
  let ?later = "concat (map pg [w_page w + 1..final])"
  show ?case
  proof (cases "pg (w_page w) = []")
    case True
    note rows' = rows [unfolded True]
    from True have rest: "walk_rest pg final w = ?later" by (simp add: walk_rest_def)
    show ?thesis
    proof (cases "threshold c \<le> w_empty w + 1")
      case floor: True
      have "\<not> w_page w + 1 \<le> final"
      proof
        assume "w_page w + 1 \<le> final"
        with w obtain q where "w_page w \<le> q" "pg q \<noteq> []" "w_empty w + (q - w_page w) < threshold c"
          by (auto simp: on_archive_def)
        moreover from this True have "q \<noteq> w_page w" by auto
        ultimately show False using floor by linarith
      qed
      then have "walk_rest pg final w = []" by (simp add: rest)
      with floor show ?thesis by (simp add: crawl_loop_empty [OF rows'] walk_result_def)
    next
      case False
      note w' = on_archive_empty [OF ar w True, simplified]
      have "w_page w + 1 \<le> final + threshold c"
        using on_archive_bound [OF ar on_archive_empty [OF ar w True]] False
        by (simp add: on_archive_next_page [OF ar w])
      with IH_empty [OF rows' _ ar] on_archive_empty [OF ar w True] False len
      show ?thesis by (simp add: crawl_loop_empty [OF rows'] rest walk_rest_next [OF ar w])
    qed
  next
    case False
    note here = on_archive_content [OF ar w False]
    have rest: "walk_rest pg final w = drop (nat (w_skip w)) (pg (w_page w)) @ ?later"
      by (simp add: walk_rest_def)
    show ?thesis
    proof (cases "page_scan out n w (pg (w_page w))")
      case (Exhausted posts)
      note ex = page_scan_Exhausted [OF Exhausted len, unfolded drop_page_start]
      from here(1) archiveD(1) [OF ar] have "w_page w + 1 \<le> final + threshold c" by simp
      with IH_rows [OF rows False Exhausted ar here(2)] ex(2)
      obtain r where "fst (crawl_loop c out n (next_walk w posts 0 (walk_events c w (pg (w_page w))))) = Inr r"
          "walk_result pg final out posts ?later r"
        by (auto simp: walk_rest_next [OF ar w])
      with walk_result_step [of pg final out "w_posts w" _ ?later r, OF _ ex(3)] ex(1) show ?thesis
        by (simp add: crawl_loop_rows [OF rows False] Exhausted rest)
    next
      case (Boundary posts)
      from scan_rows_Boundary [OF this [unfolded page_scan_def] len]
      have b: "posts = w_posts w @ takeWhile (\<lambda>p. \<not> out p) (drop (nat (w_skip w)) (pg (w_page w)))"
          "takeWhile (\<lambda>p. \<not> out p) (drop (nat (w_skip w)) (pg (w_page w))) \<noteq> drop (nat (w_skip w)) (pg (w_page w))"
        by (simp_all add: Let_def drop_page_start)
      then have "\<exists>x \<in> set (drop (nat (w_skip w)) (pg (w_page w))). out x"
        by (metis (mono_tags, lifting) takeWhile_eq_all_conv)
      then have "takeWhile (\<lambda>p. \<not> out p) (walk_rest pg final w)
          = takeWhile (\<lambda>p. \<not> out p) (drop (nat (w_skip w)) (pg (w_page w)))"
        unfolding rest by (metis (mono_tags, lifting) takeWhile_append1)
      with b(1) Boundary show ?thesis
        by (simp add: crawl_loop_rows [OF rows False] walk_result_def)
    next
      case (Full posts off)
      from w have nn: "0 \<le> w_skip w" "1 \<le> w_page w" by (simp_all add: on_archive_def)
      from page_scan_Full_rows [OF Full len nn(1)] obtain u where
        "posts = w_posts w @ u" "u \<noteq> []" "list_all (\<lambda>p. \<not> out p) u" "0 \<le> off"
        "off \<le> int (length (pg (w_page w)))"
        "walk_rest pg final w = u @ rows_after pg final (w_page w) off"
        by (auto simp: rest rows_after_def)
      with nn here(1) have "walk_result pg final out (w_posts w) (walk_rest pg final w)
          (response posts (FormatCursor (w_page w) off) True ''page_budget'' (w_fetched w + 1) (w_page w))"
        by (simp add: walk_result_def, intro exI [of _ u] exI [of _ "w_page w"] exI [of _ off]) simp
      with Full show ?thesis by (simp add: crawl_loop_rows [OF rows False])
    qed
  qed
qed

subsection \<open>Whole calls\<close>

definition resume_point :: "(int \<Rightarrow> RawPost list) \<Rightarrow> int \<Rightarrow> int \<Rightarrow> int \<Rightarrow> bool" where
  "resume_point pg final page off \<longleftrightarrow>
     0 \<le> page \<and> page \<le> final \<and> 0 \<le> off \<and> (off \<noteq> 0 \<longrightarrow> 1 \<le> page \<and> off \<le> int (length (pg page)))"

lemma first_walk_archive:
  assumes ar: "archive c pg final" and rp: "resume_point pg final page off"
  shows "on_archive c pg final (first_walk page off)"
    and "walk_rest pg final (first_walk page off) = rows_after pg final page off"
proof -
  have p1: "s64 (page + 1) = page + 1"
    using rp archiveD(1,3) [OF ar] by (intro s64_id) (simp add: resume_point_def in_int64_def)
  show "on_archive c pg final (first_walk page off)"
    using rp archiveD(1) [OF ar] archive_next_content [OF ar, of page]
      archive_next_content [OF ar, of "page + 1"]
    by (auto simp: on_archive_def first_walk_def resume_point_def p1)
  show "walk_rest pg final (first_walk page off) = rows_after pg final page off"
    using rp archiveD(1) [OF ar] archiveD(5) [OF ar, of "page + 1"]
    by (cases "page + 1 \<le> final")
       (auto simp: walk_rest_def first_walk_def rows_after_def resume_point_def p1 upto_rec1 [of "page + 1"])
qed

lemma clampPageSize_range: "1 \<le> clampPageSize n \<and> clampPageSize n \<le> 200"
  by (simp add: clampPageSize_def)

lemma Crawl_cursor:
  assumes "ParseCursor (source c) (crCursor req) = Inr (page, off)"
  shows "Crawl c req lookback =
    crawl_loop c (crawl_out c lookback) (clampPageSize (crPageSize req)) (first_walk page off)"
  using assms unfolding Crawl_def crawl_out_def by (simp add: Let_def)

lemma Crawl_archive:
  assumes "archive c pg final" and "resume_point pg final page off"
    and "ParseCursor (source c) (crCursor req) = Inr (page, off)"
  shows "\<exists>r. fst (Crawl c req lookback) = Inr r \<and>
    walk_result pg final (crawl_out c lookback) [] (rows_after pg final page off) r"
  using crawl_loop_archive [OF assms(1) first_walk_archive(1) [OF assms(1,2)],
      of "clampPageSize (crPageSize req)" "crawl_out c lookback"]
    first_walk_archive(2) [OF assms(1,2)] clampPageSize_range [of "crPageSize req"]
  by (simp add: Crawl_cursor [OF assms(3)] first_walk_def)

lemma drained_unique: "drained c lookback req xs \<Longrightarrow> drained c lookback req ys \<Longrightarrow> xs = ys"
proof (induction arbitrary: ys rule: drained.induct)
  case (last_page req r)
  from last_page(3,1,2) show ?case by (cases rule: drained.cases) auto
next
  case (more_pages req r rest)
  from more_pages(5,1,2) more_pages.IH show ?case by (cases rule: drained.cases) auto
qed

lemma resume_point_next:
  assumes ar: "archive c pg final" and "1 \<le> page" "page \<le> final" "0 \<le> off" "off \<le> int (length (pg page))"
  shows "resume_point pg final page off" and "ParseCursor src (FormatCursor page off) = Inr (page, off)"
  using assms archiveD(1,3) [OF ar] archiveD(6) [OF ar, of page]
  by (auto simp: resume_point_def in_int64_def intro!: ParseCursor_FormatCursor)

lemma drained_archive:
  assumes ar: "archive c pg final" and "resume_point pg final page off"
    and "ParseCursor (source c) (crCursor req) = Inr (page, off)"
  shows "drained c lookback req (takeWhile (\<lambda>p. \<not> crawl_out c lookback p) (rows_after pg final page off))"
  using assms(2,3)
proof (induction "length (rows_after pg final page off)" arbitrary: page off req rule: less_induct)
  case less
  let ?in = "\<lambda>p. \<not> crawl_out c lookback p"
  from Crawl_archive [OF ar less.prems] obtain r where r: "fst (Crawl c req lookback) = Inr r"
    "walk_result pg final (crawl_out c lookback) [] (rows_after pg final page off) r" by blast
  show ?case
  proof (cases "HasMore r")
    case False
    with r show ?thesis using drained.last_page [OF r(1) False] by (simp add: walk_result_def)
  next
    case True
    with r(2) obtain u page' off' where u: "rows_after pg final page off = u @ rows_after pg final page' off'"
        "Posts r = u" "u \<noteq> []" "list_all ?in u" "NextCursor r = FormatCursor page' off'"
        "1 \<le> page'" "page' \<le> final" "0 \<le> off'" "off' \<le> int (length (pg page'))"
      by (auto simp: walk_result_def)
    note nxt = resume_point_next [OF ar u(6-9)]
    have "drained c lookback (req\<lparr>crCursor := NextCursor r\<rparr>) (takeWhile ?in (rows_after pg final page' off'))"
      using u(1,3,5) nxt by (intro less.hyps) auto
    from drained.more_pages [OF r(1) True this] show ?thesis
      using u(1,2,4) by (simp add: list_all_iff)
  qed
qed

lemma crawl_loop_Inl:
  "fst (crawl_loop c out n w) = Inl e \<Longrightarrow> \<exists>page. page_rows c page = Inl e"
proof (induction w rule: crawl_loop_walk_induct [where c = c and out = out and n = n])
  case (step w)
  show ?case
  proof (cases c "w_page w" rule: page_rows_cases)
    case 1
    with step(3) show ?thesis by (auto simp: crawl_loop_error)
  next
    case 2
    with step show ?thesis by (auto simp: crawl_loop_empty [OF 2] split: if_splits)
  next
    case (3 pp)
    with step show ?thesis
      by (cases "page_scan out n w pp") (auto simp: crawl_loop_rows [OF 3])
  qed
qed

lemma Crawl_Inr:
  assumes "fst (Crawl c req lookback) = Inr r"
  obtains page off where "ParseCursor (source c) (crCursor req) = Inr (page, off)" "in_int64 page"
    "fst (crawl_loop c (crawl_out c lookback) (clampPageSize (crPageSize req)) (first_walk page off)) = Inr r"
proof (cases "ParseCursor (source c) (crCursor req)")
  case (Inl e)
  with assms show ?thesis by (simp add: Crawl_def)
next
  case (Inr po)
  obtain page off where po: "po = (page, off)" by (cases po)
  have "in_int64 page"
    using Inr by (auto simp: ParseCursor_def po in_int64_def split: if_splits option.splits
      dest: atoi_in_int64 [unfolded in_int64_def])
  with that Inr assms show ?thesis by (simp add: po Crawl_cursor)
qed

text \<open>The two facts the clients of a crawl use.\<close>

lemma drained_start:
  assumes "archive c pg final" and "crCursor req = []"
  shows "drained c lookback req posts \<longleftrightarrow>
    posts = takeWhile (\<lambda>p. \<not> crawl_out c lookback p) (concat (map pg [1..final]))"
proof -
  have "drained c lookback req (takeWhile (\<lambda>p. \<not> crawl_out c lookback p) (rows_after pg final 0 0))"
    using assms archiveD(2) [OF assms(1)]
    by (intro drained_archive) (auto simp: resume_point_def ParseCursor_def)
  then show ?thesis using drained_unique by (auto simp: rows_after_def)
qed

lemma Crawl_floor_pages:
  assumes "ParseCursor (source c) (crCursor req) = Inr po"
  shows "case fst (Crawl c req lookback) of
      Inr r \<Rightarrow>
        (\<forall>j \<in> {0..<PagesFetched r}. \<exists>pp. page_rows c (s64 (LastPage r - j)) = Inr pp) \<and>
        (\<not> HasMore r \<and> StopReason r \<noteq> ''lookback_boundary'' \<longrightarrow>
          (\<forall>j \<in> {0..<threshold c}. page_rows c (s64 (LastPage r - j)) = Inr []))
    | Inl e \<Rightarrow> \<exists>page. page_rows c page = Inl e"
proof (cases "fst (Crawl c req lookback)")
  case (Inl e)
  with assms show ?thesis
    using Crawl_cursor crawl_loop_Inl by (cases po) fastforce
next
  case (Inr r)
  obtain page off where l: "in_int64 page"
    "fst (crawl_loop c (crawl_out c lookback) (clampPageSize (crPageSize req)) (first_walk page off)) = Inr r"
    using Crawl_Inr [OF Inr] by blast
  have "in_int64 (w_page (first_walk page off))"
    using l(1) s64_range by (simp add: first_walk_def)
  from crawl_loop_fetched [OF l(2) this] Inr show ?thesis by (simp add: first_walk_def)
qed

lemma Crawl_posts_bound:
  assumes "fst (Crawl c req lookback) = Inr r"
  shows "int (length (Posts r)) \<le> clampPageSize (crPageSize req) \<and> length (Posts r) \<le> 200 \<and>
    list_all (\<lambda>p. \<not> crawl_out c lookback p) (Posts r) \<and>
    (HasMore r \<longrightarrow> int (length (Posts r)) = clampPageSize (crPageSize req)) \<and>
    (NextCursor r = [] \<longleftrightarrow> \<not> HasMore r)"
proof -
  obtain page off where
    "fst (crawl_loop c (crawl_out c lookback) (clampPageSize (crPageSize req)) (first_walk page off)) = Inr r"
    using Crawl_Inr [OF assms] by blast
  from crawl_loop_posts [OF this] clampPageSize_range [of "crPageSize req"] show ?thesis
    by (auto simp: first_walk_def)
qed

section \<open>Properties\<close>

text \<open>A crawler over a small fixture, at which the properties are instantiated.\<close>

definition sample_post :: "string \<Rightarrow> time \<Rightarrow> RawPost" where
  "sample_post t p =
     \<lparr>rpTitle = t, rpMagnet = [], rpSource = ''dmhy'', rpSourceID = t, rpURL = [],
      rpPublishedAt = p, rpSizeBytes = 0\<rparr>"

definition sample_page :: "int \<Rightarrow> RawPost list" where
  "sample_page p =
     (if p = 1 then [sample_post ''a'' 90, sample_post ''b'' 80]
      else if p = 3 then [sample_post ''c'' 70] else [])"

definition sample_crawler :: Crawler where
  "sample_crawler =
     \<lparr>source = ''dmhy'', fetch = (\<lambda>p. Inr (itoa p)),
      parse = (\<lambda>b. case atoi b of None \<Rightarrow> Inl ''bad page'' | Some p \<Rightarrow> Inr (sample_page p)),
      threshold = 2, floorReason = ''archive_floor'', parseErrorContext = None, now = 100,
      metrics = True\<rparr>"

definition sample_request :: CrawlRequest where
  "sample_request = \<lparr>crPageSize = 2, crCursor = [], crLookback = []\<rparr>"

lemma sample_page_rows: "in_int64 p \<Longrightarrow> page_rows sample_crawler p = Inr (sample_page p)"
  by (simp add: page_rows_def sample_crawler_def parsePage_def atoi_itoa)

lemma sample_archive: "archive sample_crawler sample_page 3"
proof -
  have "threshold sample_crawler = 2" by (simp add: sample_crawler_def)
  moreover have "\<exists>q \<in> {p..3}. q < p + 2 \<and> sample_page q \<noteq> []" if "p \<in> {1..3}" for p :: int
  proof -
    from that consider "p = 1" | "p \<in> {2..3}" by fastforce
    then show ?thesis
      by cases (auto simp: sample_page_def intro: bexI [of _ 1] bexI [of _ 3])
  qed
  ultimately show ?thesis
    by (auto simp: archive_def sample_page_rows in_int64_def) (simp_all add: sample_page_def)
qed

text \<open>
  C4. Completeness and exactness of the paged crawl: over a stable archive, threading
  \<open>next_cursor\<close> from the empty cursor until \<open>has_more\<close> is false returns the in-window prefix
  of all rows, each row once and in order, whatever the page size; no other result is possible.
\<close>

theorem crawl_drains_archive:
  assumes "archive c pg final" and "crCursor req = []"
  shows "drained c lookback req posts \<longleftrightarrow>
    posts = takeWhile (\<lambda>p. \<not> crawl_out c lookback p) (concat (map pg [1..final]))"
  using assms by (rule drained_start)

theorem crawl_drains_archive_witness:
  "drained sample_crawler 25 sample_request [sample_post ''a'' 90, sample_post ''b'' 80]"
proof -
  have "takeWhile (\<lambda>p. \<not> crawl_out sample_crawler 25 p) (concat (map sample_page [1..3]))
      = [sample_post ''a'' 90, sample_post ''b'' 80]"
    by code_simp
  then show ?thesis
    using crawl_drains_archive [OF sample_archive, of sample_request 25] by (simp add: sample_request_def)
qed

text \<open>
  C5. Termination with a bound and the contract of one response. A crawl call returns after at most
  \<open>(page_size + 2) * max 1 threshold\<close> page fetches, for every fetcher, and with the clamped
  page size never more than 202 times the threshold. It returns at most \<open>page_size\<close> posts (and at
  most 200), all inside the lookback window; \<open>has_more\<close> only when the budget is filled, and a
  cursor exactly then.
\<close>

theorem crawl_pages_bounded:
  assumes "fst (Crawl c req lookback) = Inr r"
  shows "PagesFetched r \<le> (clampPageSize (crPageSize req) + 2) * max 1 (threshold c) \<and>
    PagesFetched r \<le> 202 * max 1 (threshold c) \<and>
    int (length (Posts r)) \<le> clampPageSize (crPageSize req) \<and> length (Posts r) \<le> 200 \<and>
    list_all (\<lambda>p. \<not> crawl_out c lookback p) (Posts r) \<and>
    (HasMore r \<longrightarrow> int (length (Posts r)) = clampPageSize (crPageSize req)) \<and>
    (NextCursor r = [] \<longleftrightarrow> \<not> HasMore r)"
proof -
  let ?n = "clampPageSize (crPageSize req)" and ?T = "max 1 (threshold c)"
  obtain page off where l:
    "fst (crawl_loop c (crawl_out c lookback) ?n (first_walk page off)) = Inr r"
    using Crawl_Inr [OF assms] by blast
  have n: "1 \<le> ?n" "?n \<le> 200" using clampPageSize_range by auto
  have "PagesFetched r \<le> walk_potential c ?n (first_walk page off)"
    using crawl_loop_pages [OF l] n by (simp add: first_walk_def less_max_iff_disj)
  also have "\<dots> \<le> (?n + 2) * ?T"
    unfolding walk_potential_def by (auto simp: first_walk_def intro!: mult_right_mono)
  finally have "PagesFetched r \<le> (?n + 2) * ?T" .
  moreover have "(?n + 2) * ?T \<le> 202 * ?T" using n by (intro mult_right_mono) auto
  ultimately show ?thesis using Crawl_posts_bound [OF assms] by simp
qed

theorem crawl_pages_bounded_witness:
  "\<exists>r. fst (Crawl sample_crawler sample_request 0) = Inr r \<and> PagesFetched r \<le> 8"
proof -
  have "\<exists>r. fst (Crawl sample_crawler sample_request 0) = Inr r"
    using Crawl_archive [OF sample_archive, of 0 0 sample_request 0]
    by (auto simp: resume_point_def ParseCursor_def sample_request_def)
  then obtain r where r: "fst (Crawl sample_crawler sample_request 0) = Inr r" ..
  with crawl_pages_bounded [OF r] show ?thesis
    by (auto simp: sample_request_def sample_crawler_def clampPageSize_def)
qed

text \<open>
  The resume cursor round-trips: every \<open>(page, offset)\<close> that fits an \<open>int\<close> is decoded from
  its encoding, and decoding never yields a negative page or offset.
\<close>

lemma crawl_cursor_roundtrip:
  "(0 \<le> page \<and> in_int64 page \<and> 0 \<le> offset \<and> in_int64 offset \<longrightarrow>
     ParseCursor src (FormatCursor page offset) = Inr (page, offset)) \<and>
   (ParseCursor src cursor = Inr (p, q) \<longrightarrow> 0 \<le> p \<and> 0 \<le> q)"
  using ParseCursor_FormatCursor [of page offset src]
  by (auto simp: ParseCursor_def split: if_splits option.splits)

end
