(* ===== verification/Crawl_Server.thy ===== *)
theory Crawl_Server
  imports Metrics Lookback Cache Crawl Wire
begin

text \<open>
  The HTTP shell of the crawlers: \<open>pkg/crawl/server.go\<close>, with the page fetcher \<open>FetchPage\<close> and
  the handler \<open>ServeHTTP\<close>.

  \<^item> \<open>fetch_env\<close> is what the world answers in one fetch: the rate limiter, the file system, the
    HTTP client.
  \<^item> \<open>crawl_env\<close> is the zone the times of posts are printed in, the connection the response is
    written to, and the measured duration of the call.
\<close>

section \<open>Definitions\<close>

subsection \<open>Fetching a page\<close>

datatype fetch_failure =
    LimiterError string
  | BuildURLError string
  | ReadFileError string
  | RequestError string
  | ClientError string
  | StatusError int string
  | BodyError string

text \<open>The text of the error.\<close>

fun failure_text :: "fetch_failure \<Rightarrow> string" where
  "failure_text (LimiterError s) = s"
| "failure_text (BuildURLError s) = s"
| "failure_text (ReadFileError s) = s"
| "failure_text (RequestError s) = s"
| "failure_text (ClientError s) = s"
| "failure_text (StatusError _ s) = s"
| "failure_text (BodyError s) = s"

record fetch_env =
  feWait :: "string option"
  feReadFile :: "string \<Rightarrow> string + string"
  feNewRequest :: "string \<Rightarrow> string option"
  feDo :: "string \<Rightarrow> string + (int \<times> (string + string))"
  feDuration :: duration

record HTTPFetcher =
  hfSource :: string
  hfBuildURL :: "int \<Rightarrow> string + string"
  hfLimited :: bool
  hfMetrics :: "CrawlerMetrics option"

definition cut_prefix :: "string \<Rightarrow> string \<Rightarrow> string option" where
  "cut_prefix pre s = (if prefix pre s then Some (drop (length pre) s) else None)"

definition ReadFileURL :: "fetch_env \<Rightarrow> string \<Rightarrow> string \<Rightarrow> fetch_failure + string" where
  "ReadFileURL e src path0 =
     (let path = (case index_byte path0 (CHR ''?'') of None \<Rightarrow> path0 | Some i \<Rightarrow> take i path0)
      in map_sum (\<lambda>err. ReadFileError (src @ '': read file '' @ path @ '': '' @ err)) id (feReadFile e path))"

text \<open>The part of \<open>FetchPage\<close> after the limiter, whose outcome the deferred call records.\<close>

definition fetch_target :: "fetch_env \<Rightarrow> HTTPFetcher \<Rightarrow> int \<Rightarrow> fetch_failure + string" where
  "fetch_target e f page =
     (case hfBuildURL f page of
        Inl err \<Rightarrow> Inl (BuildURLError err)
      | Inr target \<Rightarrow>
          (case cut_prefix ''file://'' target of
             Some path \<Rightarrow> ReadFileURL e (hfSource f) path
           | None \<Rightarrow>
               (case feNewRequest e target of
                  Some err \<Rightarrow> Inl (RequestError (hfSource f @ '': build request '' @ target @ '': '' @ err))
                | None \<Rightarrow>
                    (case feDo e target of
                       Inl err \<Rightarrow> Inl (ClientError (hfSource f @ '': fetch '' @ target @ '': '' @ err))
                     | Inr (status, body) \<Rightarrow>
                         if status \<noteq> 200
                         then Inl (StatusError status (hfSource f @ '': fetch '' @ target @ '': status '' @ itoa status))
                         else map_sum (\<lambda>err. BodyError (hfSource f @ '': read body '' @ target @ '': '' @ err)) id body))))"

definition recordFetch :: "CrawlerMetrics option \<Rightarrow> string \<Rightarrow> duration \<Rightarrow> sample list" where
  "recordFetch m result dur = m_Fetch m result dur"

definition FetchPage ::
  "fetch_env \<Rightarrow> HTTPFetcher \<Rightarrow> int \<Rightarrow> (fetch_failure + string) \<times> sample list" where
  "FetchPage e f page =
     (case (if hfLimited f then feWait e else None) of
        Some err \<Rightarrow> (Inl (LimiterError (hfSource f @ '': rate limiter: '' @ err)), [])
      | None \<Rightarrow>
          (let res = fetch_target e f page
           in (res, recordFetch (hfMetrics f)
                 (case res of Inl _ \<Rightarrow> ''error'' | Inr _ \<Rightarrow> ''ok'') (feDuration e))))"

subsection \<open>Serving a crawl\<close>

record crawl_server =
  svSource :: string
  svCrawler :: Crawler
  svMetrics :: "CrawlerMetrics option"

record crawl_env =
  ceZone :: "time \<Rightarrow> int"
  ceWrite :: "string \<Rightarrow> string option"
  ceDuration :: duration

text \<open>The request: \<open>Decoder.Decode\<close> into a \<open>CrawlRequest\<close>, which ignores unknown members.\<close>

definition crawl_member :: "CrawlRequest \<Rightarrow> string \<times> json \<Rightarrow> CrawlRequest option" where
  "crawl_member r m =
     (let (key, v) = m in
      if key_is ''page_size'' key then map_option (\<lambda>i. r\<lparr>crPageSize := i\<rparr>) (json_int (crPageSize r) v)
      else if key_is ''cursor'' key then map_option (\<lambda>s. r\<lparr>crCursor := s\<rparr>) (json_string (crCursor r) v)
      else if key_is ''lookback'' key then map_option (\<lambda>s. r\<lparr>crLookback := s\<rparr>) (json_string (crLookback r) v)
      else Some r)"

definition decode_crawl :: "string \<Rightarrow> CrawlRequest option" where
  "decode_crawl body =
     Option.bind (json_decode body) (json_struct crawl_member \<lparr>crPageSize = 0, crCursor = [], crLookback = []\<rparr>)"

text \<open>The response: \<open>Encoder.Encode\<close> prints it and then writes it in one go.\<close>

definition crawl_json :: "(time \<Rightarrow> int) \<Rightarrow> CrawlResponse \<Rightarrow> json option" where
  "crawl_json loc r =
     map_option (\<lambda>ps. JObj
       [(''posts'', ps), (''next_cursor'', json_str (NextCursor r)), (''has_more'', JBool (HasMore r))])
       (posts_json loc (Posts r))"

definition crawl_bytes :: "(time \<Rightarrow> int) \<Rightarrow> CrawlResponse \<Rightarrow> string option" where
  "crawl_bytes loc r = map_option (\<lambda>j. json_print j @ [CHR 0x0A]) (crawl_json loc r)"

datatype encode_error = TimeNotPrintable | WriteError string

definition encode_crawl :: "crawl_env \<Rightarrow> CrawlResponse \<Rightarrow> encode_error option" where
  "encode_crawl e r =
     (case crawl_bytes (ceZone e) r of None \<Rightarrow> Some TimeNotPrintable | Some bytes \<Rightarrow> map_option WriteError (ceWrite e bytes))"

datatype crawl_reply =
    MethodNotAllowed
  | DecodeFailed
  | BadLookback lookback_error
  | BadCursor crawl_error
  | CrawlFailed crawl_error
  | EncodeFailed encode_error
  | Crawled CrawlResponse

text \<open>
  The status of the response. Writing the encoded response sends the status 200 first, so the error
  that is reported after a failed write no longer sets one.
\<close>

fun reply_status :: "crawl_reply \<Rightarrow> int" where
  "reply_status MethodNotAllowed = 405"
| "reply_status DecodeFailed = 400"
| "reply_status (BadLookback _) = 400"
| "reply_status (BadCursor _) = 400"
| "reply_status (CrawlFailed _) = 502"
| "reply_status (EncodeFailed TimeNotPrintable) = 500"
| "reply_status (EncodeFailed (WriteError _)) = 200"
| "reply_status (Crawled _) = 200"

definition recordCrawl :: "CrawlerMetrics option \<Rightarrow> string \<Rightarrow> nat \<Rightarrow> duration \<Rightarrow> sample list" where
  "recordCrawl m result posts dur = m_Crawl m result posts dur"

fun parse_samples :: "CrawlerMetrics option \<Rightarrow> crawl_metric \<Rightarrow> sample list" where
  "parse_samples m (ParsePosts result posts) = m_ParsePosts m result posts"

definition crawl_serve ::
  "crawl_env \<Rightarrow> crawl_server \<Rightarrow> string \<Rightarrow> string option \<Rightarrow> crawl_reply \<times> sample list" where
  "crawl_serve e sv meth body =
     (let rec = (\<lambda>result posts. recordCrawl (svMetrics sv) result posts (ceDuration e))
      in if meth \<noteq> ''POST'' then (MethodNotAllowed, rec ''bad_request'' 0)
         else case Option.bind body decode_crawl of
           None \<Rightarrow> (DecodeFailed, rec ''bad_request'' 0)
         | Some req \<Rightarrow>
         (case ParseLookback (svSource sv) (crLookback req) of
           Inl err \<Rightarrow> (BadLookback err, rec ''bad_request'' 0)
         | Inr lookback \<Rightarrow>
         (case ParseCursor (svSource sv) (crCursor req) of
           Inl err \<Rightarrow> (BadCursor err, rec ''bad_request'' 0)
         | Inr _ \<Rightarrow>
         (case Crawl (svCrawler sv) req lookback of
           (Inl err, events) \<Rightarrow>
             (CrawlFailed err,
              concat (map (parse_samples (svMetrics sv)) events) @
              rec (case err of ErrCrawlParse _ _ _ \<Rightarrow> ''parse_error'' | _ \<Rightarrow> ''fetch_error'') 0)
         | (Inr resp, events) \<Rightarrow>
             (case encode_crawl e resp of
                Some err \<Rightarrow>
                  (EncodeFailed err, concat (map (parse_samples (svMetrics sv)) events) @
                     rec ''error'' (length (Posts resp)))
              | None \<Rightarrow>
                  (Crawled resp, concat (map (parse_samples (svMetrics sv)) events) @
                     rec ''ok'' (length (Posts resp))))))))"

section \<open>Lemmas\<close>

lemma FetchPage_sound:
  assumes "FetchPage e f page = (Inr body, ms)"
  shows "\<exists>target. hfBuildURL f page = Inr target \<and>
    (feDo e target = Inr (200, Inr body) \<or> (\<exists>path. feReadFile e path = Inr body \<and> prefix ''file://'' target))"
  using assms
  by (auto simp: FetchPage_def fetch_target_def ReadFileURL_def cut_prefix_def Let_def
      split: option.splits sum.splits if_splits) (auto simp: map_sum_def split: sum.splits)

text \<open>Whatever goes wrong in a fetch, the walk sees an error.\<close>

lemma Crawl_error_kind:
  assumes "fst (Crawl c req lookback) = Inl e" and "ParseCursor (source c) (crCursor req) = Inr po"
  shows "(\<exists>msg. e = ErrCrawlFetch (source c) msg) \<or> (\<exists>ctxt msg. e = ErrCrawlParse (source c) ctxt msg)"
proof -
  obtain page off where po: "po = (page, off)" by (cases po)
  with assms have "fst (crawl_loop c (crawl_out c lookback) (clampPageSize (crPageSize req)) (first_walk page off)) = Inl e"
    by (simp add: Crawl_cursor)
  from crawl_loop_Inl [OF this] obtain p where p: "page_rows c p = Inl e" by blast
  show ?thesis
  proof (cases "fetch c p")
    case (Inl msg)
    with p show ?thesis by (auto simp: page_rows_def)
  next
    case (Inr b)
    with p show ?thesis
      by (cases "parse c b") (auto simp: page_rows_def parsePage_def Let_def split: if_splits)
  qed
qed

lemma counted_parse [simp]:
  "counted CrawlRequests P (concat (map (parse_samples m) events)) = 0"
proof (induction events)
  case (Cons ev events)
  then show ?case by (cases ev) (simp add: m_ParsePosts_def)
qed simp

lemma accepted_parse:
  "list_all (accepted (crawler_metrics ns)) (concat (map (parse_samples m) events))"
proof (induction events)
  case (Cons ev events)
  then show ?case by (cases ev) (simp add: crawler_samples_accepted)
qed simp

lemma counted_crawl:
  "counted CrawlRequests P (recordCrawl (Some m) res n dur) = (if P [res] then 1 else 0)"
  by (simp add: recordCrawl_def m_Crawl_def)

text \<open>The parameters of a request that pass validation.\<close>

definition valid_crawl :: "crawl_server \<Rightarrow> string option \<Rightarrow> (CrawlRequest \<times> duration) option" where
  "valid_crawl sv body =
     (case Option.bind body decode_crawl of
        None \<Rightarrow> None
      | Some req \<Rightarrow>
          (case (ParseLookback (svSource sv) (crLookback req), ParseCursor (svSource sv) (crCursor req)) of
             (Inr lookback, Inr _) \<Rightarrow> Some (req, lookback)
           | _ \<Rightarrow> None))"

text \<open>The result a request is counted under.\<close>

fun result_label :: "crawl_reply \<Rightarrow> string" where
  "result_label MethodNotAllowed = ''bad_request''"
| "result_label DecodeFailed = ''bad_request''"
| "result_label (BadLookback _) = ''bad_request''"
| "result_label (BadCursor _) = ''bad_request''"
| "result_label (CrawlFailed err) = (case err of ErrCrawlParse _ _ _ \<Rightarrow> ''parse_error'' | _ \<Rightarrow> ''fetch_error'')"
| "result_label (EncodeFailed _) = ''error''"
| "result_label (Crawled _) = ''ok''"

lemma crawl_serve_cases:
  assumes "crawl_serve e sv meth body = (rep, ms)"
  obtains "meth \<noteq> ''POST''" "rep = MethodNotAllowed" "ms = recordCrawl (svMetrics sv) (result_label rep) 0 (ceDuration e)"
  | "meth = ''POST''" "valid_crawl sv body = None" "reply_status rep = 400"
    "ms = recordCrawl (svMetrics sv) (result_label rep) 0 (ceDuration e)"
  | req lookback events n where "meth = ''POST''" "valid_crawl sv body = Some (req, lookback)"
    "ms = concat (map (parse_samples (svMetrics sv)) events) @ recordCrawl (svMetrics sv) (result_label rep) n (ceDuration e)"
    "(\<exists>err. rep = CrawlFailed err \<and> fst (Crawl (svCrawler sv) req lookback) = Inl err) \<or>
     (\<exists>resp. fst (Crawl (svCrawler sv) req lookback) = Inr resp \<and>
       (rep = Crawled resp \<and> encode_crawl e resp = None \<or> (\<exists>m. rep = EncodeFailed m \<and> encode_crawl e resp = Some m)))"
  using assms
  by (fastforce simp: crawl_serve_def valid_crawl_def Let_def split: if_splits option.splits sum.splits prod.splits)

text \<open>A request and a response survive the wire.\<close>

lemma crawl_keys:
  "utf8_valid ''page_size''" "utf8_valid ''cursor''" "utf8_valid ''lookback''" "utf8_valid ''posts''"
  "utf8_valid ''next_cursor''" "utf8_valid ''has_more''"
  by (rule utf8_valid_ascii, simp add: byte_of_def)+

lemma crawl_fold [json_keys]: "json_fold ''page_size'' = ''PAGE_SIZE''" "json_fold ''cursor'' = ''CURSOR''"
    "json_fold ''lookback'' = ''LOOKBACK''"
  by code_simp+

definition crawl_request_json :: "CrawlRequest \<Rightarrow> json" where
  "crawl_request_json req =
     JObj [(''page_size'', json_integer (crPageSize req)), (''cursor'', json_str (crCursor req)),
       (''lookback'', json_str (crLookback req))]"

lemma decode_crawl_request:
  assumes "in_int64 (crPageSize req)" "utf8_valid (crCursor req)" "utf8_valid (crLookback req)"
  shows "decode_crawl (json_print (crawl_request_json req)) = Some req"
proof -
  have "json_decode (json_print (crawl_request_json req) @ []) = Some (crawl_request_json req)"
    using assms crawl_keys by (intro json_decode_print) (simp_all add: crawl_request_json_def)
  then show ?thesis
    using assms(1) by (simp add: decode_crawl_def crawl_request_json_def json_struct_def crawl_member_def key_is_def
        json_keys json_int_def json_string_def atoi_itoa del: json_fold.simps json_print.simps)
qed

lemma crawl_response_read:
  assumes "list_all (wire_post loc) (Posts r)" "utf8_valid (NextCursor r)"
  obtains bytes ps where "crawl_bytes loc r = Some bytes" "posts_json loc (Posts r) = Some ps"
    "json_decode bytes = Some (JObj [(''posts'', ps), (''next_cursor'', json_str (NextCursor r)), (''has_more'', JBool (HasMore r))])"
proof -
  obtain ps where ps: "posts_json loc (Posts r) = Some ps" "json_ok ps" "json_depth ps \<le> 2"
  proof (cases "Posts r = []")
    case True
    then show ?thesis by (intro that [of JNull]) (simp_all add: posts_json_def)
  next
    case False
    with posts_array_ok [OF assms(1)] posts_json_array [OF assms(1)] show ?thesis by (intro that) simp_all
  qed
  let ?j = "JObj [(''posts'', ps), (''next_cursor'', json_str (NextCursor r)), (''has_more'', JBool (HasMore r))]"
  have "json_decode (json_print ?j @ [CHR 0x0A]) = Some ?j"
    using ps assms(2) crawl_keys by (intro json_decode_print) simp_all
  with ps(1) show thesis
    by (intro that [of "json_print ?j @ [CHR 0x0A]" ps])
       (simp_all add: crawl_bytes_def crawl_json_def del: json_print.simps)
qed

lemma encode_crawl_ok:
  assumes "list_all (wire_post (ceZone e)) (Posts r)" "utf8_valid (NextCursor r)" "\<forall>bytes. ceWrite e bytes = None"
  shows "encode_crawl e r = None"
  by (rule crawl_response_read [OF assms(1,2)]) (simp add: encode_crawl_def assms(3))

lemma crawl_serve_ok:
  assumes "valid_crawl sv body = Some (req, lookback)" "fst (Crawl (svCrawler sv) req lookback) = Inr r"
    and "encode_crawl e r = None"
  shows "fst (crawl_serve e sv ''POST'' body) = Crawled r"
  using assms by (auto simp: crawl_serve_def valid_crawl_def Let_def split: option.splits sum.splits prod.splits)

section \<open>Properties\<close>

text \<open>
  C39: the contract of \<open>POST /crawl\<close>. A wrong method is 405; a body that is not JSON of the right
  types, or a lookback or cursor that does not parse, is 400 and nothing is fetched; otherwise the
  answer is what the walk returned: 502 exactly when a page could not be fetched or parsed, 500
  exactly when a time of its response cannot be printed, and 200 exactly when the response was
  printed; it is then sent, unless writing it fails, which the status no longer shows. Every request
  is counted once, under its own result, also a failed write; and every sample has a kind, a number
  of labels and a sign that the crawler's metrics declare.
\<close>

theorem crawl_server_contract:
  assumes "crawl_serve e sv meth body = (rep, ms)" and "svSource sv = source (svCrawler sv)"
  shows "(reply_status rep = 405 \<longleftrightarrow> meth \<noteq> ''POST'') \<and>
    (reply_status rep = 400 \<longleftrightarrow> meth = ''POST'' \<and> valid_crawl sv body = None) \<and>
    (reply_status rep = 502 \<longleftrightarrow> meth = ''POST'' \<and> (\<exists>req lookback err.
       valid_crawl sv body = Some (req, lookback) \<and> fst (Crawl (svCrawler sv) req lookback) = Inl err \<and>
       rep = CrawlFailed err \<and>
       ((\<exists>msg. err = ErrCrawlFetch (svSource sv) msg) \<or> (\<exists>ctxt msg. err = ErrCrawlParse (svSource sv) ctxt msg)))) \<and>
    (reply_status rep = 500 \<longleftrightarrow> meth = ''POST'' \<and> (\<exists>req lookback resp.
       valid_crawl sv body = Some (req, lookback) \<and> fst (Crawl (svCrawler sv) req lookback) = Inr resp \<and>
       crawl_bytes (ceZone e) resp = None)) \<and>
    (reply_status rep = 200 \<longleftrightarrow> meth = ''POST'' \<and> (\<exists>req lookback resp bytes.
       valid_crawl sv body = Some (req, lookback) \<and> fst (Crawl (svCrawler sv) req lookback) = Inr resp \<and>
       crawl_bytes (ceZone e) resp = Some bytes \<and>
       rep = (case ceWrite e bytes of None \<Rightarrow> Crawled resp | Some err \<Rightarrow> EncodeFailed (WriteError err)))) \<and>
    (svMetrics sv \<noteq> None \<longrightarrow> counted CrawlRequests (\<lambda>_. True) ms = 1 \<and>
       counted CrawlRequests (\<lambda>ls. ls = [result_label rep]) ms = 1) \<and>
    list_all (accepted (crawler_metrics ns)) ms"
  using assms(1)
proof (cases rule: crawl_serve_cases)
  case 1
  then show ?thesis by (auto simp: counted_crawl recordCrawl_def crawler_samples_accepted) (auto simp: m_Crawl_def)
next
  case 2
  then have "rep = DecodeFailed \<or> (\<exists>err. rep = BadLookback err) \<or> (\<exists>err. rep = BadCursor err)"
    by (cases rep rule: reply_status.cases) simp_all
  with 2 show ?thesis
    by (auto simp: counted_crawl recordCrawl_def crawler_samples_accepted) (auto simp: m_Crawl_def)
next
  case (3 req lookback events n)
  have "(\<exists>msg. err = ErrCrawlFetch (svSource sv) msg) \<or> (\<exists>ctxt msg. err = ErrCrawlParse (svSource sv) ctxt msg)"
    if "fst (Crawl (svCrawler sv) req lookback) = Inl err" for err
  proof (rule Crawl_error_kind [OF that, folded assms(2)])
    show "ParseCursor (svSource sv) (crCursor req) = Inr (projr (ParseCursor (svSource sv) (crCursor req)))"
      using 3(2) by (auto simp: valid_crawl_def split: option.splits sum.splits)
  qed
  moreover have "svMetrics sv \<noteq> None \<longrightarrow> counted CrawlRequests (\<lambda>_. True) ms = 1 \<and>
       counted CrawlRequests (\<lambda>ls. ls = [result_label rep]) ms = 1"
    using 3(3) counted_crawl by auto
  moreover have "list_all (accepted (crawler_metrics ns)) ms"
    using 3(3) accepted_parse by (simp add: recordCrawl_def crawler_samples_accepted)
  ultimately show ?thesis using 3(1,2,4) by (auto simp: encode_crawl_def split: option.split_asm)
qed

definition sample_server :: crawl_server where
  "sample_server = \<lparr>svSource = ''dmhy'', svCrawler = sample_crawler, svMetrics = Some NewCrawlerMetrics\<rparr>"

definition sample_crawl_env :: crawl_env where
  "sample_crawl_env =
     \<lparr>ceZone = (\<lambda>_. 0), ceWrite = (\<lambda>_. None), ceDuration = 0\<rparr>"

definition sample_crawl_body :: string where
  "sample_crawl_body = json_print (crawl_request_json sample_request)"

lemma sample_crawl_body: "decode_crawl sample_crawl_body = Some sample_request"
  unfolding sample_crawl_body_def
  by (rule decode_crawl_request) (simp_all add: sample_request_def in_int64_def utf8_valid_ascii)

lemma sample_valid_crawl:
  "svSource sv = ''dmhy'' \<Longrightarrow> valid_crawl sv (Some sample_crawl_body) = Some (sample_request, 0)"
proof -
  have "ParseLookback ''dmhy'' [] = Inr 0" "ParseCursor ''dmhy'' [] = Inr (0, 0)" by code_simp+
  then show "svSource sv = ''dmhy'' \<Longrightarrow> ?thesis"
    by (simp add: valid_crawl_def sample_crawl_body) (simp add: sample_request_def)
qed

theorem crawl_server_contract_witness:
  "\<exists>resp. fst (crawl_serve sample_crawl_env sample_server ''POST'' (Some sample_crawl_body)) = Crawled resp \<and>
    fst (Crawl sample_crawler sample_request 0) = Inr resp"
proof -
  let ?r = "projr (fst (Crawl sample_crawler sample_request 0))"
  have src: "svSource sample_server = ''dmhy''" "svSource sample_server = source (svCrawler sample_server)"
    by (simp_all add: sample_server_def sample_crawler_def)
  have "\<not> isl (fst (Crawl sample_crawler sample_request 0))" by code_simp
  then have r: "fst (Crawl sample_crawler sample_request 0) = Inr ?r" by simp
  have "list_all (wire_post (\<lambda>_. 0)) (Posts ?r)" "utf8_valid (NextCursor ?r)" by code_simp+
  then have "encode_crawl sample_crawl_env ?r = None" by (intro encode_crawl_ok) (simp_all add: sample_crawl_env_def)
  with sample_valid_crawl [OF src(1)] r
  have out: "fst (crawl_serve sample_crawl_env sample_server ''POST'' (Some sample_crawl_body)) = Crawled ?r"
    by (intro crawl_serve_ok) (simp_all add: sample_server_def)
  then have "reply_status (fst (crawl_serve sample_crawl_env sample_server ''POST'' (Some sample_crawl_body))) = 200" by simp
  from crawl_server_contract [OF prod.collapse [symmetric] src(2), THEN conjunct2, THEN conjunct2, THEN conjunct2, THEN conjunct2,
      THEN conjunct1, THEN iffD1, OF this]
  obtain req lookback resp where "valid_crawl sample_server (Some sample_crawl_body) = Some (req, lookback)"
    "fst (Crawl (svCrawler sample_server) req lookback) = Inr resp" by blast
  with sample_valid_crawl [OF src(1)] r have "resp = ?r" by (simp add: sample_server_def)
  with out r show ?thesis by blast
qed

end
