(* ===== verification/Html.thy ===== *)
theory Html
  imports Takuhai_Prelude
begin

text \<open>
  \<open>html.UnescapeString\<close>, as the Nyaa source uses it. The table of the named character references
  of HTML is an argument: \<open>ents\<close> maps a name, with its semicolon when it has one, to the one or
  two code points it stands for.
\<close>

section \<open>Definitions\<close>

definition s32 :: "int \<Rightarrow> int" where
  "s32 x = (x + 2 ^ 31) mod 2 ^ 32 - 2 ^ 31"

text \<open>\<open>utf8.EncodeRune\<close>.\<close>

definition chr :: "int \<Rightarrow> char" where
  "chr n = char_of (nat n)"

definition encode_rune :: "int \<Rightarrow> string" where
  "encode_rune x =
     (if 0 \<le> x \<and> x < 0x80 then [chr x]
      else if 0 \<le> x \<and> x < 0x800 then [chr (0xC0 + x div 0x40), chr (0x80 + x mod 0x40)]
      else if x < 0 \<or> 0x10FFFF < x \<or> 0xD800 \<le> x \<and> x \<le> 0xDFFF then [CHR 0xEF, CHR 0xBF, CHR 0xBD]
      else if x < 0x10000 then [chr (0xE0 + x div 0x1000), chr (0x80 + x div 0x40 mod 0x40), chr (0x80 + x mod 0x40)]
      else [chr (0xF0 + x div 0x40000), chr (0x80 + x div 0x1000 mod 0x40), chr (0x80 + x div 0x40 mod 0x40),
            chr (0x80 + x mod 0x40)])"

text \<open>What numbers of the C1 range mean: the characters of Windows-1252.\<close>

definition replacementTable :: "int list" where
  "replacementTable =
     [0x20AC, 0x81, 0x201A, 0x192, 0x201E, 0x2026, 0x2020, 0x2021, 0x2C6, 0x2030, 0x160, 0x2039, 0x152, 0x8D,
      0x17D, 0x8F, 0x90, 0x2018, 0x2019, 0x201C, 0x201D, 0x2022, 0x2013, 0x2014, 0x2DC, 0x2122, 0x161, 0x203A,
      0x153, 0x9D, 0x17E, 0x178]"

definition number_rune :: "int \<Rightarrow> int" where
  "number_rune x =
     (if 0x80 \<le> x \<and> x \<le> 0x9F then replacementTable ! nat (x - 0x80)
      else if x = 0 \<or> 0xD800 \<le> x \<and> x \<le> 0xDFFF \<or> 0x10FFFF < x then 0xFFFD else x)"

definition hex_value :: "char \<Rightarrow> int option" where
  "hex_value c =
     (let b = int (byte_of c)
      in if 48 \<le> b \<and> b \<le> 57 then Some (b - 48)
         else if 97 \<le> b \<and> b \<le> 102 then Some (b - 87)
         else if 65 \<le> b \<and> b \<le> 70 then Some (b - 55) else None)"

definition dec_value :: "char \<Rightarrow> int option" where
  "dec_value c = (if is_digit c then Some (int (digit_val c)) else None)"

text \<open>The digits of a numeric reference: their value in 32 bits, and how many they are.\<close>

fun number_run :: "bool \<Rightarrow> int \<Rightarrow> nat \<Rightarrow> string \<Rightarrow> int \<times> nat" where
  "number_run hex x n [] = (x, n)"
| "number_run hex x n (c # s) =
     (case (if hex then hex_value c else dec_value c) of
        Some d \<Rightarrow> number_run hex (s32 ((if hex then 16 else 10) * x + d)) (Suc n) s
      | None \<Rightarrow> (x, n))"

definition name_char :: "char \<Rightarrow> bool" where
  "name_char c \<longleftrightarrow> is_lower c \<or> is_upper c \<or> is_digit c"

definition semicolon_at :: "string \<Rightarrow> nat \<Rightarrow> nat" where
  "semicolon_at s i = (if i < length s \<and> s ! i = CHR '';'' then Suc i else i)"

text \<open>The longest prefix of a name, of two to six characters, that is itself a name.\<close>

definition single_entity :: "(string \<Rightarrow> int list option) \<Rightarrow> string \<Rightarrow> int option" where
  "single_entity ents name = (case ents name of Some [x] \<Rightarrow> Some x | _ \<Rightarrow> None)"

fun prefix_entity :: "(string \<Rightarrow> int list option) \<Rightarrow> string \<Rightarrow> nat \<Rightarrow> (int \<times> nat) option" where
  "prefix_entity ents name 0 = None"
| "prefix_entity ents name (Suc j) =
     (if Suc j \<le> 1 then None
      else case single_entity ents (take (Suc j) name) of
        Some x \<Rightarrow> Some (x, Suc j)
      | None \<Rightarrow> prefix_entity ents name j)"

text \<open>\<open>unescapeEntity\<close> at an ampersand: the text it stands for, and how much of the input it is.\<close>

definition unescapeEntity :: "(string \<Rightarrow> int list option) \<Rightarrow> string \<Rightarrow> string \<times> nat" where
  "unescapeEntity ents s =
     (if length s \<le> 1 then (take 1 s, 1)
      else if s ! 1 = CHR ''#''
      then (if length s \<le> 3 then (take 1 s, 1)
            else let hex = s ! 2 = CHR ''x'' \<or> s ! 2 = CHR ''X'';
                     start = (if hex then 3 else 2);
                     (x, n) = number_run hex 0 0 (drop start s);
                     i = semicolon_at s (start + n)
                 in if i \<le> 3 then (take 1 s, 1) else (encode_rune (number_rune x), i))
      else let i = semicolon_at s (1 + length (takeWhile name_char (drop 1 s)));
               name = take (i - 1) (drop 1 s)
           in case (if name = [] then None else ents name) of
                Some xs \<Rightarrow> (concat (map encode_rune xs), i)
              | None \<Rightarrow>
                  (case prefix_entity ents name (min (length name - 1) 6) of
                     Some (x, j) \<Rightarrow> (encode_rune x, j + 1)
                   | None \<Rightarrow> (take i s, i)))"

lemma prefix_entity_bound: "prefix_entity ents name k = Some (x, j) \<Longrightarrow> 1 < j \<and> j \<le> k"
  by (induction k) (auto split: if_splits option.splits)

lemma semicolon_at_ge: "i \<le> semicolon_at s i"
  by (simp add: semicolon_at_def)

lemma unescapeEntity_consumes: "0 < snd (unescapeEntity ents s)"
  using semicolon_at_ge [of 3 s]
  by (auto simp: unescapeEntity_def Let_def semicolon_at_def split: prod.split option.split)

lemma unescapeEntity_progress: "(out, n) = unescapeEntity ents s \<Longrightarrow> 0 < n"
  using unescapeEntity_consumes [of ents s] by (metis snd_conv)

function UnescapeString :: "(string \<Rightarrow> int list option) \<Rightarrow> string \<Rightarrow> string" where
  "UnescapeString ents [] = []"
| "UnescapeString ents (c # s) =
     (if c = CHR ''&''
      then (case unescapeEntity ents (c # s) of (out, n) \<Rightarrow> out @ UnescapeString ents (drop n (c # s)))
      else c # UnescapeString ents s)"
  by pat_completeness auto
termination
  by (relation "measure (\<lambda>(ents, s). length s)") (auto dest: unescapeEntity_progress)

text \<open>How a site escapes a text.\<close>

definition escape_char :: "char \<Rightarrow> string" where
  "escape_char c =
     (if c = CHR ''&'' then ''&amp;'' else if c = CHR ''<'' then ''&lt;'' else if c = CHR ''>'' then ''&gt;''
      else if c = CHR 0x22 then ''&#34;'' else if c = CHR 0x27 then ''&#39;'' else [c])"

definition EscapeString :: "string \<Rightarrow> string" where
  "EscapeString s = concat (map escape_char s)"

text \<open>The names the escaped texts use.\<close>

definition basic_entities :: "(string \<Rightarrow> int list option) \<Rightarrow> bool" where
  "basic_entities ents \<longleftrightarrow> ents ''amp;'' = Some [38] \<and> ents ''lt;'' = Some [60] \<and> ents ''gt;'' = Some [62]"

section \<open>Lemmas\<close>

lemma UnescapeString_plain: "CHR ''&'' \<notin> set s \<Longrightarrow> UnescapeString ents s = s"
  by (induction s) auto

lemma unescape_amp:
  assumes "basic_entities ents"
  shows "unescapeEntity ents (''&amp;'' @ s) = (''&'', 5)" "unescapeEntity ents (''&lt;'' @ s) = (''<'', 4)"
    "unescapeEntity ents (''&gt;'' @ s) = (''>'', 4)" "unescapeEntity ents (''&#34;'' @ s) = ([CHR 0x22], 5)"
    "unescapeEntity ents (''&#39;'' @ s) = ([CHR 0x27], 5)"
proof -
  have "char_of (38 :: nat) = CHR ''&''" "char_of (60 :: nat) = CHR ''<''" "char_of (62 :: nat) = CHR ''>''"
    "char_of (34 :: nat) = CHR 0x22" "char_of (39 :: nat) = CHR 0x27" by code_simp+
  then show "unescapeEntity ents (''&amp;'' @ s) = (''&'', 5)" "unescapeEntity ents (''&lt;'' @ s) = (''<'', 4)"
    "unescapeEntity ents (''&gt;'' @ s) = (''>'', 4)" "unescapeEntity ents (''&#34;'' @ s) = ([CHR 0x22], 5)"
    "unescapeEntity ents (''&#39;'' @ s) = ([CHR 0x27], 5)"
    using assms
  by (simp_all add: unescapeEntity_def basic_entities_def Let_def semicolon_at_def name_char_def is_lower_def is_upper_def
      is_digit_def byte_of_def encode_rune_def chr_def number_rune_def dec_value_def digit_val_def s32_def)
qed

lemma Unescape_escape_char:
  assumes "basic_entities ents"
  shows "UnescapeString ents (escape_char c @ s) = c # UnescapeString ents s"
  using unescape_amp [OF assms, of s] by (auto simp: escape_char_def)

lemma Unescape_Escape:
  assumes "basic_entities ents"
  shows "UnescapeString ents (EscapeString s) = s"
  by (induction s) (simp_all add: EscapeString_def Unescape_escape_char [OF assms])

end
