(* ===== verification/Nyaa.thy ===== *)
theory Nyaa
  imports Regexp Floating Html Gotime Rawpost
begin

text \<open>
  The HTML parser of the Nyaa source, \<open>sources/nyaa/parse.go\<close>: its patterns, one definition each,
  the readers of the cells of a row and \<open>ParseListingPage\<close>. \<open>ents\<close> is the table of named character
  references of \<open>html\<close>, \<open>plat\<close> is what the platform makes of a size that does not fit 64 bits.
  Names that the DMHY parser has too carry the prefix \<open>nyaa_\<close>.
\<close>

section \<open>Definitions\<close>

subsection \<open>Patterns\<close>

text \<open>
  A literal without regard to case. Among the letters of the patterns only \<open>s\<close> has a fold outside
  ASCII, U+017F.
\<close>

definition fold_char :: "char \<Rightarrow> re" where
  "fold_char c =
     (if char_lower c = CHR ''s'' then Alt (Cls (\<lambda>d. char_lower d = CHR ''s'')) (Lit [CHR 0xC5, CHR 0xBF])
      else Cls (\<lambda>d. char_lower d = char_lower c))"

definition fold_lit :: "string \<Rightarrow> re" where
  "fold_lit s = foldr (\<lambda>c. Seq (fold_char c)) s Eps"

definition not_lt :: "char \<Rightarrow> bool" where "not_lt c \<longleftrightarrow> c \<noteq> CHR ''<''"

definition attr_char :: "char \<Rightarrow> bool" where
  "attr_char c \<longleftrightarrow> is_lower c \<or> is_upper c \<or> is_digit c \<or> c = CHR ''_'' \<or> c = CHR ''-''"

definition nyaa_listTableRe :: re where
  "nyaa_listTableRe =
     Seq (Lit (''class='' @ [dq])) (Seq (Many not_dq) (Seq WordB (Seq (Lit ''torrent-list'')
       (Seq WordB (Seq (Many not_dq) (Lit [dq]))))))"

definition listRowRe :: re where
  "listRowRe =
     Seq (Lit (''<tr class='' @ [dq]))
       (Seq (Alt (Lit ''default'') (Alt (Lit ''success'') (Lit ''danger''))) (Lit (dq # ''>'')))"

definition noResultsRe :: re where
  "noResultsRe =
     Seq (fold_lit ''<h3'') (Seq WordB (Seq (Many not_gt) (Seq (Lit ''>'') (Seq (Many re_space)
       (Seq (fold_lit ''No results found'') (Seq (Many re_space) (fold_lit ''</h3>'')))))))"

definition digits_re :: re where "digits_re = Grp (Seq (Cls is_digit) (Many is_digit))"

definition viewAnchorRe :: re where
  "viewAnchorRe =
     Seq (Lit ''<a'') (Seq (Grp (Many not_gt)) (Seq (Lit (''href='' @ [dq] @ ''/view/'')) (Seq digits_re
       (Seq (Lit [dq]) (Seq (Grp (Many not_gt)) (Seq (Lit ''>'') (Seq (Grp (Few any_char)) (Lit ''</a>''))))))))"

definition attrRe :: re where
  "attrRe =
     Seq (Grp (Seq (Cls attr_char) (Many attr_char)))
       (Seq (Lit (''='' @ [dq])) (Seq (Grp (Many not_dq)) (Lit [dq])))"

definition magnetRe :: re where
  "magnetRe = Seq (Lit (''href='' @ [dq])) (Seq (Grp (Seq (Lit ''magnet:'') (Many not_dq))) (Lit [dq]))"

definition sizeCellRe :: re where
  "sizeCellRe =
     Seq (Lit (''<td class='' @ quoted ''text-center'' @ ''>'')) (Seq (Many re_space)
       (Seq (Grp (Few not_lt)) (Seq (Many re_space) (Lit ''</td>''))))"

definition timestampRe :: re where
  "timestampRe = Seq (Lit (''data-timestamp='' @ [dq])) (Seq digits_re (Lit [dq]))"

definition tagRe :: re where
  "tagRe = Seq (Lit ''<'') (Seq (Many not_gt) (Lit ''>''))"

subsection \<open>The cells of a row\<close>

fun attr_loop :: "string list list \<Rightarrow> string \<Rightarrow> string option" where
  "attr_loop [] name = None"
| "attr_loop (m # ms) name = (if m ! 0 = name then Some (m ! 1) else attr_loop ms name)"

definition attrValue :: "(string \<Rightarrow> int list option) \<Rightarrow> string \<Rightarrow> string \<Rightarrow> string" where
  "attrValue ents attrs name =
     (case attr_loop (FindAllStringSubmatch attrRe attrs) name of
        Some v \<Rightarrow> UnescapeString ents v
      | None \<Rightarrow> [])"

definition nyaa_rowTitle :: "(string \<Rightarrow> int list option) \<Rightarrow> string \<Rightarrow> string \<times> string" where
  "nyaa_rowTitle ents row =
     (case FindStringSubmatch viewAnchorRe row of
        None \<Rightarrow> ([], [])
      | Some m \<Rightarrow>
          (let attrs = m ! 0 @ m ! 2;
               t = attrValue ents attrs ''title'';
               title = (if t \<noteq> [] then t else trim_space (remove_all tagRe (m ! 3)))
           in (m ! 1, UnescapeString ents (trim_space title))))"

definition nyaa_rowMagnet :: "(string \<Rightarrow> int list option) \<Rightarrow> string \<Rightarrow> string" where
  "nyaa_rowMagnet ents row =
     (case FindStringSubmatch magnetRe row of Some m \<Rightarrow> UnescapeString ents (m ! 0) | None \<Rightarrow> [])"

text \<open>
  A unit in lower case. Of the characters outside ASCII only U+212A and U+0130 have a lower case
  inside it; what the others become does not matter for the comparison with the units.
\<close>

definition kelvin :: string where "kelvin = [CHR 0xE2, CHR 0x84, CHR 0xAA]"
definition dotted_I :: string where "dotted_I = [CHR 0xC4, CHR 0xB0]"

function unit_lower :: "string \<Rightarrow> string" where
  "unit_lower s =
     (if prefix kelvin s then CHR ''k'' # unit_lower (drop 3 s)
      else if prefix dotted_I s then CHR ''i'' # unit_lower (drop 2 s)
      else case s of [] \<Rightarrow> [] | c # t \<Rightarrow> char_lower c # unit_lower t)"
  by pat_completeness auto
termination
  by (relation "measure length") (auto simp: kelvin_def dotted_I_def prefix_def)

declare unit_lower.simps [simp del]

definition nyaa_unit :: "string \<Rightarrow> int option" where
  "nyaa_unit u =
     (if u = ''b'' \<or> u = ''byte'' \<or> u = ''bytes'' then Some 1
      else if u = ''kb'' then Some (1000)
      else if u = ''mb'' then Some (1000 * 1000)
      else if u = ''gb'' then Some (1000 * 1000 * 1000)
      else if u = ''tb'' then Some (1000 * 1000 * 1000 * 1000)
      else if u = ''kib'' then Some 1024
      else if u = ''mib'' then Some (1024 * 1024)
      else if u = ''gib'' then Some (1024 * 1024 * 1024)
      else if u = ''tib'' then Some (1024 * 1024 * 1024 * 1024)
      else None)"

datatype nyaa_size_error = NoNumber | BadFloat | NegativeSize | NoSuchUnit

text \<open>\<open>n < 0\<close>: false for the negative zero and for NaN.\<close>

definition is_negative :: "float_val \<Rightarrow> bool" where
  "is_negative v = (case v of Fin neg x \<Rightarrow> neg \<and> fst x \<noteq> 0 | Infinite neg \<Rightarrow> neg | NaN \<Rightarrow> False)"

definition parseSize :: "platform \<Rightarrow> string \<Rightarrow> nyaa_size_error + int" where
  "parseSize plat s =
     (let flds = str_fields (trim_space s)
      in if flds = [] then Inl NoNumber
         else case ParseFloat (flds ! 0) of
           None \<Rightarrow> Inl BadFloat
         | Some n \<Rightarrow>
             (if is_negative n then Inl NegativeSize
              else let unit = (if length flds > 1 then unit_lower (flds ! 1) else ''b'')
                   in case nyaa_unit unit of
                        None \<Rightarrow> Inl NoSuchUnit
                      | Some mult \<Rightarrow> Inr (scaled_int64 plat n mult)))"

definition nyaa_rowSize :: "platform \<Rightarrow> string \<Rightarrow> int" where
  "nyaa_rowSize plat row =
     (case FindStringSubmatch sizeCellRe row of
        Some m \<Rightarrow> (case parseSize plat (m ! 0) of Inl _ \<Rightarrow> 0 | Inr n \<Rightarrow> n)
      | None \<Rightarrow> 0)"

text \<open>
  \<open>time.Unix(sec, 0)\<close>: an instant counts the seconds from the year 1 in 64 bits.
\<close>

definition time_Unix :: "int \<Rightarrow> time" where
  "time_Unix sec = (s64 (sec + 62135596800) - 62135596800) * 1000000000"

definition nyaa_rowPublishedAt :: "string \<Rightarrow> time" where
  "nyaa_rowPublishedAt row =
     (case FindStringSubmatch timestampRe row of
        None \<Rightarrow> zero_time
      | Some m \<Rightarrow> (case atoi (m ! 0) of None \<Rightarrow> zero_time | Some sec \<Rightarrow> time_Unix sec))"

subsection \<open>The page\<close>

definition nyaa_row_post :: "(string \<Rightarrow> int list option) \<Rightarrow> platform \<Rightarrow> string \<Rightarrow> RawPost option" where
  "nyaa_row_post ents plat row =
     (case nyaa_rowTitle ents row of (sid, title) \<Rightarrow>
        if sid = [] then None
        else Some \<lparr>rpTitle = title, rpMagnet = nyaa_rowMagnet ents row, rpSource = SourceNyaa, rpSourceID = sid,
          rpURL = ''https://nyaa.si/view/'' @ sid, rpPublishedAt = nyaa_rowPublishedAt row,
          rpSizeBytes = nyaa_rowSize plat row\<rparr>)"

definition errNoListing :: string where
  "errNoListing = ''nyaa: listing page has no torrent-list table''"

definition ParseListingPage :: "(string \<Rightarrow> int list option) \<Rightarrow> platform \<Rightarrow> string \<Rightarrow> string + RawPost list" where
  "ParseListingPage ents plat body =
     (let starts = all_starts listRowRe None body
      in if starts = []
         then (if \<not> MatchString nyaa_listTableRe body \<and> \<not> MatchString noResultsRe body then Inl errNoListing
               else Inr [])
         else Inr (List.map_filter (nyaa_row_post ents plat) (slices body starts)))"

section \<open>Lemmas\<close>

subsection \<open>Rows\<close>

definition row_tags :: "string list" where
  "row_tags = map (\<lambda>cls. ''<tr class='' @ quoted cls @ ''>'') [''default'', ''success'', ''danger'']"

lemma row_tags_are_tags: "list_all is_tag row_tags"
  by (simp add: row_tags_def is_tag_def quoted_def dq_def)

lemma listRowRe_lang: "lang listRowRe pv u rest c \<longleftrightarrow> u \<in> set row_tags \<and> c = []"
proof -
  have "lang listRowRe pv u rest c \<longleftrightarrow>
      (\<exists>cls \<in> {''default'', ''success'', ''danger''}. u = (''<tr class='' @ [dq]) @ cls @ dq # ''>'') \<and> c = []"
    unfolding listRowRe_def lang_Seq_steps by (simp only: lang.simps) blast
  also have "\<dots> \<longleftrightarrow> u \<in> set row_tags \<and> c = []" by (simp add: row_tags_def quoted_def)
  finally show ?thesis .
qed

lemma listing_starts: "all_starts listRowRe pv body = occurrences row_tags body"
  by (rule all_starts_tags [OF row_tags_are_tags listRowRe_lang])

text \<open>The table of a listing: a class attribute with the word \<open>torrent-list\<close>.\<close>

definition table_text :: "string \<Rightarrow> string \<Rightarrow> bool" where
  "table_text a b \<longleftrightarrow> dq \<notin> set a \<and> dq \<notin> set b \<and> (a = [] \<or> \<not> word_char (last a)) \<and> (b = [] \<or> \<not> word_char (hd b))"

definition has_list_table :: "string \<Rightarrow> bool" where
  "has_list_table body \<longleftrightarrow>
     (\<exists>a b. sublist (''class='' @ quoted (a @ ''torrent-list'' @ b)) body \<and> table_text a b)"

lemma list_not_dq: "list_all not_dq u \<longleftrightarrow> dq \<notin> set u"
  by (auto simp: list_all_iff not_dq_def)

lemma boundary_before: "word_boundary (last_char (Some dq) a) (''torrent-list'' @ s) \<longleftrightarrow> a = [] \<or> \<not> word_char (last a)"
  by (simp add: word_boundary_def next_char_def last_char_def word_char_def dq_def is_digit_def is_lower_def is_upper_def byte_of_def)

lemma boundary_after: "word_boundary (last_char pv ''torrent-list'') (b @ dq # s) \<longleftrightarrow> b = [] \<or> \<not> word_char (hd b)"
  by (cases b) (simp_all add: word_boundary_def next_char_def word_char_def dq_def is_digit_def is_lower_def is_upper_def
      byte_of_def)

lemma table_tail_lang:
  "lang (Seq (Many not_dq) (Lit [dq])) pv u rest c \<longleftrightarrow> (\<exists>b. u = b @ [dq] \<and> dq \<notin> set b) \<and> c = []"
  unfolding lang_Seq_steps lang.simps list_not_dq by blast

lemma table_name_lang:
  "lang (Seq WordB (Seq (Lit ''torrent-list'') (Seq WordB (Seq (Many not_dq) (Lit [dq]))))) (last_char (Some dq) a) u rest c \<longleftrightarrow>
     (\<exists>b. u = ''torrent-list'' @ b @ [dq] \<and> dq \<notin> set b \<and> (a = [] \<or> \<not> word_char (last a)) \<and>
        (b = [] \<or> \<not> word_char (hd b))) \<and> c = []" (is "?l \<longleftrightarrow> ?r")
proof
  assume ?l
  then obtain v where v: "u = ''torrent-list'' @ v" "word_boundary (last_char (Some dq) a) (u @ rest)"
    "word_boundary (last_char (last_char (Some dq) a) ''torrent-list'') (v @ rest)"
    "lang (Seq (Many not_dq) (Lit [dq])) (last_char (last_char (Some dq) a) ''torrent-list'') v rest c"
    unfolding lang_WordB lang_Seq_steps(1) [of "''torrent-list''"] by blast
  from v(4) obtain b where b: "v = b @ [dq]" "dq \<notin> set b" "c = []" unfolding table_tail_lang by blast
  have "a = [] \<or> \<not> word_char (last a)" using v(2) boundary_before [of a "v @ rest"] unfolding v(1) by simp
  moreover have "b = [] \<or> \<not> word_char (hd b)" using v(3) boundary_after [of _ b rest] unfolding b(1) by simp
  ultimately show ?r using v(1) b by blast
next
  assume ?r
  then obtain b where b: "u = ''torrent-list'' @ b @ [dq]" "dq \<notin> set b" "a = [] \<or> \<not> word_char (last a)"
    "b = [] \<or> \<not> word_char (hd b)" "c = []" by blast
  have "word_boundary (last_char (Some dq) a) (u @ rest)"
    using b(3) boundary_before [of a "b @ dq # rest"] unfolding b(1) by simp
  moreover have "word_boundary pv ((b @ [dq]) @ rest)" if "pv = last_char pv0 ''torrent-list''" for pv pv0
    using b(4) boundary_after [of pv0 b rest] unfolding that by simp
  moreover have "lang (Seq (Many not_dq) (Lit [dq])) pv (b @ [dq]) rest c" for pv
    unfolding table_tail_lang using b(2,5) by blast
  ultimately show ?l unfolding lang_WordB lang_Seq_steps(1) [of "''torrent-list''"] using b(1) by blast
qed

lemma listTable_lang:
  "lang nyaa_listTableRe pv u rest c \<longleftrightarrow>
     (\<exists>a b. u = ''class='' @ quoted (a @ ''torrent-list'' @ b) \<and> table_text a b) \<and> c = []"
proof -
  have pv: "last_char pv (''class='' @ [dq]) = Some dq" by simp
  have "lang nyaa_listTableRe pv u rest c \<longleftrightarrow>
      (\<exists>a v. u = (''class='' @ [dq]) @ a @ v \<and> dq \<notin> set a \<and>
        (\<exists>b. v = ''torrent-list'' @ b @ [dq] \<and> dq \<notin> set b \<and> (a = [] \<or> \<not> word_char (last a)) \<and>
          (b = [] \<or> \<not> word_char (hd b)))) \<and> c = []"
    unfolding nyaa_listTableRe_def lang_Seq_steps(1) [of "''class='' @ [dq]"] lang_Seq_steps(2) list_not_dq pv table_name_lang
    by blast
  also have "\<dots> \<longleftrightarrow> (\<exists>a b. u = (''class='' @ [dq]) @ a @ ''torrent-list'' @ b @ [dq] \<and> table_text a b) \<and> c = []"
    unfolding table_text_def by blast
  finally show ?thesis by (simp add: quoted_def)
qed

lemma listTable_found: "MatchString nyaa_listTableRe body \<longleftrightarrow> has_list_table body"
  unfolding MatchString_lang listTable_lang has_list_table_def sublist_def by blast

lemma ParseListingPage_eq:
  "ParseListingPage ents plat body =
     (if contains row_tags body
      then Inr (List.map_filter (nyaa_row_post ents plat) (slices body (occurrences row_tags body)))
      else if has_list_table body \<or> MatchString noResultsRe body then Inr [] else Inl errNoListing)"
  by (simp add: ParseListingPage_def listing_starts occurrences_Nil [OF row_tags_are_tags] listTable_found Let_def)

text \<open>The link of a row.\<close>

definition view_link :: "string \<Rightarrow> string \<Rightarrow> string \<Rightarrow> string \<Rightarrow> string" where
  "view_link a1 sid a2 inner =
     ''<a'' @ a1 @ (''href='' @ [dq] @ ''/view/'') @ sid @ [dq] @ a2 @ ''>'' @ inner @ ''</a>''"

lemma anchor_shape:
  assumes "lang (Seq (Lit l1) (Seq (Grp (Many C)) (Seq (Lit l2) (Seq digits_re
    (Seq (Lit l3) (Seq (Grp (Many D)) (Seq (Lit l4) (Seq (Grp (Few E)) (Lit l5)))))))))  pv u rest m"
  shows "\<exists>a1 sid a2 inner. m = [a1, sid, a2, inner] \<and> u = l1 @ a1 @ l2 @ sid @ l3 @ a2 @ l4 @ inner @ l5 \<and>
    list_all is_digit sid \<and> sid \<noteq> []"
  using assms unfolding digits_re_def lang_Seq_steps lang_Grp_steps lang.simps(2) by blast

lemma attr_shape:
  assumes "lang (Seq (Grp (Seq (Cls C) (Many C))) (Seq (Lit l1) (Seq (Grp (Many D)) (Lit l2)))) pv u rest m"
  shows "\<exists>x y. m = [x, y] \<and> u = x @ l1 @ y @ l2"
  using assms unfolding lang_Seq_steps lang_Grp_steps lang.simps(2) by blast

lemma number_shape:
  assumes "lang (Seq (Lit l1) (Seq digits_re (Lit l2))) pv u rest m"
  shows "\<exists>x. m = [x] \<and> u = l1 @ x @ l2"
  using assms unfolding digits_re_def lang_Seq_steps lang_Grp_steps lang.simps(2) by blast

lemma cell_shape:
  assumes "lang (Seq (Lit l1) (Seq (Many C) (Seq (Grp (Few D)) (Seq (Many C) (Lit l2))))) pv u rest m"
  shows "\<exists>p x q. m = [x] \<and> u = l1 @ p @ x @ q @ l2 \<and> list_all C p \<and> list_all C q"
  using assms unfolding lang_Seq_steps lang_Grp_steps lang.simps(2) by blast

lemma magnet_shape:
  assumes "lang (Seq (Lit l1) (Seq (Grp (Seq (Lit l2) (Many C))) (Lit l3))) pv u rest m"
  shows "\<exists>x. m = [x] \<and> u = l1 @ x @ l3 \<and> prefix l2 x"
  using assms unfolding lang_Seq_steps(1) by (auto elim!: lang_Seq_Grp simp del: lang.simps(6) simp: lang_Seq_steps)

lemma viewAnchor_lang:
  assumes "lang viewAnchorRe pv u rest m"
  obtains a1 sid a2 inner where "m = [a1, sid, a2, inner]" "u = view_link a1 sid a2 inner"
    "list_all is_digit sid" "sid \<noteq> []"
  using anchor_shape [OF assms [unfolded viewAnchorRe_def]] that unfolding view_link_def by (elim exE conjE)

lemma viewAnchor_found:
  assumes "FindStringSubmatch viewAnchorRe row = Some m"
  obtains a1 sid a2 inner where "m = [a1, sid, a2, inner]" "sublist (view_link a1 sid a2 inner) row"
    "list_all is_digit sid" "sid \<noteq> []"
  using submatch_lang [OF assms] viewAnchor_lang by metis

lemma attr_loop_found: "attr_loop ms name = Some v \<Longrightarrow> \<exists>m \<in> set ms. m ! 0 = name \<and> m ! 1 = v"
  by (induction ms) (auto split: if_splits)

lemma attr_provenance:
  assumes "attr_loop (FindAllStringSubmatch attrRe attrs) name = Some v"
  shows "sublist (name @ ''='' @ quoted v) attrs"
proof -
  from attr_loop_found [OF assms] obtain f where f: "f \<in> set (find_all attrRe None attrs)" "fCaps f ! 0 = name" "fCaps f ! 1 = v"
    by (auto simp: FindAllStringSubmatch_def)
  from find_all_caps [OF f(1)] obtain pv u rest where u: "lang attrRe pv u rest (fCaps f)" "sublist u attrs" by blast
  from attr_shape [OF u(1) [unfolded attrRe_def]] obtain x y where
    "fCaps f = [x, y]" "u = x @ (''='' @ [dq]) @ y @ [dq]" by (elim exE conjE)
  with f(2,3) u(2) show ?thesis by (simp add: quoted_def)
qed

text \<open>Where a title comes from: the attribute of the link, or its text.\<close>

definition title_of :: "(string \<Rightarrow> int list option) \<Rightarrow> string \<Rightarrow> string \<Rightarrow> string \<Rightarrow> bool" where
  "title_of ents attrs inner title \<longleftrightarrow>
     (\<exists>v. sublist (''title='' @ quoted v) attrs \<and> title = UnescapeString ents (trim_space (UnescapeString ents v))) \<or>
     title = UnescapeString ents (trim_space (trim_space (remove_all tagRe inner)))"

lemma rowTitle_none: "fst (nyaa_rowTitle ents row) = [] \<longleftrightarrow> \<not> MatchString viewAnchorRe row"
proof (cases "FindStringSubmatch viewAnchorRe row")
  case (Some m)
  from viewAnchor_found [OF Some] obtain a1 sid a2 inner where "m = [a1, sid, a2, inner]" "sid \<noteq> []" .
  with Some show ?thesis by (auto simp: nyaa_rowTitle_def Let_def MatchString_def FindStringSubmatch_def)
qed (auto simp: nyaa_rowTitle_def MatchString_def FindStringSubmatch_def)

lemma nyaa_row_post_None: "nyaa_row_post ents plat row = None \<longleftrightarrow> \<not> MatchString viewAnchorRe row"
  using rowTitle_none [of ents row] by (auto simp: nyaa_row_post_def split: prod.splits if_splits)

lemma nyaa_rowTitle_provenance:
  assumes "nyaa_rowTitle ents row = (sid, title)" "sid \<noteq> []"
  shows "\<exists>a1 a2 inner. sublist (view_link a1 sid a2 inner) row \<and> list_all is_digit sid \<and> title_of ents (a1 @ a2) inner title"
proof -
  from assms obtain m where m: "FindStringSubmatch viewAnchorRe row = Some m"
    by (auto simp: nyaa_rowTitle_def split: option.splits)
  from viewAnchor_found [OF m] obtain a1 i a2 inner where v: "m = [a1, i, a2, inner]" "sublist (view_link a1 i a2 inner) row"
    "list_all is_digit i" .
  have t: "sid = i" "title = UnescapeString ents (trim_space
      (if attrValue ents (a1 @ a2) ''title'' \<noteq> [] then attrValue ents (a1 @ a2) ''title'' else trim_space (remove_all tagRe inner)))"
    using assms(1) m v(1) by (simp_all add: nyaa_rowTitle_def Let_def split: if_splits)
  have "title_of ents (a1 @ a2) inner title"
  proof (cases "attrValue ents (a1 @ a2) ''title'' = []")
    case False
    then obtain w where "attr_loop (FindAllStringSubmatch attrRe (a1 @ a2)) ''title'' = Some w"
      by (auto simp: attrValue_def split: option.splits)
    with t(2) False attr_provenance [OF this] show ?thesis by (auto simp: title_of_def attrValue_def)
  qed (use t(2) in \<open>simp add: title_of_def\<close>)
  with v t(1) show ?thesis by blast
qed

lemma nyaa_magnet_found:
  assumes "FindStringSubmatch magnetRe row = Some m"
  shows "sublist (''href='' @ quoted (m ! 0)) row \<and> prefix ''magnet:'' (m ! 0)"
proof -
  from submatch_lang [OF assms] obtain pv u rest where u: "lang magnetRe pv u rest m" "sublist u row" .
  from magnet_shape [OF u(1) [unfolded magnetRe_def]] obtain x where
    "m = [x]" "u = (''href='' @ [dq]) @ x @ [dq]" "prefix ''magnet:'' x" by (elim exE conjE)
  with u(2) show ?thesis by (simp add: quoted_def)
qed

lemma nyaa_timestamp_found:
  assumes "FindStringSubmatch timestampRe row = Some m"
  shows "sublist (''data-timestamp='' @ quoted (m ! 0)) row"
proof -
  from submatch_lang [OF assms] obtain pv u rest where u: "lang timestampRe pv u rest m" "sublist u row" .
  from number_shape [OF u(1) [unfolded timestampRe_def]] obtain x where
    "m = [x]" "u = (''data-timestamp='' @ [dq]) @ x @ [dq]" by (elim exE conjE)
  with u(2) show ?thesis by (simp add: quoted_def)
qed

lemma nyaa_size_found:
  assumes "FindStringSubmatch sizeCellRe row = Some m"
  shows "\<exists>p q. sublist (''<td class='' @ quoted ''text-center'' @ ''>'' @ p @ m ! 0 @ q @ ''</td>'') row \<and>
    list_all re_space p \<and> list_all re_space q"
proof -
  from submatch_lang [OF assms] obtain pv u rest where u: "lang sizeCellRe pv u rest m" "sublist u row" .
  from cell_shape [OF u(1) [unfolded sizeCellRe_def]] obtain p x q where
    "m = [x]" "u = (''<td class='' @ quoted ''text-center'' @ ''>'') @ p @ x @ q @ ''</td>''"
    "list_all re_space p" "list_all re_space q" by (elim exE conjE)
  with u(2) show ?thesis by auto
qed

subsection \<open>Values\<close>

lemma first_at:
  "c \<notin> set a \<Longrightarrow> c \<notin> set b \<Longrightarrow> a @ c # x = b @ c # y \<longleftrightarrow> a = b \<and> x = y"
  by (auto simp: append_eq_append_conv2 Cons_eq_append_conv append_eq_Cons_conv)

text \<open>An attribute among others is read back.\<close>

lemma attrValue_written:
  assumes "basic_entities ents" "list_all attr_char name" "name \<noteq> []"
    and "CHR ''='' \<notin> set p" "p = [] \<or> \<not> attr_char (last p)"
  shows "attrValue ents (p @ (name @ ''='' @ quoted (EscapeString v)) @ q) name = v"
proof -
  let ?e = "EscapeString v"
  have dq: "dq \<notin> set ?e" by (auto simp: EscapeString_def escape_char_def dq_def)
  have eq: "CHR ''='' \<notin> set x" if "list_all attr_char x" for x
    using that by (auto simp: list_all_iff attr_char_def is_lower_def is_upper_def is_digit_def byte_of_def)
  have "FindStringSubmatch attrRe (p @ (name @ ''='' @ quoted ?e) @ q) = Some [name, ?e]"
  proof (rule FindStringSubmatch_unique [OF refl])
    show "lang attrRe (last_char None p) (name @ ''='' @ quoted ?e) q [name, ?e]"
      unfolding attrRe_def lang_Grp_steps lang_Seq_steps lang.simps(2) list_not_dq
      using assms(2,3) dq by (auto simp: quoted_def)
  next
    fix p' u' rest' c'
    assume s: "p @ (name @ ''='' @ quoted ?e) @ q = p' @ u' @ rest'" and l: "lang attrRe (last_char None p') u' rest' c'"
      and len: "length p' \<le> length p"
    from l obtain x y where x: "c' = [x, y]" "u' = x @ (''='' @ [dq]) @ y @ [dq]" "list_all attr_char x" "dq \<notin> set y"
      unfolding attrRe_def lang_Grp_steps lang_Seq_steps lang.simps(2) list_not_dq by (elim exE conjE) simp
    obtain z where z: "p = p' @ z" using s len by (auto simp: append_eq_append_conv2)
    have no: "CHR ''='' \<notin> set (p @ name)" "CHR ''='' \<notin> set (p' @ x)" using assms(2,4) eq x(3) z by auto
    have "(p @ name) @ CHR ''='' # dq # ?e @ dq # q = (p' @ x) @ CHR ''='' # dq # y @ dq # rest'"
      using s x(2) by (simp add: quoted_def)
    then have "p @ name = p' @ x" "?e @ dq # q = y @ dq # rest'" unfolding first_at [OF no] by simp_all
    then have 1: "x = z @ name" "y = ?e" using z dq x(4) by (simp_all add: first_at)
    have "z = []"
    proof (rule ccontr)
      assume "z \<noteq> []"
      then have "last p = last z" "attr_char (last z)" using z 1(1) x(3) by (auto simp: list_all_iff)
      with assms(5) z \<open>z \<noteq> []\<close> show False by simp
    qed
    with 1 x(1) show "c' = [name, ?e]" by simp
  qed
  then obtain cs where "FindAllStringSubmatch attrRe (p @ (name @ ''='' @ quoted ?e) @ q) = [name, ?e] # cs"
    by (rule FindAllStringSubmatch_first)
  then show ?thesis using Unescape_Escape [OF assms(1)] by (simp add: attrValue_def)
qed

lemma nyaa_timestamp_written:
  assumes "row = p @ (''data-timestamp='' @ quoted (itoa sec)) @ q" "0 \<le> sec" "sec < 2 ^ 62"
    and "\<forall>i < length p. \<not> prefix (''data-timestamp='' @ [dq]) (drop i row)"
  shows "nyaa_rowPublishedAt row = sec * 1000000000"
proof -
  define l where "l = ''data-timestamp='' @ [dq]"
  have d: "list_all is_digit (itoa sec)" "itoa sec \<noteq> []" using assms(2) by (simp_all add: itoa_def)
  have nd: "\<not> is_digit dq" by (simp add: dq_def is_digit_def byte_of_def)
  have row: "row = p @ (l @ itoa sec @ [dq]) @ q" using assms(1) by (simp add: l_def quoted_def)
  have "FindStringSubmatch timestampRe row = Some [itoa sec]"
    unfolding timestampRe_def l_def [symmetric]
  proof (rule FindStringSubmatch_unique [OF row])
    show "lang (Seq (Lit l) (Seq digits_re (Lit [dq]))) (last_char None p) (l @ itoa sec @ [dq]) q [itoa sec]"
      unfolding digits_re_def lang_Grp_steps lang_Seq_steps lang.simps(2) using d by blast
  next
    fix p' u' rest' c'
    assume s: "row = p' @ u' @ rest'" and len: "length p' \<le> length p"
      and "lang (Seq (Lit l) (Seq digits_re (Lit [dq]))) (last_char None p') u' rest' c'"
    then obtain x where x: "c' = [x]" "u' = l @ x @ [dq]" "list_all is_digit x"
      unfolding digits_re_def lang_Grp_steps lang_Seq_steps lang.simps(2) by (elim exE conjE) simp
    have "prefix l (drop (length p') row)" using s x(2) by simp
    with assms(4) len have "length p' = length p" unfolding l_def [symmetric] by (meson le_neq_implies_less)
    with s row x(2) have "itoa sec @ dq # q = x @ dq # rest'" by simp
    moreover have "dq \<notin> set (itoa sec)" "dq \<notin> set x" using d(1) x(3) nd by (auto simp: list_all_iff)
    ultimately show "c' = [itoa sec]" using x(1) by (simp add: first_at)
  qed
  moreover have "atoi (itoa sec) = Some sec" using assms(2,3) by (intro atoi_itoa) (simp add: in_int64_def)
  moreover have "s64 (sec + 62135596800) = sec + 62135596800" using assms(2,3) by (intro s64_id) (simp add: in_int64_def)
  ultimately show ?thesis by (simp add: nyaa_rowPublishedAt_def time_Unix_def)
qed

lemma nyaa_unit_bounds: "nyaa_unit u = Some k \<Longrightarrow> 0 < k \<and> k \<le> 2 ^ 40"
  by (auto simp: nyaa_unit_def split: if_splits)

lemma nyaa_solid: "letter c \<or> is_digit c \<or> c = CHR ''.'' \<Longrightarrow> solid c"
  by (rule solid_ascii) (auto simp: letter_def is_lower_def is_upper_def is_digit_def byte_of_def)

lemma unit_lower_letters: "list_all letter u \<Longrightarrow> unit_lower u = to_lower u"
proof (induction u)
  case (Cons c u)
  then have "c \<noteq> CHR 0xE2" "c \<noteq> CHR 0xC4" by (auto simp: letter_def is_lower_def is_upper_def byte_of_def)
  with Cons show ?case by (simp add: unit_lower.simps [of "c # u"] kelvin_def dotted_I_def to_lower_def)
qed (simp add: unit_lower.simps kelvin_def dotted_I_def to_lower_def)

lemma parseSize_near:
  assumes "list_all is_digit ip" "list_all is_digit (fraction fp)" "ip \<noteq> []" "list_all letter u"
    and "nyaa_unit (to_lower u) = Some k"
    and "dec_val (ip @ fraction fp) * k < 2 ^ 50 * 10 ^ length (fraction fp)"
  obtains n where "parseSize plat (decimal_text ip fp @ '' '' @ u) = Inr n" "0 \<le> n"
    "\<bar>real_of_int n - real_of_int (dec_val (ip @ fraction fp) * k) / 10 ^ length (fraction fp)\<bar> < 1"
proof -
  let ?t = "decimal_text ip fp"
  have t: "list_all solid ?t" "?t \<noteq> []" and u: "list_all solid u"
    using assms(1-4) nyaa_solid by (auto simp: decimal_text_def fraction_def list_all_iff split: option.splits)
  have une: "u \<noteq> []" using assms(5) by (auto simp: nyaa_unit_def to_lower_def)
  obtain c t' where c: "?t = c # t'" "solid c" using t by (cases ?t) auto
  obtain u' d where d: "u = u' @ [d]" "solid d" using u une by (cases u rule: rev_cases) auto
  have "trim_space (?t @ '' '' @ u) = ?t @ '' '' @ u"
    using trim_space_solid_between [OF c(2) d(2), of "t' @ '' '' @ u'" "[]"] c(1) d(1)
    by (simp add: trim_right_Nil)
  moreover have "str_fields (?t @ '' '' @ u) = [?t, u]" by (rule str_fields_two [OF t u une])
  moreover note nyaa_unit_bounds [OF assms(5)]
  then obtain v where v: "ParseFloat ?t = Some v"
    "\<bar>real_of_int (scaled_int64 plat v k) - real_of_int (dec_val (ip @ fraction fp) * k) / 10 ^ length (fraction fp)\<bar> < 1"
    "0 \<le> scaled_int64 plat v k" "\<exists>x. v = Fin False x"
    using scaled_decimal [OF assms(1-3) _ _ assms(6)] by metis
  ultimately have "parseSize plat (?t @ '' '' @ u) = Inr (scaled_int64 plat v k)"
    using assms(5) unit_lower_letters [OF assms(4)] by (auto simp: parseSize_def Let_def is_negative_def)
  with v(2,3) show thesis using that by blast
qed

subsection \<open>A page\<close>

definition sample_ents :: "string \<Rightarrow> int list option" where
  "sample_ents name =
     (if name = ''amp;'' then Some [38] else if name = ''lt;'' then Some [60] else if name = ''gt;'' then Some [62] else None)"

lemma sample_ents: "basic_entities sample_ents"
  by (simp add: basic_entities_def sample_ents_def)

definition nyaa_sample_row :: string where
  "nyaa_sample_row = ''<tr class='' @ quoted ''success'' @ ''><td><a href='' @ quoted ''/?c=1_2'' @ ''>x</a></td>'' @
     ''<td><a href='' @ quoted ''/view/1837'' @ '' title='' @ quoted ''A &amp;lt; B'' @ ''>A</a></td>'' @
     ''<td><a href='' @ quoted ''magnet:?xt=1&amp;tr=2'' @ ''></a></td>'' @
     ''<td class='' @ quoted ''text-center'' @ ''>1.4 GiB</td>'' @
     ''<td data-timestamp='' @ quoted ''90'' @ ''></td></tr>''"

definition nyaa_sample_page :: string where
  "nyaa_sample_page = ''<table class='' @ quoted ''table torrent-list'' @ ''>'' @
     ''<tr class='' @ quoted ''default'' @ ''><td>no link</td></tr>'' @ nyaa_sample_row"

definition nyaa_sample_post :: RawPost where
  "nyaa_sample_post =
     \<lparr>rpTitle = ''A < B'', rpMagnet = ''magnet:?xt=1&tr=2'', rpSource = ''nyaa'', rpSourceID = ''1837'',
      rpURL = ''https://nyaa.si/view/1837'', rpPublishedAt = 90000000000, rpSizeBytes = 1503238554\<rparr>"

lemma nyaa_row_parsed: "nyaa_row_post sample_ents (\<lambda>_. 0) nyaa_sample_row = Some nyaa_sample_post"
  by code_simp

text \<open>A title is unescaped once when the attribute is read and again afterwards.\<close>

lemma nyaa_title_unescaped_twice:
  "nyaa_rowTitle sample_ents
     (''<a href='' @ quoted ''/view/7'' @ '' title='' @ quoted (EscapeString ''A &lt; B'') @ ''>x</a>'') = (''7'', ''A < B'')"
  by code_simp

lemma nyaa_page_parsed: "ParseListingPage sample_ents (\<lambda>_. 0) nyaa_sample_page = Inr [nyaa_sample_post]"
  by code_simp

section \<open>Properties\<close>

text \<open>
  C6: the rows of a Nyaa page. A page is rejected exactly when it has no row of a listing, no
  listing table and no heading that says there are no results; a page without rows that has the
  table or the heading is empty. A page with rows is cut, without loss, into one piece per row, and
  its posts are those of the pieces that have a link to a torrent, in order.
\<close>

theorem nyaa_page_rows:
  "(ParseListingPage ents plat body = Inl e \<longleftrightarrow>
      e = errNoListing \<and> \<not> contains row_tags body \<and> \<not> has_list_table body \<and> \<not> MatchString noResultsRe body) \<and>
   (\<not> contains row_tags body \<and> (has_list_table body \<or> MatchString noResultsRe body) \<longrightarrow>
      ParseListingPage ents plat body = Inr []) \<and>
   (contains row_tags body \<longrightarrow>
      (\<exists>pre rows. body = pre @ concat rows \<and> \<not> contains row_tags pre \<and>
         length rows = length (occurrences row_tags body) \<and>
         (\<forall>row \<in> set rows. begins row_tags row \<and> \<not> contains row_tags (tl row) \<and>
            (nyaa_row_post ents plat row = None \<longleftrightarrow> \<not> MatchString viewAnchorRe row)) \<and>
         ParseListingPage ents plat body = Inr (List.map_filter (nyaa_row_post ents plat) rows)))"
proof (intro conjI impI)
  show "ParseListingPage ents plat body = Inl e \<longleftrightarrow>
      e = errNoListing \<and> \<not> contains row_tags body \<and> \<not> has_list_table body \<and> \<not> MatchString noResultsRe body"
    by (auto simp: ParseListingPage_eq)
  show "ParseListingPage ents plat body = Inr []"
    if "\<not> contains row_tags body \<and> (has_list_table body \<or> MatchString noResultsRe body)"
    using that by (auto simp: ParseListingPage_eq)
  assume rows: "contains row_tags body"
  note sl = slices_occurrences [OF row_tags_are_tags, of body]
  from sl(1) rows obtain pre where "body = pre @ concat (slices body (occurrences row_tags body))" "\<not> contains row_tags pre"
    using occurrences_Nil [OF row_tags_are_tags] by blast
  then show "\<exists>pre rows. body = pre @ concat rows \<and> \<not> contains row_tags pre \<and>
         length rows = length (occurrences row_tags body) \<and>
         (\<forall>row \<in> set rows. begins row_tags row \<and> \<not> contains row_tags (tl row) \<and>
            (nyaa_row_post ents plat row = None \<longleftrightarrow> \<not> MatchString viewAnchorRe row)) \<and>
         ParseListingPage ents plat body = Inr (List.map_filter (nyaa_row_post ents plat) rows)"
    using sl(2,3) rows by (auto simp: ParseListingPage_eq nyaa_row_post_None)
qed

theorem nyaa_page_rows_witness:
  "\<exists>pre rows. nyaa_sample_page = pre @ concat rows \<and> length rows = 2 \<and>
     [nyaa_sample_post] = List.map_filter (nyaa_row_post sample_ents (\<lambda>_. 0)) rows"
proof -
  have "length (occurrences row_tags nyaa_sample_page) = 2" unfolding listing_starts [of None, symmetric] by code_simp
  moreover from this have "contains row_tags nyaa_sample_page" using occurrences_Nil [OF row_tags_are_tags, of nyaa_sample_page] by auto
  ultimately show ?thesis using nyaa_page_rows [of sample_ents "\<lambda>_. 0" nyaa_sample_page "[]"]
    by (simp only: nyaa_page_parsed sum.inject) blast
qed

text \<open>
  C23: a post of the Nyaa source contains only what its row contains. It has a source and a source
  id, the digits of a link of the row to a torrent, and a URL made of that id; its title is that of
  the link; the magnet is empty or an unescaped \<open>magnet:\<close> link of the row; the date and the size are
  zero or what a timestamp and a centred cell of the row say.
\<close>

theorem nyaa_post_provenance:
  assumes "nyaa_row_post ents plat row = Some post"
  shows "rpSource post = SourceNyaa \<and> rpSourceID post \<noteq> [] \<and> list_all is_digit (rpSourceID post) \<and>
    rpURL post = ''https://nyaa.si/view/'' @ rpSourceID post \<and>
    (\<exists>a1 a2 inner. sublist (view_link a1 (rpSourceID post) a2 inner) row \<and>
       title_of ents (a1 @ a2) inner (rpTitle post)) \<and>
    (rpMagnet post = [] \<or> (\<exists>link. sublist (''href='' @ quoted link) row \<and> prefix ''magnet:'' link \<and>
       rpMagnet post = UnescapeString ents link)) \<and>
    (rpPublishedAt post = zero_time \<or>
      (\<exists>tok sec. sublist (''data-timestamp='' @ quoted tok) row \<and> atoi tok = Some sec \<and> rpPublishedAt post = time_Unix sec)) \<and>
    (rpSizeBytes post = 0 \<or>
      (\<exists>p tok q. sublist (''<td class='' @ quoted ''text-center'' @ ''>'' @ p @ tok @ q @ ''</td>'') row \<and>
         list_all re_space p \<and> list_all re_space q \<and> parseSize plat tok = Inr (rpSizeBytes post)))"
proof -
  obtain sid title where t: "nyaa_rowTitle ents row = (sid, title)" by (cases "nyaa_rowTitle ents row")
  with assms have sid: "sid \<noteq> []" and post: "post = \<lparr>rpTitle = title, rpMagnet = nyaa_rowMagnet ents row,
      rpSource = SourceNyaa, rpSourceID = sid, rpURL = ''https://nyaa.si/view/'' @ sid,
      rpPublishedAt = nyaa_rowPublishedAt row, rpSizeBytes = nyaa_rowSize plat row\<rparr>"
    by (auto simp: nyaa_row_post_def split: if_splits)
  from nyaa_rowTitle_provenance [OF t sid] obtain a1 a2 inner where
    link: "sublist (view_link a1 sid a2 inner) row" "list_all is_digit sid" "title_of ents (a1 @ a2) inner title" by blast
  have "nyaa_rowMagnet ents row = [] \<or> (\<exists>link. sublist (''href='' @ quoted link) row \<and> prefix ''magnet:'' link \<and>
       nyaa_rowMagnet ents row = UnescapeString ents link)"
    unfolding nyaa_rowMagnet_def using nyaa_magnet_found by (cases "FindStringSubmatch magnetRe row") fastforce+
  moreover have "nyaa_rowPublishedAt row = zero_time \<or>
      (\<exists>tok sec. sublist (''data-timestamp='' @ quoted tok) row \<and> atoi tok = Some sec \<and> nyaa_rowPublishedAt row = time_Unix sec)"
    unfolding nyaa_rowPublishedAt_def using nyaa_timestamp_found
    by (cases "FindStringSubmatch timestampRe row") (fastforce split: option.split)+
  moreover have "nyaa_rowSize plat row = 0 \<or>
      (\<exists>p tok q. sublist (''<td class='' @ quoted ''text-center'' @ ''>'' @ p @ tok @ q @ ''</td>'') row \<and>
         list_all re_space p \<and> list_all re_space q \<and> parseSize plat tok = Inr (nyaa_rowSize plat row))"
  proof (cases "FindStringSubmatch sizeCellRe row")
    case (Some m)
    from nyaa_size_found [OF this] Some show ?thesis
      unfolding nyaa_rowSize_def by (cases "parseSize plat (m ! 0)") (simp_all, blast)
  qed (simp add: nyaa_rowSize_def)
  ultimately show ?thesis using link sid unfolding post RawPost.simps by blast
qed

theorem nyaa_post_provenance_witness:
  "rpSourceID nyaa_sample_post \<noteq> [] \<and> list_all is_digit (rpSourceID nyaa_sample_post)"
  using nyaa_post_provenance [OF nyaa_row_parsed] by blast

text \<open>
  C32: what a Nyaa row says is what is read. An attribute whose value the site has escaped is read
  back unescaped; a timestamp is the instant it counts; a size written as a decimal number and a
  unit is less than one byte off, in spite of the floating-point arithmetic, and exact when it is a
  whole number of bytes, below \<open>2 ^ 50\<close>.
\<close>

theorem nyaa_values_read:
  assumes "basic_entities ents" "list_all attr_char name" "name \<noteq> []"
    and "CHR ''='' \<notin> set p" "p = [] \<or> \<not> attr_char (last p)"
    and "row = p' @ (''data-timestamp='' @ quoted (itoa sec)) @ q'" "0 \<le> sec" "sec < 2 ^ 62"
    and "\<forall>i < length p'. \<not> prefix (''data-timestamp='' @ [dq]) (drop i row)"
    and "list_all is_digit ip" "list_all is_digit (fraction fp)" "ip \<noteq> []" "list_all letter u"
    and "nyaa_unit (to_lower u) = Some k"
    and "dec_val (ip @ fraction fp) * k < 2 ^ 50 * 10 ^ length (fraction fp)"
  shows "attrValue ents (p @ (name @ ''='' @ quoted (EscapeString v)) @ q) name = v \<and>
    nyaa_rowPublishedAt row = sec * 1000000000 \<and>
    (\<exists>n. parseSize plat (decimal_text ip fp @ '' '' @ u) = Inr n \<and> 0 \<le> n \<and>
       \<bar>real_of_int n - real_of_int (dec_val (ip @ fraction fp) * k) / 10 ^ length (fraction fp)\<bar> < 1 \<and>
       (\<forall>N. dec_val (ip @ fraction fp) * k = N * 10 ^ length (fraction fp) \<longrightarrow> n = N))"
  using attrValue_written [OF assms(1-5)] nyaa_timestamp_written [OF assms(6-9)]
    parseSize_near [OF assms(10-15), of plat] scaled_whole by metis

theorem nyaa_values_read_witness:
  "attrValue sample_ents ('' '' @ (''title'' @ ''='' @ quoted (EscapeString ''A & B'')) @ []) ''title'' = ''A & B'' \<and>
   nyaa_rowPublishedAt (''<td data-timestamp='' @ quoted ''90'' @ ''>'') = 90000000000 \<and>
   parseSize (\<lambda>_. 0) ''1.5 GiB'' = Inr 1610612736"
proof -
  have i: "itoa 90 = ''90''" by code_simp
  let ?td = "''<td data-timestamp='' @ quoted ''90'' @ ''>''"
  have "attrValue sample_ents ('' '' @ (''title'' @ ''='' @ quoted (EscapeString ''A & B'')) @ []) ''title'' = ''A & B'' \<and>
    nyaa_rowPublishedAt ?td = 90 * 1000000000 \<and>
    (\<exists>n. parseSize (\<lambda>_. 0) (decimal_text ''1'' (Some ''5'') @ '' '' @ ''GiB'') = Inr n \<and> 0 \<le> n \<and>
       \<bar>real_of_int n - real_of_int (dec_val (''1'' @ fraction (Some ''5'')) * 1073741824) / 10 ^ length (fraction (Some ''5''))\<bar> < 1 \<and>
       (\<forall>N. dec_val (''1'' @ fraction (Some ''5'')) * 1073741824 = N * 10 ^ length (fraction (Some ''5'')) \<longrightarrow> n = N))"
  proof (rule nyaa_values_read [OF sample_ents])
    show "?td = ''<td '' @ (''data-timestamp='' @ quoted (itoa 90)) @ ''>''" by (simp add: i)
    show "\<forall>i < length ''<td ''. \<not> prefix (''data-timestamp='' @ [dq]) (drop i ?td)" by code_simp
    show "list_all attr_char ''title''" "list_all is_digit ''1''" "list_all is_digit (fraction (Some ''5''))" "list_all letter ''GiB''"
      "'' '' = [] \<or> \<not> attr_char (last '' '')"
      by code_simp+
    show "nyaa_unit (to_lower ''GiB'') = Some 1073741824" by code_simp
    show "dec_val (''1'' @ fraction (Some ''5'')) * 1073741824 < 2 ^ 50 * 10 ^ length (fraction (Some ''5''))" by code_simp
  qed simp_all
  moreover have "dec_val (''1'' @ fraction (Some ''5'')) * 1073741824 = 1610612736 * 10 ^ length (fraction (Some ''5''))" by code_simp
  moreover have "decimal_text ''1'' (Some ''5'') @ '' '' @ ''GiB'' = ''1.5 GiB''" by (simp add: decimal_text_def)
  ultimately show ?thesis by auto
qed

end
