(* ===== verification/Url.thy ===== *)
theory Url
  imports Takuhai_Prelude "HOL-Library.AList" "HOL-Library.List_Lexorder" "HOL-Library.Char_ord"
begin

text \<open>
  Query strings of URLs, the part of \<open>net/url\<close> the Nyaa source builds its page addresses with:
  escaping, \<open>Values.Set\<close>, \<open>Values.Encode\<close> and the parser behind \<open>URL.Query\<close>. The values of a query
  are an association list with distinct keys.
\<close>

section \<open>Definitions\<close>

type_synonym query_values = "(string \<times> string list) list"

definition unreserved :: "char \<Rightarrow> bool" where
  "unreserved c \<longleftrightarrow> is_lower c \<or> is_upper c \<or> is_digit c \<or> c \<in> set ''-_.~''"

definition upper_hex :: "nat \<Rightarrow> char" where
  "upper_hex n = ''0123456789ABCDEF'' ! n"

definition escape_byte :: "char \<Rightarrow> string" where
  "escape_byte c =
     (if unreserved c then [c]
      else if c = CHR '' '' then ''+''
      else [CHR ''%'', upper_hex (byte_of c div 16), upper_hex (byte_of c mod 16)])"

definition QueryEscape :: "string \<Rightarrow> string" where
  "QueryEscape s = concat (map escape_byte s)"

definition unhex :: "char \<Rightarrow> nat option" where
  "unhex c =
     (let b = byte_of c
      in if is_digit c then Some (b - 48)
         else if 97 \<le> b \<and> b \<le> 102 then Some (b - 87)
         else if 65 \<le> b \<and> b \<le> 70 then Some (b - 55) else None)"

fun QueryUnescape :: "string \<Rightarrow> string option" where
  "QueryUnescape [] = Some []"
| "QueryUnescape (c # s) =
     (if c = CHR ''%''
      then (case s of
              h # l # t \<Rightarrow>
                (case (unhex h, unhex l) of
                   (Some x, Some y) \<Rightarrow> map_option (Cons (char_of (16 * x + y))) (QueryUnescape t)
                 | _ \<Rightarrow> None)
            | _ \<Rightarrow> None)
      else map_option (Cons (if c = CHR ''+'' then CHR '' '' else c)) (QueryUnescape s))"

definition values_get :: "query_values \<Rightarrow> string \<Rightarrow> string list" where
  "values_get m k = (case map_of m k of None \<Rightarrow> [] | Some vs \<Rightarrow> vs)"

definition values_add :: "string \<Rightarrow> string \<Rightarrow> query_values \<Rightarrow> query_values" where
  "values_add k v m = AList.update k (values_get m k @ [v]) m"

definition values_Set :: "string \<Rightarrow> string \<Rightarrow> query_values \<Rightarrow> query_values" where
  "values_Set k v m = AList.update k [v] m"

fun joined :: "string list \<Rightarrow> string" where
  "joined [] = []"
| "joined [s] = s"
| "joined (s # t # ts) = s @ ''&'' @ joined (t # ts)"

definition values_pairs :: "query_values \<Rightarrow> (string \<times> string) list" where
  "values_pairs m = concat (map (\<lambda>(k, vs). map (Pair k) vs) m)"

definition pair_text :: "string \<times> string \<Rightarrow> string" where
  "pair_text = (\<lambda>(k, v). QueryEscape k @ ''='' @ QueryEscape v)"

definition values_Encode :: "query_values \<Rightarrow> string" where
  "values_Encode m = joined (map pair_text (values_pairs (sort_key fst m)))"

definition cut_all :: "string \<Rightarrow> char \<Rightarrow> string \<times> string" where
  "cut_all s b = (case str_cut s b of None \<Rightarrow> (s, []) | Some p \<Rightarrow> p)"

definition parse_pair :: "string \<Rightarrow> (string \<times> string) option" where
  "parse_pair key =
     (if CHR '';'' \<in> set key \<or> key = [] then None
      else case cut_all key (CHR ''='') of (k, v) \<Rightarrow>
        (case (QueryUnescape k, QueryUnescape v) of (Some k', Some v') \<Rightarrow> Some (k', v') | _ \<Rightarrow> None))"

lemma cut_all_shorter: "s \<noteq> [] \<Longrightarrow> length (snd (cut_all s b)) < length s"
  by (cases s) (auto simp: cut_all_def str_cut_def split: option.split)

function parse_query :: "query_values \<Rightarrow> string \<Rightarrow> query_values" where
  "parse_query m query =
     (if query = [] then m
      else parse_query
        (case parse_pair (fst (cut_all query (CHR ''&''))) of None \<Rightarrow> m | Some (k, v) \<Rightarrow> values_add k v m)
        (snd (cut_all query (CHR ''&''))))"
  by pat_completeness auto
termination by (relation "measure (\<lambda>(m, q). length q)") (auto dest: cut_all_shorter)

declare parse_query.simps [simp del]

definition query_of :: "string \<Rightarrow> query_values" where
  "query_of raw = parse_query [] raw"

section \<open>Lemmas\<close>

lemma unhex_upper: "n < 16 \<Longrightarrow> unhex (upper_hex n) = Some n"
proof -
  have "list_all (\<lambda>n. unhex (upper_hex n) = Some n) [0..<16]" by code_simp
  then show "n < 16 \<Longrightarrow> unhex (upper_hex n) = Some n" by (simp add: list_all_iff)
qed

lemma byte_halves: "byte_of c div 16 < 16" "byte_of c mod 16 < 16"
proof -
  have "byte_of c < 16 * 16" by (simp add: byte_of_def)
  then show "byte_of c div 16 < 16" by (rule less_mult_imp_div_less)
qed simp

lemma char_of_halves: "char_of (16 * (byte_of c div 16) + byte_of c mod 16) = c"
  by (simp add: byte_of_def)

lemma Unescape_byte: "QueryUnescape (escape_byte c @ s) = map_option (Cons c) (QueryUnescape s)"
proof -
  have "unreserved c \<Longrightarrow> c \<noteq> CHR ''%'' \<and> c \<noteq> CHR ''+''"
    by (auto simp: unreserved_def is_lower_def is_upper_def is_digit_def byte_of_def)
  then show ?thesis using char_of_halves [of c] byte_halves [of c] by (auto simp: escape_byte_def unhex_upper)
qed

lemma Unescape_Escape_query: "QueryUnescape (QueryEscape s) = Some s"
  by (induction s) (simp_all add: QueryEscape_def Unescape_byte)

definition query_char :: "char \<Rightarrow> bool" where
  "query_char c \<longleftrightarrow> unreserved c \<or> c = CHR ''+'' \<or> c = CHR ''%''"

lemma upper_hex_char: "n < 16 \<Longrightarrow> query_char (upper_hex n)"
proof -
  have "list_all (\<lambda>n. query_char (upper_hex n)) [0..<16]" by code_simp
  then show "n < 16 \<Longrightarrow> query_char (upper_hex n)" by (simp add: list_all_iff)
qed

lemma Escape_chars: "list_all query_char (QueryEscape s)"
proof -
  have "list_all query_char (escape_byte c)" for c
    using byte_halves [of c] by (auto simp: escape_byte_def upper_hex_char) (auto simp: query_char_def)
  then show ?thesis by (induction s) (simp_all add: QueryEscape_def)
qed

lemma query_char_not: "query_char c \<Longrightarrow> c \<notin> set ''&=;''"
  by (auto simp: query_char_def unreserved_def is_lower_def is_upper_def is_digit_def byte_of_def)

lemma Escape_no: "c \<in> set ''&=;'' \<Longrightarrow> c \<notin> set (QueryEscape s)"
  using Escape_chars [of s] query_char_not by (auto simp: list_all_iff)

lemma cut_all_first: "b \<notin> set u \<Longrightarrow> cut_all (u @ b # v) b = (u, v)"
proof -
  assume "b \<notin> set u"
  then have "index_byte (u @ b # v) b = Some (length u)" by (induction u) auto
  then show ?thesis by (simp add: cut_all_def str_cut_def)
qed

lemma cut_all_none: "b \<notin> set u \<Longrightarrow> cut_all u b = (u, [])"
proof -
  assume "b \<notin> set u"
  then have none: "index_byte u b = None" by (induction u) auto
  show ?thesis by (simp only: cut_all_def str_cut_def none option.case)
qed

lemma parse_pair_text: "parse_pair (pair_text (k, v)) = Some (k, v)"
  using Escape_no [of _ k] Escape_no [of _ v] cut_all_first [of "CHR ''=''" "QueryEscape k" "QueryEscape v"]
  by (simp add: parse_pair_def pair_text_def Unescape_Escape_query)

lemma pair_text_no: "CHR ''&'' \<notin> set (pair_text p)"
  using Escape_no by (cases p) (simp add: pair_text_def)

lemma pair_text_ne: "pair_text p \<noteq> []"
  by (cases p) (simp add: pair_text_def)

lemma parse_query_joined:
  "parse_query m (joined (map pair_text ps)) = fold (\<lambda>(k, v). values_add k v) ps m"
proof (induction ps arbitrary: m)
  case Nil
  then show ?case by (simp add: parse_query.simps)
next
  case (Cons p ps)
  obtain k v where p: "p = (k, v)" by (cases p)
  show ?case
  proof (cases ps)
    case Nil
    then show ?thesis
      using pair_text_ne [of p] cut_all_none [OF pair_text_no, of p]
      by (simp add: parse_query.simps [of m] parse_query.simps [of _ "[]"] parse_pair_text p)
  next
    case (Cons q qs)
    then have j: "joined (map pair_text (p # ps)) = pair_text p @ CHR ''&'' # joined (map pair_text ps)" by simp
    have "parse_query m (joined (map pair_text (p # ps))) = parse_query (values_add k v m) (joined (map pair_text ps))"
      unfolding j by (subst parse_query.simps) (simp add: cut_all_first [OF pair_text_no] parse_pair_text p)
    then show ?thesis using Cons.IH by (simp add: p)
  qed
qed

lemma values_get_add: "values_get (values_add k v m) k' = (if k' = k then values_get m k @ [v] else values_get m k')"
  by (simp add: values_get_def values_add_def update_conv')

lemma values_get_fold:
  "values_get (fold (\<lambda>(k, v). values_add k v) ps m) k = values_get m k @ map snd (filter (\<lambda>p. fst p = k) ps)"
  by (induction ps arbitrary: m) (auto simp: values_get_add split: prod.splits)

lemma values_pairs_filter:
  "distinct (map fst m) \<Longrightarrow> map snd (filter (\<lambda>p. fst p = k) (values_pairs m)) = values_get m k"
proof (induction m)
  case (Cons e m)
  obtain k0 vs where e: "e = (k0, vs)" by (cases e)
  have "filter (\<lambda>p. fst p = k) (map (Pair k0) vs) = (if k0 = k then map (Pair k0) vs else [])"
    by (induction vs) auto
  moreover have "k0 = k \<Longrightarrow> values_get m k = []"
    using Cons(2) e by (force simp: values_get_def split: option.split dest: map_of_SomeD)
  ultimately show ?case using Cons e by (auto simp: values_pairs_def values_get_def comp_def)
qed (simp add: values_pairs_def values_get_def)

lemma values_get_sort:
  assumes "distinct (map fst m)"
  shows "values_get (sort_key fst m) k = values_get m k" "distinct (map fst (sort_key fst m))"
proof -
  show d: "distinct (map fst (sort_key fst m))" using assms by (simp add: distinct_map)
  have "map_of (sort_key fst m) = map_of m" using d assms by (intro map_of_eqI) auto
  then show "values_get (sort_key fst m) k = values_get m k" by (simp add: values_get_def)
qed

text \<open>What is encoded is parsed back.\<close>

lemma query_roundtrip:
  assumes "distinct (map fst m)"
  shows "values_get (query_of (values_Encode m)) k = values_get m k"
  using values_get_sort [OF assms]
  by (simp add: query_of_def values_Encode_def parse_query_joined values_get_fold values_pairs_filter)
     (simp add: values_get_def)

lemma values_Set_get: "values_get (values_Set k v m) k' = (if k' = k then [v] else values_get m k')"
  by (simp add: values_get_def values_Set_def update_conv')

lemma values_Set_distinct: "distinct (map fst m) \<Longrightarrow> distinct (map fst (values_Set k v m))"
  by (simp add: values_Set_def distinct_update)

lemma parse_query_distinct: "distinct (map fst m) \<Longrightarrow> distinct (map fst (parse_query m q))"
proof (induction m q rule: parse_query.induct)
  case (1 m query)
  then show ?case
    by (subst parse_query.simps) (auto simp: values_add_def distinct_update split: option.split)
qed

lemma query_of_distinct: "distinct (map fst (query_of raw))"
  by (simp add: query_of_def parse_query_distinct)

end
