(* ===== verification/Sources.thy ===== *)
theory Sources
  imports Crawl_Server Dmhy Nyaa Url Rest_Store
begin

text \<open>
  The crawlers of the two sources, \<open>sources/dmhy/crawl.go\<close>, \<open>sources/dmhy/server.go\<close>,
  \<open>sources/nyaa/crawl.go\<close> and \<open>sources/nyaa/server.go\<close>, and the constructors of \<open>pkg/crawl\<close>: the
  wiring of a fetcher, a page cache, a parser and the walk.

  \<^item> \<open>e\<close> is what the world answers to the fetches of a call, \<open>wall\<close> what the clock reads.
  \<^item> \<open>cache_at\<close> gives, for every page, the page cache of DMHY at the time the call looks the page up
    and the two clock readings of the lookup and the store. Other requests may change the cache in
    between, so that it is not one state.
  \<^item> \<open>ops\<close> is what \<open>net/url\<close> does to a URL as a whole; its query strings are modelled in \<open>Url\<close>.
\<close>

section \<open>Definitions\<close>

subsection \<open>Constructors of the crawl package\<close>

record crawl_Config =
  cfSource :: string
  cfFetch :: "int \<Rightarrow> string + string"
  cfParse :: "string \<Rightarrow> string + RawPost list"
  cfThreshold :: int
  cfFloorReason :: string
  cfParseErrorContext :: "(int \<Rightarrow> string) option"
  cfNow :: "time option"
  cfMetrics :: bool

definition crawl_NewCrawler :: "time \<Rightarrow> crawl_Config \<Rightarrow> Crawler" where
  "crawl_NewCrawler wall c =
     \<lparr>source = cfSource c, fetch = cfFetch c, parse = cfParse c, threshold = cfThreshold c,
      floorReason = cfFloorReason c, parseErrorContext = cfParseErrorContext c,
      now = (case cfNow c of None \<Rightarrow> wall | Some t \<Rightarrow> t), metrics = cfMetrics c\<rparr>"

definition crawl_NewServer :: "string \<Rightarrow> Crawler \<Rightarrow> CrawlerMetrics option \<Rightarrow> crawl_server" where
  "crawl_NewServer src c m = \<lparr>svSource = src, svCrawler = c, svMetrics = m\<rparr>"

record HTTPFetcherConfig =
  fcSource :: string
  fcBuildURL :: "int \<Rightarrow> string + string"
  fcRatePerSec :: float_val
  fcMetrics :: "CrawlerMetrics option"

definition is_positive :: "float_val \<Rightarrow> bool" where
  "is_positive v = (case v of Fin neg x \<Rightarrow> \<not> neg \<and> fst x \<noteq> 0 | Infinite neg \<Rightarrow> \<not> neg | NaN \<Rightarrow> False)"

definition NewHTTPFetcher :: "HTTPFetcherConfig \<Rightarrow> HTTPFetcher" where
  "NewHTTPFetcher c =
     \<lparr>hfSource = fcSource c, hfBuildURL = fcBuildURL c, hfLimited = is_positive (fcRatePerSec c),
      hfMetrics = fcMetrics c\<rparr>"

definition page_fetch :: "fetch_env \<Rightarrow> HTTPFetcher \<Rightarrow> int \<Rightarrow> string + string" where
  "page_fetch e f page = map_sum failure_text id (fst (FetchPage e f page))"

text \<open>The wire response of a source, with its unexported fields.\<close>

definition crawlResponse :: "CrawlResponse \<Rightarrow> CrawlResponse" where
  "crawlResponse resp =
     \<lparr>Posts = Posts resp, NextCursor = NextCursor resp, HasMore = HasMore resp,
      StopReason = StopReason resp, PagesFetched = PagesFetched resp, LastPage = LastPage resp\<rparr>"

subsection \<open>DMHY\<close>

definition trim_right_slash :: "string \<Rightarrow> string" where
  "trim_right_slash s = rev (dropWhile (\<lambda>c. c = CHR ''/'') (rev s))"

definition archivePageURL :: "string \<Rightarrow> int \<Rightarrow> int \<Rightarrow> string" where
  "archivePageURL base sortID page =
     (let b = trim_right_slash base
      in if sortID > 0
         then b @ ''/topics/list/sort_id/'' @ itoa sortID @ ''/page/'' @ itoa page
         else b @ ''/topics/list/page/'' @ itoa page)"

definition dmhy_Threshold :: int where "dmhy_Threshold = 2"

record dmhy_Crawler =
  dcFetch :: "int \<Rightarrow> int \<Rightarrow> string + string"
  dcThreshold :: int
  dcSortID :: int
  dcNow :: time
  dcMetrics :: bool

definition dmhy_NewCrawler :: "time \<Rightarrow> (int \<Rightarrow> int \<Rightarrow> string + string) \<Rightarrow> int \<Rightarrow> dmhy_Crawler" where
  "dmhy_NewCrawler wall fn thr =
     \<lparr>dcFetch = fn, dcThreshold = thr, dcSortID = 0, dcNow = wall, dcMetrics = False\<rparr>"

definition dmhy_shared :: "platform \<Rightarrow> dmhy_Crawler \<Rightarrow> Crawler" where
  "dmhy_shared plat c = crawl_NewCrawler (dcNow c)
     \<lparr>cfSource = ''dmhy'', cfFetch = (\<lambda>page. dcFetch c (dcSortID c) page), cfParse = ParseArchivePage plat,
      cfThreshold = dcThreshold c, cfFloorReason = ''archive_floor'',
      cfParseErrorContext = Some (\<lambda>page. ''sort_id '' @ itoa (dcSortID c) @ '' page '' @ itoa page),
      cfNow = Some (dcNow c), cfMetrics = dcMetrics c\<rparr>"

definition dmhy_Crawl ::
  "platform \<Rightarrow> dmhy_Crawler \<Rightarrow> CrawlRequest \<Rightarrow> duration \<Rightarrow> crawl_error + CrawlResponse" where
  "dmhy_Crawl plat c req lookback = map_sum id crawlResponse (fst (Crawl (dmhy_shared plat c) req lookback))"

definition dmhy_parseCursor :: "string \<Rightarrow> crawl_error + (int \<times> int)" where
  "dmhy_parseCursor cursor = ParseCursor ''dmhy'' cursor"

definition dmhy_fetcher :: "string \<Rightarrow> int \<Rightarrow> float_val \<Rightarrow> CrawlerMetrics option \<Rightarrow> HTTPFetcher" where
  "dmhy_fetcher baseURL sortID rate m = NewHTTPFetcher
     \<lparr>fcSource = ''dmhy'', fcBuildURL = (\<lambda>page. Inr (archivePageURL baseURL sortID page)),
      fcRatePerSec = rate, fcMetrics = m\<rparr>"

type_synonym cache_view = "int \<Rightarrow> pageCache \<times> time \<times> time"

text \<open>\<open>NewServerWithMetricsAndLogger\<close>; a page cache is used when its lifetime is positive.\<close>

definition dmhy_fetch ::
  "fetch_env \<Rightarrow> cache_view \<Rightarrow> string \<Rightarrow> int \<Rightarrow> float_val \<Rightarrow> duration \<Rightarrow> CrawlerMetrics option \<Rightarrow>
   int \<Rightarrow> int \<Rightarrow> string + string" where
  "dmhy_fetch e cache_at baseURL sortID rate ttl m =
     (let direct = (\<lambda>_ page. page_fetch e (dmhy_fetcher baseURL sortID rate m) page)
      in if ttl > 0
         then (\<lambda>sid page. case cache_at page of (c, t1, t2) \<Rightarrow> fst (wrap direct c t1 t2 sid page))
         else direct)"

definition dmhy_server ::
  "platform \<Rightarrow> fetch_env \<Rightarrow> time \<Rightarrow> cache_view \<Rightarrow> string \<Rightarrow> int \<Rightarrow> float_val \<Rightarrow> duration \<Rightarrow>
   CrawlerMetrics option \<Rightarrow> crawl_server" where
  "dmhy_server plat e wall cache_at baseURL sortID rate ttl m =
     (let c = dmhy_NewCrawler wall (dmhy_fetch e cache_at baseURL sortID rate ttl m) dmhy_Threshold;
          c' = c\<lparr>dcSortID := sortID, dcMetrics := m \<noteq> None\<rparr>
      in crawl_NewServer ''dmhy'' (dmhy_shared plat c') m)"

subsection \<open>Nyaa\<close>

definition nyaa_Threshold :: int where "nyaa_Threshold = 2"

record nyaa_Crawler =
  ncFetch :: "int \<Rightarrow> string + string"
  ncThreshold :: int
  ncNow :: time
  ncMetrics :: bool

definition nyaa_NewCrawler :: "time \<Rightarrow> (int \<Rightarrow> string + string) \<Rightarrow> int \<Rightarrow> nyaa_Crawler" where
  "nyaa_NewCrawler wall fn thr =
     \<lparr>ncFetch = fn, ncThreshold = thr, ncNow = wall, ncMetrics = False\<rparr>"

definition nyaa_shared :: "(string \<Rightarrow> int list option) \<Rightarrow> platform \<Rightarrow> nyaa_Crawler \<Rightarrow> Crawler" where
  "nyaa_shared ents plat c = crawl_NewCrawler (ncNow c)
     \<lparr>cfSource = ''nyaa'', cfFetch = ncFetch c, cfParse = ParseListingPage ents plat,
      cfThreshold = ncThreshold c, cfFloorReason = ''feed_floor'', cfParseErrorContext = None,
      cfNow = Some (ncNow c), cfMetrics = ncMetrics c\<rparr>"

definition nyaa_Crawl ::
  "(string \<Rightarrow> int list option) \<Rightarrow> platform \<Rightarrow> nyaa_Crawler \<Rightarrow> CrawlRequest \<Rightarrow> duration \<Rightarrow> crawl_error + CrawlResponse" where
  "nyaa_Crawl ents plat c req lookback = map_sum id crawlResponse (fst (Crawl (nyaa_shared ents plat c) req lookback))"

definition nyaa_parseCursor :: "string \<Rightarrow> crawl_error + (int \<times> int)" where
  "nyaa_parseCursor cursor = ParseCursor ''nyaa'' cursor"

text \<open>A URL: its path and its query, and the rest of it.\<close>

record url =
  uPath :: string
  uRawQuery :: string
  uOther :: "string list"

record url_ops =
  uoParse :: "string \<Rightarrow> string + url"
  uoString :: "url \<Rightarrow> string"
  uoQuote :: "string \<Rightarrow> string"

definition set_nonempty :: "string \<Rightarrow> string \<Rightarrow> query_values \<Rightarrow> query_values" where
  "set_nonempty k v q = (if v \<noteq> [] then values_Set k v q else q)"

definition listing_query :: "string \<Rightarrow> string \<Rightarrow> string \<Rightarrow> int \<Rightarrow> query_values \<Rightarrow> query_values" where
  "listing_query query category flt page q =
     set_nonempty ''f'' flt (set_nonempty ''c'' category (set_nonempty ''q'' query (values_Set ''p'' (itoa page) q)))"

definition listingPageURL ::
  "url_ops \<Rightarrow> string \<Rightarrow> string \<Rightarrow> string \<Rightarrow> string \<Rightarrow> int \<Rightarrow> string + string" where
  "listingPageURL ops base query category flt page =
     (if prefix ''file://'' base then Inr (trim_right_slash base @ ''/page-'' @ itoa page @ ''.html'')
      else case uoParse ops (trim_right_slash base) of
        Inl err \<Rightarrow> Inl (''nyaa: parse base url '' @ uoQuote ops base @ '': '' @ err)
      | Inr u \<Rightarrow>
          (let u1 = (if uPath u = [] then u\<lparr>uPath := ''/''\<rparr> else u);
               q = listing_query query category flt page (query_of (uRawQuery u1))
           in Inr (uoString ops (u1\<lparr>uRawQuery := values_Encode q\<rparr>))))"

definition nyaa_fetcher ::
  "url_ops \<Rightarrow> string \<Rightarrow> string \<Rightarrow> string \<Rightarrow> string \<Rightarrow> float_val \<Rightarrow> CrawlerMetrics option \<Rightarrow> HTTPFetcher" where
  "nyaa_fetcher ops baseURL query category flt rate m = NewHTTPFetcher
     \<lparr>fcSource = ''nyaa'', fcBuildURL = listingPageURL ops baseURL query category flt,
      fcRatePerSec = rate, fcMetrics = m\<rparr>"

definition nyaa_server ::
  "(string \<Rightarrow> int list option) \<Rightarrow> platform \<Rightarrow> fetch_env \<Rightarrow> time \<Rightarrow> url_ops \<Rightarrow> string \<Rightarrow> string \<Rightarrow> string \<Rightarrow> string \<Rightarrow>
   float_val \<Rightarrow> CrawlerMetrics option \<Rightarrow> crawl_server" where
  "nyaa_server ents plat e wall ops baseURL query category flt rate m =
     (let fetcher = nyaa_fetcher ops baseURL query category flt rate m;
          c = (nyaa_NewCrawler wall (page_fetch e fetcher) nyaa_Threshold)\<lparr>ncMetrics := m \<noteq> None\<rparr>
      in crawl_NewServer ''nyaa'' (nyaa_shared ents plat c) m)"

section \<open>Lemmas\<close>

lemmas server_defs = dmhy_server_def dmhy_shared_def dmhy_NewCrawler_def nyaa_server_def nyaa_shared_def
  nyaa_NewCrawler_def crawl_NewServer_def crawl_NewCrawler_def Let_def

lemma page_rows_empty:
  assumes "page_rows c page = Inr []"
  shows "\<exists>body. fetch c page = Inr body \<and> parse c body = Inr []"
proof -
  from assms obtain body where b: "fetch c page = Inr body"
    by (cases "fetch c page") (auto simp: page_rows_def)
  with assms have "parse c body = Inr []"
    by (cases "parse c body") (auto simp: page_rows_def parsePage_def Let_def split: if_splits)
  with b show ?thesis by blast
qed

lemma dmhy_server_crawler [simp]:
  "parse (svCrawler (dmhy_server plat e wall cache_at baseURL sortID rate ttl m)) = ParseArchivePage plat"
  "fetch (svCrawler (dmhy_server plat e wall cache_at baseURL sortID rate ttl m)) =
     dmhy_fetch e cache_at baseURL sortID rate ttl m sortID"
  "threshold (svCrawler (dmhy_server plat e wall cache_at baseURL sortID rate ttl m)) = 2"
  "source (svCrawler (dmhy_server plat e wall cache_at baseURL sortID rate ttl m)) = ''dmhy''"
  "svSource (dmhy_server plat e wall cache_at baseURL sortID rate ttl m) = ''dmhy''"
  by (simp_all add: server_defs dmhy_Threshold_def fun_eq_iff)

lemma nyaa_server_crawler [simp]:
  "parse (svCrawler (nyaa_server ents plat e wall ops baseURL query category flt rate m)) = ParseListingPage ents plat"
  "fetch (svCrawler (nyaa_server ents plat e wall ops baseURL query category flt rate m)) =
     page_fetch e (nyaa_fetcher ops baseURL query category flt rate m)"
  "threshold (svCrawler (nyaa_server ents plat e wall ops baseURL query category flt rate m)) = 2"
  "source (svCrawler (nyaa_server ents plat e wall ops baseURL query category flt rate m)) = ''nyaa''"
  "svSource (nyaa_server ents plat e wall ops baseURL query category flt rate m) = ''nyaa''"
  by (simp_all add: server_defs nyaa_Threshold_def)

text \<open>A fetched body was the body of a 200 answer, or a file.\<close>

definition served :: "fetch_env \<Rightarrow> string \<Rightarrow> string \<Rightarrow> bool" where
  "served e target body \<longleftrightarrow>
     feDo e target = Inr (200, Inr body) \<or> (\<exists>path. feReadFile e path = Inr body) \<and> prefix ''file://'' target"

lemma page_fetch_served:
  assumes "page_fetch e f page = Inr body"
  shows "\<exists>target. hfBuildURL f page = Inr target \<and> served e target body"
proof -
  obtain ms where "FetchPage e f page = (Inr body, ms)"
    using assms by (cases "FetchPage e f page"; cases "fst (FetchPage e f page)") (auto simp: page_fetch_def)
  from FetchPage_sound [OF this] show ?thesis by (auto simp: served_def)
qed

lemma dmhy_fetched:
  assumes "dmhy_fetch e cache_at baseURL sortID rate ttl m sortID page = Inr body"
  shows "served e (archivePageURL baseURL sortID page) body \<or>
    0 < ttl \<and> (case cache_at page of (c, t1, t2) \<Rightarrow> cache_get c t1 (pageCacheKey sortID page) = Some body)"
proof (cases "0 < ttl")
  case False
  with assms have "page_fetch e (dmhy_fetcher baseURL sortID rate m) page = Inr body" by (simp add: dmhy_fetch_def Let_def)
  from page_fetch_served [OF this] show ?thesis by (simp add: dmhy_fetcher_def NewHTTPFetcher_def)
next
  case True
  obtain c t1 t2 where v: "cache_at page = (c, t1, t2)" by (cases "cache_at page")
  show ?thesis
  proof (cases "cache_get c t1 (pageCacheKey sortID page)")
    case None
    with assms v True have "page_fetch e (dmhy_fetcher baseURL sortID rate m) page = Inr body"
      by (auto simp: dmhy_fetch_def wrap_def Let_def split: sum.splits)
    from page_fetch_served [OF this] show ?thesis by (simp add: dmhy_fetcher_def NewHTTPFetcher_def)
  next
    case (Some b)
    with assms v True show ?thesis by (simp add: dmhy_fetch_def wrap_def Let_def)
  qed
qed

text \<open>
  The listing pages of Nyaa from which no post is read: a listing without rows, or one in which no
  row has a link to a torrent.
\<close>

definition torrentless :: "string \<Rightarrow> bool" where
  "torrentless html \<longleftrightarrow>
     \<not> contains row_tags html \<and> (has_list_table html \<or> MatchString noResultsRe html) \<or>
     (\<exists>pre rows. html = pre @ concat rows \<and> rows \<noteq> [] \<and> \<not> contains row_tags pre \<and>
        (\<forall>row \<in> set rows. begins row_tags row \<and> \<not> contains row_tags (tl row) \<and> \<not> MatchString viewAnchorRe row))"

lemma ParseListingPage_torrentless:
  assumes "ParseListingPage ents plat html = Inr []"
  shows "torrentless html"
proof (cases "contains row_tags html")
  case True
  let ?rows = "slices html (occurrences row_tags html)"
  note sl = slices_occurrences [OF row_tags_are_tags, of html]
  from True have ne: "occurrences row_tags html \<noteq> []" using occurrences_Nil [OF row_tags_are_tags] by blast
  with sl(1) obtain pre where "html = pre @ concat ?rows" "\<not> contains row_tags pre" by blast
  moreover have "?rows \<noteq> []" using ne sl(2) by auto
  moreover have "nyaa_row_post ents plat row = None" if "row \<in> set ?rows" for row
    using assms True that by (auto simp: ParseListingPage_eq List.map_filter_def filter_empty_conv)
  then have "\<not> MatchString viewAnchorRe row" if "row \<in> set ?rows" for row
    using that by (simp add: nyaa_row_post_None)
  ultimately show ?thesis unfolding torrentless_def using sl(3) by blast
qed (use assms in \<open>auto simp: torrentless_def ParseListingPage_eq split: if_splits\<close>)

text \<open>The pages at which a walk of a server found the end.\<close>

lemma floor_pages:
  assumes "crawl_serve ce sv meth body = (Crawled r, ms)" "source (svCrawler sv) = svSource sv"
    and "\<not> HasMore r" "StopReason r \<noteq> ''lookback_boundary''" "j \<in> {0..<threshold (svCrawler sv)}"
  shows "\<exists>html. fetch (svCrawler sv) (s64 (LastPage r - j)) = Inr html \<and> parse (svCrawler sv) html = Inr []"
proof -
  obtain req lookback where
    v: "valid_crawl sv body = Some (req, lookback)" and r: "fst (Crawl (svCrawler sv) req lookback) = Inr r"
    using assms(1) by (rule crawl_serve_cases) auto
  from v obtain po where "ParseCursor (source (svCrawler sv)) (crCursor req) = Inr po"
    unfolding assms(2) by (auto simp: valid_crawl_def split: option.splits sum.splits)
  from Crawl_floor_pages [OF this, of lookback] r assms(3-5)
  have "page_rows (svCrawler sv) (s64 (LastPage r - j)) = Inr []" by auto
  then show ?thesis by (rule page_rows_empty)
qed

text \<open>A row without a title cell has no source id.\<close>

lemma dmhy_row_without_title:
  assumes "FindStringSubmatch titleCellRe row = None"
  shows "missing_source (row_post plat row)"
proof -
  have "str_index [] view_marker = None" "trim_space [] = []"
    by (simp_all add: view_marker_def trim_space_def trim_left_def)
  with assms show ?thesis by (simp add: row_post_def rowTitle_def rowSourceID_def missing_source_def)
qed

text \<open>One such row in a batch is enough for \<open>/ingest\<close> to refuse all of it.\<close>

lemma dmhy_row_without_title_blocks:
  assumes "FindStringSubmatch titleCellRe row = None" "row_post plat row \<in> set posts"
    and "qMethod r = ''POST''" "Option.bind (qBody r) (decIngest dec) = Some posts"
  shows "hrStatus (fst (handleIngest dec (service env m) st r)) = 400 \<and>
    bDb (snd (snd (handleIngest dec (service env m) st r))) = bDb st"
  using assms dmhy_row_without_title [OF assms(1), of plat]
  by (auto simp: handleIngest_def requirePost_def reply_def Let_def)

text \<open>A post of a Nyaa page is never refused for its source.\<close>

lemma digits_solid: "list_all is_digit s \<Longrightarrow> trim_space s = s"
  by (rule trim_space_all_solid) (auto simp: list_all_iff nyaa_solid)

lemma nyaa_posts_have_source:
  assumes "ParseListingPage ents plat body = Inr posts" "post \<in> set posts"
  shows "\<not> missing_source post"
proof -
  from assms have "contains row_tags body" by (auto simp: ParseListingPage_eq split: if_splits)
  with assms obtain row where "nyaa_row_post ents plat row = Some post"
    by (auto simp: ParseListingPage_eq List.map_filter_def)
  then obtain sid title where t: "nyaa_rowTitle ents row = (sid, title)" "sid \<noteq> []" "rpSource post = SourceNyaa" "rpSourceID post = sid"
    by (auto simp: nyaa_row_post_def split: prod.splits if_splits)
  moreover from nyaa_rowTitle_provenance [OF t(1,2)] have "list_all is_digit sid" by blast
  moreover have "trim_space ''nyaa'' = ''nyaa''"
    by (rule trim_space_all_solid) (simp add: nyaa_solid letter_def is_lower_def byte_of_def)
  ultimately show ?thesis by (simp add: missing_source_def digits_solid SourceNyaa_def)
qed

text \<open>The values the Nyaa source sets, and the ones of the base URL it keeps.\<close>

lemma listing_query_get:
  "values_get (listing_query query category flt page q) k =
     (if k = ''f'' \<and> flt \<noteq> [] then [flt]
      else if k = ''c'' \<and> category \<noteq> [] then [category]
      else if k = ''q'' \<and> query \<noteq> [] then [query]
      else if k = ''p'' then [itoa page] else values_get q k)"
  by (simp add: listing_query_def set_nonempty_def values_Set_get)

lemma listing_query_distinct: "distinct (map fst q) \<Longrightarrow> distinct (map fst (listing_query query category flt page q))"
  by (simp add: listing_query_def set_nonempty_def values_Set_distinct)

section \<open>Properties\<close>

text \<open>
  C8: the end of an archive is real. When \<open>POST /crawl\<close> of the DMHY server answers that there is
  nothing more, for another reason than the lookback, then the last two pages it asked for were
  both answered 200 (or read from a file, or taken from the page cache before they expired),
  carried the listing table and had no content row: a failed fetch, another page or a truncated one
  is never taken for the end. The last two pages of a Nyaa server were answered too, and were
  listing pages without a torrent: pages without rows that carry the listing table or say that there
  are no results, or pages none of whose rows has a link to a torrent, which count as the end as well.
\<close>

theorem floor_is_real:
  assumes "crawl_serve ce sv meth body = (Crawled r, ms)" "\<not> HasMore r" "StopReason r \<noteq> ''lookback_boundary''"
    and "j \<in> {0, 1}" "page = s64 (LastPage r - j)"
  shows "(sv = dmhy_server plat e wall cache_at baseURL sortID rate ttl m \<longrightarrow>
      (\<exists>html. (served e (archivePageURL baseURL sortID page) html \<or>
          0 < ttl \<and> (case cache_at page of (c, t1, t2) \<Rightarrow> cache_get c t1 (pageCacheKey sortID page) = Some html)) \<and>
        sublist list_anchor html \<and> \<not> sublist row_tag html)) \<and>
    (sv = nyaa_server ents plat e wall ops baseURL query category flt rate m \<longrightarrow>
      (\<exists>target html. listingPageURL ops baseURL query category flt page = Inr target \<and> served e target html \<and>
        torrentless html))"
proof (intro conjI impI)
  assume sv: "sv = dmhy_server plat e wall cache_at baseURL sortID rate ttl m"
  then have "\<exists>html. fetch (svCrawler sv) page = Inr html \<and> parse (svCrawler sv) html = Inr []"
    using floor_pages [OF assms(1) _ assms(2,3), of j] assms(4,5) by auto
  then obtain html where "dmhy_fetch e cache_at baseURL sortID rate ttl m sortID page = Inr html"
    "ParseArchivePage plat html = Inr []" unfolding sv by auto
  with dmhy_fetched show "\<exists>html. (served e (archivePageURL baseURL sortID page) html \<or>
          0 < ttl \<and> (case cache_at page of (c, t1, t2) \<Rightarrow> cache_get c t1 (pageCacheKey sortID page) = Some html)) \<and>
        sublist list_anchor html \<and> \<not> sublist row_tag html"
    by (metis ParseArchivePage_empty)
next
  assume sv: "sv = nyaa_server ents plat e wall ops baseURL query category flt rate m"
  then have "\<exists>html. fetch (svCrawler sv) page = Inr html \<and> parse (svCrawler sv) html = Inr []"
    using floor_pages [OF assms(1) _ assms(2,3), of j] assms(4,5) by auto
  then obtain html where h: "page_fetch e (nyaa_fetcher ops baseURL query category flt rate m) page = Inr html"
    "ParseListingPage ents plat html = Inr []" unfolding sv by auto
  from page_fetch_served [OF h(1)] ParseListingPage_torrentless [OF h(2)] show "\<exists>target html. listingPageURL ops baseURL query category flt page = Inr target \<and>
      served e target html \<and> torrentless html"
    by (auto simp: nyaa_fetcher_def NewHTTPFetcher_def)
qed

definition dmhy_world :: fetch_env where
  "dmhy_world =
     \<lparr>feWait = None, feReadFile = (\<lambda>_. Inl []), feNewRequest = (\<lambda>_. None),
      feDo = (\<lambda>target. Inr (200, Inr (if target = archivePageURL ''http://d/'' 2 1 then dmhy_page
        else ''<table '' @ list_anchor @ ''></table>''))), feDuration = 0\<rparr>"

definition sample_dmhy_server :: crawl_server where
  "sample_dmhy_server =
     dmhy_server (\<lambda>_. 0) dmhy_world 0 (\<lambda>_. (newPageCache 60, 0, 0)) ''http://d/'' 2 NaN 60 None"

definition dmhy_floor_reply :: crawl_reply where
  "dmhy_floor_reply = fst (crawl_serve sample_crawl_env sample_dmhy_server ''POST'' (Some sample_crawl_body))"

abbreviation dmhy_floor_response :: CrawlResponse where
  "dmhy_floor_response \<equiv> \<lparr>Posts = [row_post (\<lambda>_. 0) dmhy_row], NextCursor = [], HasMore = False,
     StopReason = ''archive_floor'', PagesFetched = 3, LastPage = 3\<rparr>"

lemma dmhy_floor_reply: "dmhy_floor_reply = Crawled dmhy_floor_response"
  unfolding dmhy_floor_reply_def
proof (rule crawl_serve_ok [OF sample_valid_crawl])
  show "svSource sample_dmhy_server = ''dmhy''" by (simp add: sample_dmhy_server_def server_defs)
  show "fst (Crawl (svCrawler sample_dmhy_server) sample_request 0) = Inr dmhy_floor_response" by code_simp
  have "list_all (wire_post (\<lambda>_. 0)) (Posts dmhy_floor_response)" by code_simp
  then show "encode_crawl sample_crawl_env dmhy_floor_response = None"
    by (intro encode_crawl_ok) (simp_all add: sample_crawl_env_def utf8_valid_ascii)
qed

theorem floor_is_real_witness:
  "\<exists>html. served dmhy_world (archivePageURL ''http://d/'' 2 2) html \<and> sublist list_anchor html \<and> \<not> sublist row_tag html"
proof -
  let ?serve = "crawl_serve sample_crawl_env sample_dmhy_server ''POST'' (Some sample_crawl_body)"
  let ?r = dmhy_floor_response
  have s: "?serve = (Crawled ?r, snd ?serve)" using dmhy_floor_reply by (metis dmhy_floor_reply_def prod.collapse)
  have two: "2 = s64 (LastPage ?r - 1)" by (simp add: in_int64_def)
  have "\<exists>html. (served dmhy_world (archivePageURL ''http://d/'' 2 2) html \<or>
      (0 :: int) < 60 \<and> (case (newPageCache 60, 0, 0 :: time) of (c, t1, t2) \<Rightarrow> cache_get c t1 (pageCacheKey 2 2) = Some html)) \<and>
      sublist list_anchor html \<and> \<not> sublist row_tag html"
    using floor_is_real [OF s _ _ _ two, of "\<lambda>_. 0" dmhy_world 0 "\<lambda>_. (newPageCache 60, 0, 0)" "''http://d/''" 2 NaN 60 None]
    unfolding sample_dmhy_server_def by auto
  then show ?thesis by (auto simp: cache_get_def newPageCache_def)
qed

text \<open>
  The address of a Nyaa page. The query of the address says the page asked for, the search, the
  category and the filter when they are set, exactly and whatever characters they contain, and keeps
  every other value of the base URL; the path is that of the base URL, or the root; an address with
  a \<open>file://\<close> base is the numbered file in it.
\<close>

lemma nyaa_page_address:
  assumes "listingPageURL ops base query category flt page = Inr target"
  shows "(prefix ''file://'' base \<longrightarrow> target = trim_right_slash base @ ''/page-'' @ itoa page @ ''.html'') \<and>
    (\<not> prefix ''file://'' base \<longrightarrow>
      (\<exists>u u'. uoParse ops (trim_right_slash base) = Inr u \<and> target = uoString ops u' \<and>
        uOther u' = uOther u \<and> uPath u' = (if uPath u = [] then ''/'' else uPath u) \<and>
        (\<forall>k. values_get (query_of (uRawQuery u')) k =
          (if k = ''p'' then [itoa page]
           else if k = ''q'' \<and> query \<noteq> [] then [query]
           else if k = ''c'' \<and> category \<noteq> [] then [category]
           else if k = ''f'' \<and> flt \<noteq> [] then [flt]
           else values_get (query_of (uRawQuery u)) k))))"
proof (intro conjI impI)
  assume "prefix ''file://'' base"
  with assms show "target = trim_right_slash base @ ''/page-'' @ itoa page @ ''.html''" by (simp add: listingPageURL_def)
next
  assume "\<not> prefix ''file://'' base"
  with assms obtain u where u: "uoParse ops (trim_right_slash base) = Inr u"
    by (auto simp: listingPageURL_def split: sum.splits)
  define u1 where "u1 = (if uPath u = [] then u\<lparr>uPath := ''/''\<rparr> else u)"
  define q where "q = listing_query query category flt page (query_of (uRawQuery u1))"
  have t: "target = uoString ops (u1\<lparr>uRawQuery := values_Encode q\<rparr>)"
    using assms u \<open>\<not> prefix ''file://'' base\<close> by (simp add: listingPageURL_def u1_def q_def Let_def)
  have u1: "uOther u1 = uOther u" "uPath u1 = (if uPath u = [] then ''/'' else uPath u)" "uRawQuery u1 = uRawQuery u"
    by (simp_all add: u1_def)
  have "distinct (map fst q)" by (simp add: q_def listing_query_distinct query_of_distinct)
  note get = query_roundtrip [OF this]
  show "\<exists>u u'. uoParse ops (trim_right_slash base) = Inr u \<and> target = uoString ops u' \<and>
        uOther u' = uOther u \<and> uPath u' = (if uPath u = [] then ''/'' else uPath u) \<and>
        (\<forall>k. values_get (query_of (uRawQuery u')) k =
          (if k = ''p'' then [itoa page]
           else if k = ''q'' \<and> query \<noteq> [] then [query]
           else if k = ''c'' \<and> category \<noteq> [] then [category]
           else if k = ''f'' \<and> flt \<noteq> [] then [flt]
           else values_get (query_of (uRawQuery u)) k))"
    using u t u1 get by (intro exI [of _ u] exI [of _ "u1\<lparr>uRawQuery := values_Encode q\<rparr>"])
      (simp add: q_def listing_query_get)
qed

end
