(* ===== verification/Mcp_Docs.thy ===== *)
theory Mcp_Docs
  imports Regexp
begin

text \<open>
  The preparation of the embedded texts of the MCP server, \<open>internal/mcp/doc_embed.go\<close>: schema
  blocks are taken out before a text becomes a tool description or the instructions.
\<close>

section \<open>Definitions\<close>

definition reSchema :: re where
  "reSchema =
     Seq (Lit ''<!--'') (Seq (Many re_space) (Seq (Lit ''schema'') (Seq (Many re_space) (Seq (Lit ''-->'')
       (Seq (Few any_char)
         (Seq (Lit ''<!--'') (Seq (Many re_space) (Seq (Lit ''/schema'') (Seq (Many re_space) (Lit ''-->''))))))))))"

definition reSchemaNote :: re where
  "reSchemaNote =
     Seq (Lit ''<!--'') (Seq (Many re_space) (Seq (Lit ''schema-note'') (Seq WordB
       (Seq (Few any_char) (Lit ''-->'')))))"

definition forLLM :: "string \<Rightarrow> string" where
  "forLLM raw = trim_space (remove_all reSchemaNote (remove_all reSchema raw))"

section \<open>Lemmas\<close>

text \<open>A pattern that begins with a literal finds nothing in a text without it.\<close>

lemma search_needs_literal:
  assumes "\<not> sublist l s"
  shows "search (Seq (Lit l) r) pv s = None"
proof (rule ccontr)
  assume "search (Seq (Lit l) r) pv s \<noteq> None"
  then obtain f where "search (Seq (Lit l) r) pv s = Some f" by blast
  from search_Some [OF this] obtain u where "s = fStart f @ u @ fRest f"
    "lang (Seq (Lit l) r) (last_char pv (fStart f)) u (fRest f) (fCaps f)" by blast
  then show False using assms unfolding lang_Seq_steps(1) by (auto simp: sublist_def) (metis append.assoc)
qed

lemma remove_all_none: "search r None s = None \<Longrightarrow> remove_all r s = s"
  by (simp add: remove_all_def find_all.simps [of r None s])

lemma subseq_around: "subseq t b \<Longrightarrow> subseq (a @ t) (a @ u @ b)"
  by (intro list_emb_append_mono subseq_order.refl list_emb_append2)

lemma find_all_subseq:
  "find_all r pv s = fs \<Longrightarrow> subseq (concat (map fStart fs) @ (if fs = [] then s else fRest (last fs))) s"
proof (induction r pv s arbitrary: fs rule: find_all.induct)
  case (1 r pv s)
  show ?case
  proof (cases "search r pv s")
    case None
    with 1(2) show ?thesis by (simp add: find_all.simps [of r pv s])
  next
    case (Some f)
    from search_Some [OF Some] obtain u where s: "s = fStart f @ u @ fRest f" by blast
    show ?thesis
    proof (cases "length (fRest f) < length s")
      case True
      let ?fs = "find_all r (last_char pv (take (matched_length s f) s)) (fRest f)"
      have fs: "fs = f # ?fs" using 1(2) Some True by (simp add: find_all.simps [of r pv s])
      have "subseq (concat (map fStart ?fs) @ (if ?fs = [] then fRest f else fRest (last ?fs))) (fRest f)"
        by (rule 1(1) [OF Some True refl])
      from subseq_around [OF this, of "fStart f" u] s
      have "subseq (fStart f @ concat (map fStart ?fs) @ (if ?fs = [] then fRest f else fRest (last ?fs))) s" by simp
      then show ?thesis unfolding fs by (simp split: if_splits)
    next
      case False
      then have "fs = [f]" using 1(2) Some by (simp add: find_all.simps [of r pv s])
      then show ?thesis using subseq_around [OF subseq_order.refl, of "fStart f" "fRest f" u] s by simp
    qed
  qed
qed

lemma remove_all_subseq: "subseq (remove_all r s) s"
  using find_all_subseq [OF refl, of r None s] by (simp add: remove_all_def Let_def)

text \<open>The text is only ever shortened, and a text without a comment is only trimmed.\<close>

lemma forLLM_subseq: "subseq (forLLM raw) raw"
  unfolding forLLM_def
  by (rule subseq_order.trans [OF sublist_imp_subseq [OF trim_space_sublist]
      subseq_order.trans [OF remove_all_subseq remove_all_subseq]])

lemma forLLM_plain:
  assumes "\<not> sublist ''<!--'' raw"
  shows "forLLM raw = trim_space raw"
  using assms by (simp add: forLLM_def remove_all_none reSchema_def reSchemaNote_def search_needs_literal)

lemma forLLM_example:
  "forLLM ''A <!-- schema -->x: int<!--/schema -->B<!-- schema-note for people --> '' = ''A B''"
  by code_simp

end
