(* ===== verification/Bodies.thy ===== *)
theory Bodies
  imports Rest_Store Wire Floating
begin

text \<open>
  The bodies of requests and responses as JSON: what \<open>encoding/json\<close> makes of the structs of
  \<open>internal/dispatch/dispatch.go\<close> and \<open>internal/rest\<close>, in both directions.

  \<^item> A decoder ignores members it does not know and matches the others up to case.
  \<^item> \<open>ftoa\<close> is the shortest decimal that reads back as a float64, of \<open>strconv\<close>; JSON has no NaN and
    no infinities, so that a value with one is not printed at all.
  \<^item> \<open>err_text\<close> is the text of an error.
\<close>

section \<open>Definitions\<close>

subsection \<open>Requests\<close>

definition json_float :: "float64 \<Rightarrow> json \<Rightarrow> float64 option" where
  "json_float cur v =
     (case v of JNull \<Rightarrow> Some cur | JNum l \<Rightarrow> map_option float_bits (ParseFloat l) | _ \<Rightarrow> None)"

definition claim_member :: "ClaimRequest \<Rightarrow> string \<times> json \<Rightarrow> ClaimRequest option" where
  "claim_member r m =
     (let (key, v) = m in
      if key_is ''limit'' key then map_option (\<lambda>i. r\<lparr>crqLimit := i\<rparr>) (json_int (crqLimit r) v)
      else if key_is ''lease_seconds'' key
        then map_option (\<lambda>i. r\<lparr>crqLeaseSeconds := i\<rparr>) (json_int (crqLeaseSeconds r) v)
      else Some r)"

definition decode_claim :: "string \<Rightarrow> ClaimRequest option" where
  "decode_claim body = json_unmarshal claim_member \<lparr>crqLimit = 0, crqLeaseSeconds = 0\<rparr> body"

definition submit_member :: "SubmitRequest \<Rightarrow> string \<times> json \<Rightarrow> SubmitRequest option" where
  "submit_member r m =
     (let (key, v) = m in
      if key_is ''infohash'' key then map_option (\<lambda>s. r\<lparr>srInfohash := s\<rparr>) (json_string (srInfohash r) v)
      else if key_is ''claim_token'' key
        then map_option (\<lambda>i. r\<lparr>srClaimToken := i\<rparr>) (json_int (srClaimToken r) v)
      else if key_is ''status'' key then map_option (\<lambda>s. r\<lparr>srStatus := s\<rparr>) (json_string (srStatus r) v)
      else if key_is ''ref'' key then map_option (\<lambda>s. r\<lparr>srRef := s\<rparr>) (json_string (srRef r) v)
      else if key_is ''confidence'' key
        then map_option (\<lambda>c. r\<lparr>srConfidence := c\<rparr>) (json_ptr json_float 0 (srConfidence r) v)
      else if key_is ''reason'' key then map_option (\<lambda>s. r\<lparr>srReason := s\<rparr>) (json_string (srReason r) v)
      else Some r)"

definition zero_submit :: SubmitRequest where
  "zero_submit = \<lparr>srInfohash = [], srClaimToken = 0, srStatus = [], srRef = [], srConfidence = None, srReason = []\<rparr>"

definition decode_submit :: "string \<Rightarrow> SubmitRequest option" where
  "decode_submit body = json_unmarshal submit_member zero_submit body"

definition list_member :: "ListReleasesRequest \<Rightarrow> string \<times> json \<Rightarrow> ListReleasesRequest option" where
  "list_member r m =
     (let (key, v) = m in
      if key_is ''ref'' key then map_option (\<lambda>s. r\<lparr>lrRef := s\<rparr>) (json_string (lrRef r) v)
      else if key_is ''since'' key
        then map_option (\<lambda>t. r\<lparr>lrSince := t\<rparr>) (json_ptr json_time zero_time (lrSince r) v)
      else if key_is ''limit'' key then map_option (\<lambda>i. r\<lparr>lrLimit := i\<rparr>) (json_int (lrLimit r) v)
      else if key_is ''cursor'' key then map_option (\<lambda>s. r\<lparr>lrCursor := s\<rparr>) (json_string (lrCursor r) v)
      else Some r)"

definition decode_list :: "string \<Rightarrow> ListReleasesRequest option" where
  "decode_list body = json_unmarshal list_member \<lparr>lrRef = [], lrSince = None, lrLimit = 0, lrCursor = []\<rparr> body"

definition get_member :: "GetReleaseRequest \<Rightarrow> string \<times> json \<Rightarrow> GetReleaseRequest option" where
  "get_member r m =
     (if key_is ''infohash'' (fst m) then map_option (\<lambda>s. r\<lparr>grInfohash := s\<rparr>) (json_string (grInfohash r) (snd m))
      else Some r)"

definition decode_get :: "string \<Rightarrow> GetReleaseRequest option" where
  "decode_get body = json_unmarshal get_member \<lparr>grInfohash = []\<rparr> body"

text \<open>The slice of infohashes, with what is behind its length.\<close>

definition resolve_member :: "string list \<times> nat \<Rightarrow> string \<times> json \<Rightarrow> (string list \<times> nat) option" where
  "resolve_member cur m =
     (if key_is ''infohashes'' (fst m) then json_slice json_string [] cur (snd m) else Some cur)"

definition decode_resolve :: "string \<Rightarrow> ResolveMagnetsRequest option" where
  "decode_resolve body =
     map_option (\<lambda>(elems, n). \<lparr>rmInfohashes = take n elems\<rparr>) (json_unmarshal resolve_member ([], 0) body)"

text \<open>The decoders of the HTTP service.\<close>

definition go_decoders :: decoders where
  "go_decoders = \<lparr>decClaim = decode_claim, decSubmit = decode_submit, decIngest = decode_ingest\<rparr>"

subsection \<open>Responses\<close>

definition omit_empty :: "string \<Rightarrow> string \<Rightarrow> (string \<times> json) list" where
  "omit_empty key s = (if s = [] then [] else [(key, json_str s)])"

definition json_nullable :: "('a \<Rightarrow> json) \<Rightarrow> 'a option \<Rightarrow> json" where
  "json_nullable f x = (case x of None \<Rightarrow> JNull | Some y \<Rightarrow> f y)"

definition raw_item_json :: "RawItemResult \<Rightarrow> json" where
  "raw_item_json ri =
     JObj ([(''id'', json_integer (rrID ri)), (''source'', json_str (rrSource ri)),
        (''source_id'', json_str (rrSourceID ri)), (''title'', json_str (rrTitle ri))] @
        omit_empty ''url'' (rrURL ri) @ [(''published_at'', json_str (rrPublishedAt ri))])"

definition claim_item_members :: "ClaimItemResult \<Rightarrow> (string \<times> json) list" where
  "claim_item_members it =
     [(''infohash'', json_str (cirInfohash it)), (''claim_token'', json_integer (cirClaimToken it)),
      (''attempt_count'', json_integer (cirAttemptCount it)), (''lease_expires_at'', json_str (cirLeaseExpiresAt it)),
      (''raw_items'', JArr (map raw_item_json (cirRawItems it)))]"

definition claim_json :: "ClaimReply \<Rightarrow> json" where
  "claim_json out = JObj [(''items'', JArr (map (\<lambda>it. JObj (claim_item_members it)) (crpItems out)))]"

definition stats_json :: "QueueStatsResult \<Rightarrow> json" where
  "stats_json q =
     JObj [(''available'', json_integer (int (qrAvailable q))), (''leased'', json_integer (int (qrLeased q))),
       (''unmatched'', json_integer (int (qrUnmatched q))), (''matched'', json_integer (int (qrMatched q))),
       (''suppressed'', json_integer (int (qrSuppressed q))), (''exhausted'', json_integer (int (qrExhausted q)))]"

text \<open>A float64 whose exponent has all bits set is an infinity or NaN.\<close>

definition float_finite :: "float64 \<Rightarrow> bool" where
  "float_finite c \<longleftrightarrow> uint c div 2 ^ 52 mod 2048 \<noteq> 2047"

definition float_json :: "(float64 \<Rightarrow> string) \<Rightarrow> float64 \<Rightarrow> json option" where
  "float_json ftoa c = (if float_finite c then Some (JNum (ftoa c)) else None)"

definition float_nullable :: "(float64 \<Rightarrow> string) \<Rightarrow> float64 option \<Rightarrow> json option" where
  "float_nullable ftoa c = (case c of None \<Rightarrow> Some JNull | Some c \<Rightarrow> float_json ftoa c)"

definition release_item_json :: "(float64 \<Rightarrow> string) \<Rightarrow> ReleaseItemResult \<Rightarrow> json option" where
  "release_item_json ftoa r =
     map_option (\<lambda>c. JObj
       [(''infohash'', json_str (irInfohash r)), (''ref'', json_str (irRef r)), (''title'', json_str (irTitle r)),
        (''size_bytes'', json_integer (irSizeBytes r)), (''published_at'', json_str (irPublishedAt r)),
        (''confidence'', c), (''sources'', JArr (map json_str (irSources r)))]) (float_json ftoa (irConfidence r))"

definition list_json :: "(float64 \<Rightarrow> string) \<Rightarrow> ListReleasesResult \<Rightarrow> json option" where
  "list_json ftoa out =
     map_option (\<lambda>rs. JObj ((''releases'', JArr rs) #
       (case llNextCursor out of None \<Rightarrow> [] | Some c \<Rightarrow> [(''next_cursor'', json_str c)])))
       (all_some (map (release_item_json ftoa) (llReleases out)))"

definition raw_item_detail_json :: "RawItemDetailResult \<Rightarrow> json" where
  "raw_item_detail_json i =
     JObj [(''id'', json_integer (idID i)), (''source'', json_str (idSource i)), (''source_id'', json_str (idSourceID i)),
       (''title'', json_str (idTitle i)), (''url'', json_nullable json_str (idURL i)),
       (''published_at'', json_str (idPublishedAt i)), (''ingested_at'', json_str (idIngestedAt i))]"

definition match_event_json :: "(float64 \<Rightarrow> string) \<Rightarrow> MatchEventItemResult \<Rightarrow> json option" where
  "match_event_json ftoa e =
     map_option (\<lambda>c. JObj
       [(''id'', json_integer (meID e)), (''status'', json_str (meStatus e)), (''ref'', json_nullable json_str (meRef e)),
        (''confidence'', c), (''reason'', json_nullable json_str (meReason e)), (''created_at'', json_str (meCreatedAt e))])
       (float_nullable ftoa (meConfidence e))"

definition release_json :: "(float64 \<Rightarrow> string) \<Rightarrow> GetReleaseResult \<Rightarrow> json option" where
  "release_json ftoa d =
     (case (float_nullable ftoa (gdConfidence d), all_some (map (match_event_json ftoa) (gdMatchEvents d))) of
        (Some c, Some events) \<Rightarrow> Some (JObj
          [(''infohash'', json_str (gdInfohash d)), (''title'', json_str (gdTitle d)),
           (''magnet'', json_nullable json_str (gdMagnet d)), (''size_bytes'', json_nullable json_integer (gdSizeBytes d)),
           (''published_at'', json_str (gdPublishedAt d)), (''sources'', JArr (map json_str (gdSources d))),
           (''match_status'', json_str (gdMatchStatus d)), (''ref'', json_nullable json_str (gdRef d)),
           (''confidence'', c), (''first_matched_at'', json_nullable json_str (gdFirstMatchedAt d)),
           (''attempt_count'', json_integer (gdAttemptCount d)), (''created_at'', json_str (gdCreatedAt d)),
           (''updated_at'', json_str (gdUpdatedAt d)), (''raw_items'', JArr (map raw_item_detail_json (gdRawItems d))),
           (''match_events'', JArr events)])
      | _ \<Rightarrow> None)"

text \<open>A map is printed with its keys in order.\<close>

definition magnets_json :: "ResolveMagnetsResult \<Rightarrow> json" where
  "magnets_json out =
     JObj [(''magnets'', JObj (map (\<lambda>ih. (ih, json_str (the (rmMagnets out ih)))) (sorted_list_of_set (dom (rmMagnets out)))))]"

definition error_json :: "string \<Rightarrow> string \<Rightarrow> string \<Rightarrow> json" where
  "error_json code ih msg = JObj (omit_empty ''code'' code @ omit_empty ''infohash'' ih @ [(''message'', json_str msg)])"

definition magnet_json :: "string \<Rightarrow> string \<Rightarrow> json" where
  "magnet_json ih magnet = JObj [(''infohash'', json_str ih), (''magnet'', json_str magnet)]"

definition summary_json :: "IngestSummary \<Rightarrow> json" where
  "summary_json s =
     JObj [(''batch'', JObj
         [(''new'', json_integer (ibNew (isBatch s))), (''updated'', json_integer (ibUpdated (isBatch s))),
          (''duplicate'', json_integer (ibDuplicate (isBatch s))), (''conflict'', json_integer (ibConflict (isBatch s))),
          (''skipped'', json_integer (ibSkipped (isBatch s)))]),
       (''queue'', JObj
         [(''available'', json_integer (wqAvailable (isQueue s))), (''leased'', json_integer (wqLeased (isQueue s))),
          (''exhausted'', json_integer (wqExhausted (isQueue s)))])]"

definition ok_json :: json where
  "ok_json = JObj [(''ok'', JBool True)]"

text \<open>
  What a response carries: \<open>Encoder.Encode\<close> and \<open>http.Error\<close> end it with a newline, a value that
  cannot be printed leaves it empty, since the error of \<open>Encode\<close> is dropped.
\<close>

fun message_text :: "(dispatch_error \<Rightarrow> string) \<Rightarrow> message \<Rightarrow> string" where
  "message_text err_text (Msg s) = s"
| "message_text err_text (ErrText e) = err_text e"

definition json_line :: "json option \<Rightarrow> string" where
  "json_line j = (case j of None \<Rightarrow> [] | Some j \<Rightarrow> json_print j @ [CHR 0x0A])"

fun payload_bytes :: "(float64 \<Rightarrow> string) \<Rightarrow> (dispatch_error \<Rightarrow> string) \<Rightarrow> payload \<Rightarrow> string" where
  "payload_bytes ftoa err_text (ErrorReply code ih msg) = json_line (Some (error_json code ih (message_text err_text msg)))"
| "payload_bytes ftoa err_text (TextReply s) = s @ [CHR 0x0A]"
| "payload_bytes ftoa err_text OkReply = json_print ok_json"
| "payload_bytes ftoa err_text (ClaimPayload out) = json_line (Some (claim_json out))"
| "payload_bytes ftoa err_text (StatsPayload out) = json_line (Some (stats_json out))"
| "payload_bytes ftoa err_text (ReleasePayload out) = json_line (release_json ftoa out)"
| "payload_bytes ftoa err_text (MagnetPayload ih magnet) = json_line (Some (magnet_json ih magnet))"
| "payload_bytes ftoa err_text (IngestPayload s) = json_line (Some (summary_json s))"

section \<open>Lemmas\<close>

lemma body_fold [json_keys]:
  "json_fold ''infohash'' = ''INFOHASH''" "json_fold ''claim_token'' = ''CLAIM_TOKEN''" "json_fold ''status'' = ''STATUS''"
  "json_fold ''ref'' = ''REF''" "json_fold ''confidence'' = ''CONFIDENCE''" "json_fold ''reason'' = ''REASON''"
  "json_fold ''limit'' = ''LIMIT''" "json_fold ''lease_seconds'' = ''LEASE_SECONDS''" "json_fold ''since'' = ''SINCE''"
  "json_fold ''cursor'' = ''CURSOR''" "json_fold ''infohashes'' = ''INFOHASHES''"
  by code_simp+

lemma body_keys [simp]:
  "utf8_valid ''id''" "utf8_valid ''source''" "utf8_valid ''source_id''" "utf8_valid ''title''" "utf8_valid ''url''"
  "utf8_valid ''published_at''" "utf8_valid ''infohash''" "utf8_valid ''claim_token''" "utf8_valid ''attempt_count''"
  "utf8_valid ''lease_expires_at''" "utf8_valid ''raw_items''" "utf8_valid ''items''" "utf8_valid ''status''"
  "utf8_valid ''ref''" "utf8_valid ''confidence''" "utf8_valid ''reason''" "utf8_valid ''limit''"
  "utf8_valid ''lease_seconds''" "utf8_valid ''ok''" "utf8_valid ''code''" "utf8_valid ''message''" "utf8_valid ''error''"
  "utf8_valid ''releases''" "utf8_valid ''next_cursor''" "utf8_valid ''size_bytes''" "utf8_valid ''sources''"
  "utf8_valid ''magnet''" "utf8_valid ''magnets''" "utf8_valid ''match_status''" "utf8_valid ''first_matched_at''"
  "utf8_valid ''created_at''" "utf8_valid ''updated_at''" "utf8_valid ''match_events''" "utf8_valid ''ingested_at''"
  by (rule utf8_valid_ascii, simp add: byte_of_def)+

lemma json_depth_list: "\<forall>v \<in> set vs. json_depth v \<le> d \<Longrightarrow> json_depth (JArr vs) \<le> Suc d"
  by (simp add: fold_max_le)

lemma rfc3339_text: "utf8_valid (rfc3339 loc t)"
  by (simp add: rfc3339_def utf8_valid_plain [OF format_time])

lemma canonical_text: "isCanonicalInfohash ih \<Longrightarrow> utf8_valid ih"
  by (rule utf8_valid_ascii) (auto simp: isCanonicalInfohash_def list_all_iff is_lower_hex_def)

text \<open>A request to the queue, and one to submit, as a matcher prints them.\<close>

lemma decode_claim_printed:
  assumes "in_int64 limit" "in_int64 secs"
  shows "decode_claim (json_print (JObj [(''limit'', json_integer limit), (''lease_seconds'', json_integer secs)])) =
    Some \<lparr>crqLimit = limit, crqLeaseSeconds = secs\<rparr>"
proof -
  let ?v = "JObj [(''limit'', json_integer limit), (''lease_seconds'', json_integer secs)]"
  have "json_ok ?v" "json_depth ?v \<le> 10000" using body_keys by simp_all
  from json_unmarshal_print [OF this, of claim_member] assms show ?thesis
    by (simp add: decode_claim_def json_struct_def claim_member_def key_is_def json_keys json_int_def atoi_itoa
        del: json_fold.simps json_print.simps)
qed

text \<open>The reply to a claim is read back.\<close>

definition raw_item_text :: "RawItemResult \<Rightarrow> bool" where
  "raw_item_text ri \<longleftrightarrow> utf8_valid (rrSource ri) \<and> utf8_valid (rrSourceID ri) \<and> utf8_valid (rrTitle ri) \<and>
     utf8_valid (rrURL ri) \<and> utf8_valid (rrPublishedAt ri)"

definition claim_item_text :: "ClaimItemResult \<Rightarrow> bool" where
  "claim_item_text it \<longleftrightarrow> utf8_valid (cirInfohash it) \<and> utf8_valid (cirLeaseExpiresAt it) \<and>
     list_all raw_item_text (cirRawItems it)"

lemma raw_item_json_ok:
  assumes "raw_item_text ri"
  shows "json_ok (raw_item_json ri)" "json_depth (raw_item_json ri) = 1"
  using assms body_keys by (auto simp: raw_item_json_def raw_item_text_def omit_empty_def)

lemma claim_item_ok:
  assumes "claim_item_text it"
  shows "json_ok (JObj (claim_item_members it))" "json_depth (JObj (claim_item_members it)) \<le> 3"
proof -
  have items: "\<forall>ri \<in> set (cirRawItems it). json_ok (raw_item_json ri) \<and> json_depth (raw_item_json ri) \<le> 1"
    using assms raw_item_json_ok by (simp add: claim_item_text_def list_all_iff)
  then show "json_ok (JObj (claim_item_members it))"
    using assms body_keys by (simp add: claim_item_members_def claim_item_text_def list_all_iff)
  have "json_depth (JArr (map raw_item_json (cirRawItems it))) \<le> 2" using items by (simp add: fold_max_le)
  then show "json_depth (JObj (claim_item_members it)) \<le> 3" by (simp add: claim_item_members_def)
qed

lemma claim_json_ok:
  assumes "list_all claim_item_text (crpItems out)"
  shows "json_ok (claim_json out)" "json_depth (claim_json out) \<le> 10000"
proof -
  have items: "\<forall>it \<in> set (crpItems out). json_ok (JObj (claim_item_members it)) \<and> json_depth (JObj (claim_item_members it)) \<le> 3"
    using assms claim_item_ok by (auto simp: list_all_iff simp del: json_ok.simps json_depth.simps)
  have "json_depth (JArr (map (\<lambda>it. JObj (claim_item_members it)) (crpItems out))) \<le> Suc 3"
    using items by (intro json_depth_list) auto
  with items show "json_ok (claim_json out)" "json_depth (claim_json out) \<le> 10000"
    by (simp_all add: claim_json_def list_all_iff del: json_depth.simps(1))
qed

lemma claim_json_read:
  "list_all claim_item_text (crpItems out) \<Longrightarrow>
   json_decode (payload_bytes ftoa err_text (ClaimPayload out)) = Some (claim_json out)"
  by (simp add: json_line_def json_decode_print claim_json_ok)

end
