(* ===== verification/Mcp.thy ===== *)
theory Mcp
  imports Service Mcp_Docs Bodies
begin

text \<open>
  The MCP server as an agent sees it, \<open>internal/mcp/mcp.go\<close>: the tools that are registered, and what
  a call returns, as text and as structured content. The protocol is that of the SDK: binding the
  arguments of a call to the input type, and making an error of a handler a failed call, are left
  to it. \<open>validate\<close> is the output schema of a tool, which the schema library infers from the type.
\<close>

section \<open>Definitions\<close>

subsection \<open>Registration\<close>

record ToolAnnotations =
  ReadOnlyHint :: bool
  DestructiveHint :: bool
  IdempotentHint :: bool
  OpenWorldHint :: bool

record Tool =
  tlName :: string
  tlDescription :: string
  tlAnnotations :: ToolAnnotations

record sdk_server =
  ssName :: string
  ssVersion :: string
  ssInstructions :: string
  ssTools :: "Tool list"

definition readOnlyToolAnnotations :: ToolAnnotations where
  "readOnlyToolAnnotations =
     \<lparr>ReadOnlyHint = True, DestructiveHint = False, IdempotentHint = True, OpenWorldHint = True\<rparr>"

text \<open>\<open>docs\<close> gives the text of an embedded file.\<close>

definition add_tool :: "string \<Rightarrow> string \<Rightarrow> sdk_server \<Rightarrow> sdk_server" where
  "add_tool name doc srv =
     srv\<lparr>ssTools := ssTools srv @
       [\<lparr>tlName = name, tlDescription = forLLM doc, tlAnnotations = readOnlyToolAnnotations\<rparr>]\<rparr>"

definition addListReleasesTool :: "(string \<Rightarrow> string) \<Rightarrow> sdk_server \<Rightarrow> sdk_server" where
  "addListReleasesTool docs = add_tool ''list_releases'' (docs ''tool_list_releases.md'')"

definition addGetReleaseTool :: "(string \<Rightarrow> string) \<Rightarrow> sdk_server \<Rightarrow> sdk_server" where
  "addGetReleaseTool docs = add_tool ''get_release'' (docs ''tool_get_release.md'')"

definition addResolveMagnetsTool :: "(string \<Rightarrow> string) \<Rightarrow> sdk_server \<Rightarrow> sdk_server" where
  "addResolveMagnetsTool docs = add_tool ''resolve_magnets'' (docs ''tool_resolve_magnets.md'')"

definition newSDKServer :: "(string \<Rightarrow> string) \<Rightarrow> sdk_server" where
  "newSDKServer docs =
     addResolveMagnetsTool docs (addGetReleaseTool docs (addListReleasesTool docs
       \<lparr>ssName = ''takuhai'', ssVersion = ''0.1.0'', ssInstructions = forLLM (docs ''server_instructions.md''), ssTools = []\<rparr>))"

subsection \<open>Calls\<close>

record CallToolResult =
  ctIsError :: bool
  ctContent :: "string list"
  ctStructured :: "string option"

definition error_result :: "(dispatch_error \<Rightarrow> string) \<Rightarrow> string \<Rightarrow> dispatch_error \<Rightarrow> CallToolResult" where
  "error_result err_text code err =
     \<lparr>ctIsError = True,
      ctContent = [json_print (JObj (omit_empty ''code'' code @ [(''error'', json_str (err_text err))]))],
      ctStructured = None\<rparr>"

datatype tool_failure = MarshalingOutput | DecodingOutput | ValidatingOutput string

text \<open>
  The handler that \<open>addStructuredTool\<close> registers. Reading the output back needs no check of the range
  of its numbers: they were printed from an \<open>int64\<close> or a float64.
\<close>

definition addStructuredTool ::
  "(json \<Rightarrow> string option) \<Rightarrow> (dispatch_error \<Rightarrow> string) \<Rightarrow> ('out \<Rightarrow> json option) \<Rightarrow> 'out tool_result \<Rightarrow>
   tool_failure + CallToolResult" where
  "addStructuredTool validate err_text marshal res =
     (case res of
        ToolError code err \<Rightarrow> Inr (error_result err_text code err)
      | ToolOk out \<Rightarrow>
          (case marshal out of
             None \<Rightarrow> Inl MarshalingOutput
           | Some j \<Rightarrow>
               (let outJSON = json_print j
                in case json_parse outJSON of
                     None \<Rightarrow> Inl DecodingOutput
                   | Some outValue \<Rightarrow>
                       (case validate outValue of
                          Some err \<Rightarrow> Inl (ValidatingOutput err)
                        | None \<Rightarrow> Inr \<lparr>ctIsError = False, ctContent = [outJSON], ctStructured = Some outJSON\<rparr>))))"

datatype tool_input =
    ListReleasesInput ListReleasesRequest
  | GetReleaseInput GetReleaseRequest
  | ResolveMagnetsInput ResolveMagnetsRequest

record mcp_codec =
  mcFtoa :: "float64 \<Rightarrow> string"
  mcErrText :: "dispatch_error \<Rightarrow> string"
  mcValidate :: "json \<Rightarrow> string option"

fun mcp_call ::
  "mcp_codec \<Rightarrow> (time \<Rightarrow> int) \<Rightarrow> duration \<Rightarrow> 'st mcp_server \<Rightarrow> 'st \<Rightarrow> tool_input \<Rightarrow>
   (tool_failure + CallToolResult) \<times> sample list \<times> 'st" where
  "mcp_call k loc dur s st (ListReleasesInput r) =
     apfst (addStructuredTool (mcValidate k) (mcErrText k) (list_json (mcFtoa k))) (list_releases_tool loc dur s st r)"
| "mcp_call k loc dur s st (GetReleaseInput r) =
     apfst (addStructuredTool (mcValidate k) (mcErrText k) (release_json (mcFtoa k))) (get_release_tool loc dur s st r)"
| "mcp_call k loc dur s st (ResolveMagnetsInput r) =
     apfst (addStructuredTool (mcValidate k) (mcErrText k) (Some \<circ> magnets_json)) (resolve_magnets_tool dur s st r)"

text \<open>The tool a call is for.\<close>

fun input_tool :: "tool_input \<Rightarrow> string" where
  "input_tool (ListReleasesInput _) = ''list_releases''"
| "input_tool (GetReleaseInput _) = ''get_release''"
| "input_tool (ResolveMagnetsInput _) = ''resolve_magnets''"

subsection \<open>An agent that lists\<close>

text \<open>
  An agent asks for a page, reads the structured content, and puts \<open>next_cursor\<close> into its next
  request, if there is one. The result is the JSON of the releases on the page.
\<close>

definition read_page :: "json \<Rightarrow> (json list \<times> string option) option" where
  "read_page v =
     (case v of
        JObj ms \<Rightarrow>
          (case map_of ms ''releases'' of
             Some (JArr items) \<Rightarrow>
               Some (items, case map_of ms ''next_cursor'' of Some (JStr _ c) \<Rightarrow> Some c | _ \<Rightarrow> None)
           | _ \<Rightarrow> None)
      | _ \<Rightarrow> None)"

definition agent_page ::
  "mcp_codec \<Rightarrow> (time \<Rightarrow> int) \<Rightarrow> duration \<Rightarrow> 'st mcp_server \<Rightarrow> 'st \<Rightarrow> ListReleasesRequest \<Rightarrow>
   (json list \<times> ListReleasesRequest option) option" where
  "agent_page k loc dur s st req =
     (case fst (mcp_call k loc dur s st (ListReleasesInput req)) of
        Inr r \<Rightarrow>
          map_option (\<lambda>(items, c). (items, map_option (\<lambda>c. req\<lparr>lrCursor := c\<rparr>) c))
            (Option.bind (ctStructured r) (\<lambda>raw. Option.bind (json_parse raw) read_page))
      | Inl _ \<Rightarrow> None)"

text \<open>A release whose texts are UTF-8 and whose confidence is a number that can be printed.\<close>

definition item_printable :: "(float64 \<Rightarrow> string) \<Rightarrow> ReleaseItem \<Rightarrow> bool" where
  "item_printable ftoa x \<longleftrightarrow>
     utf8_valid (riInfohash x) \<and> utf8_valid (riRef x) \<and> utf8_valid (riTitle x) \<and> list_all utf8_valid (riSources x) \<and>
     float_finite (riConfidence x) \<and> json_literal (ftoa (riConfidence x))"

definition item_json :: "(float64 \<Rightarrow> string) \<Rightarrow> (time \<Rightarrow> int) \<Rightarrow> ReleaseItem \<Rightarrow> json" where
  "item_json ftoa loc x = the (release_item_json ftoa (release_item_result loc x))"

section \<open>Lemmas\<close>

text \<open>Whatever is called, nothing is written, and no call reports success without its output.\<close>

lemma mcp_call_reads: "bDb (snd (snd (mcp_call k loc dur (NewServerWithMetrics (postgres env) m) st input))) = bDb st"
  by (cases input) (simp_all add: tools_read_only)

lemma mcp_call_samples: "list_all (accepted takuhai_metrics) (fst (snd (mcp_call k loc dur s st input)))"
  by (cases input) (simp_all add: samples_tools)

lemma registered_tools:
  "map tlName (ssTools (newSDKServer docs)) = [''list_releases'', ''get_release'', ''resolve_magnets'']"
  "\<forall>t \<in> set (ssTools (newSDKServer docs)). tlAnnotations t = readOnlyToolAnnotations"
  by (simp_all add: newSDKServer_def addListReleasesTool_def addGetReleaseTool_def addResolveMagnetsTool_def add_tool_def)

lemma input_tool_registered: "input_tool input \<in> tlName ` set (ssTools (newSDKServer docs))"
proof -
  have "tlName ` set (ssTools (newSDKServer docs)) = {''list_releases'', ''get_release'', ''resolve_magnets''}"
    using arg_cong [OF registered_tools(1), of set] by simp
  then show ?thesis by (cases input) simp_all
qed

lemma structured_error:
  "addStructuredTool v t marshal res = Inr r \<Longrightarrow> ctIsError r \<Longrightarrow> \<exists>code err. res = ToolError code err \<and> r = error_result t code err"
  by (auto simp: addStructuredTool_def Let_def split: tool_result.splits option.splits)

lemma mcp_call_error:
  assumes "fst (mcp_call k loc dur s st input) = Inr r" "ctIsError r"
  shows "ctStructured r = None \<and> (\<exists>err. r = error_result (mcErrText k) (WireCode err) err)"
proof -
  have codes: "fst (list_releases_tool loc dur s st lr) = ToolError code err \<Longrightarrow> code = WireCode err"
    "fst (get_release_tool loc dur s st gr) = ToolError code err \<Longrightarrow> code = WireCode err"
    "fst (resolve_magnets_tool dur s st rm) = ToolError code err \<Longrightarrow> code = WireCode err" for code err lr gr rm
    by (auto simp: list_releases_tool_def get_release_tool_def resolve_magnets_tool_def errorResult_def
        split: prod.splits sum.splits)
  show ?thesis using assms by (cases input) (auto dest!: structured_error codes simp: error_result_def)
qed

lemma item_json_eq:
  assumes "item_printable ftoa x"
  shows "release_item_json ftoa (release_item_result loc x) = Some (item_json ftoa loc x)"
    "item_json ftoa loc x = JObj
       [(''infohash'', json_str (riInfohash x)), (''ref'', json_str (riRef x)), (''title'', json_str (riTitle x)),
        (''size_bytes'', json_integer (riSizeBytes x)), (''published_at'', json_str (rfc3339 loc (riPublishedAt x))),
        (''confidence'', JNum (ftoa (riConfidence x))), (''sources'', JArr (map json_str (riSources x)))]"
  using assms by (simp_all add: item_json_def release_item_json_def float_json_def item_printable_def release_item_result_def)

lemma json_depth_strings: "json_depth (JArr (map json_str ss)) = 1"
  by (induction ss) simp_all

lemma item_json_ok:
  assumes "item_printable ftoa x"
  shows "json_ok (item_json ftoa loc x)" "json_depth (item_json ftoa loc x) \<le> 2"
proof -
  show "json_ok (item_json ftoa loc x)"
    using assms by (simp add: item_json_eq(2) [OF assms] item_printable_def rfc3339_text list_all_iff)
  show "json_depth (item_json ftoa loc x) \<le> 2"
    using json_depth_strings [of "riSources x"] by (simp add: item_json_eq(2) [OF assms])
qed

text \<open>The JSON of a page is read back.\<close>

definition page_json :: "(float64 \<Rightarrow> string) \<Rightarrow> (time \<Rightarrow> int) \<Rightarrow> ReleasePage \<Rightarrow> json" where
  "page_json ftoa loc page =
     JObj ((''releases'', JArr (map (item_json ftoa loc) (Releases page))) #
       (if rpNextCursor page = [] then [] else [(''next_cursor'', json_str (rpNextCursor page))]))"

lemma all_some_map: "(\<And>x. x \<in> set xs \<Longrightarrow> f x = Some (g x)) \<Longrightarrow> all_some (map f xs) = Some (map g xs)"
  by (induction xs) simp_all

lemma page_json_ok:
  assumes "list_all (item_printable ftoa) (Releases page)" "utf8_valid (rpNextCursor page)"
  shows "json_ok (page_json ftoa loc page)" "json_depth (page_json ftoa loc page) \<le> 10000"
proof -
  have items: "\<forall>x \<in> set (Releases page). json_ok (item_json ftoa loc x) \<and> json_depth (item_json ftoa loc x) \<le> 2"
    using assms(1) item_json_ok by (auto simp: list_all_iff)
  then show "json_ok (page_json ftoa loc page)" using assms(2) by (simp add: page_json_def list_all_iff)
  have "json_depth (JArr (map (item_json ftoa loc) (Releases page))) \<le> Suc 2"
    using items by (intro json_depth_list) auto
  then show "json_depth (page_json ftoa loc page) \<le> 10000" by (simp add: page_json_def del: json_depth.simps(1))
qed

definition list_query :: "ListReleasesRequest \<Rightarrow> ReleaseQuery" where
  "list_query req = \<lparr>rqRef = lrRef req, rqSince = lrSince req, rqLimit = lrLimit req, rqCursor = lrCursor req\<rparr>"

lemma list_query_cursor [simp]: "list_query (req\<lparr>lrCursor := c\<rparr>) = (list_query req)\<lparr>rqCursor := c\<rparr>"
  by (simp add: list_query_def)

lemma agent_page_read:
  assumes "ListReleases s (bDb st) (list_query req) = Inr page"
    and "list_all (item_printable (mcFtoa k)) (Releases page)" "utf8_valid (rpNextCursor page)"
    and "mcValidate k (page_json (mcFtoa k) loc page) = None"
  shows "agent_page k loc dur (NewServerWithMetrics (postgres (\<lambda>_. s)) m) st req =
    Some (map (item_json (mcFtoa k) loc) (Releases page),
      if rpNextCursor page = [] then None else Some (req\<lparr>lrCursor := rpNextCursor page\<rparr>))"
proof -
  let ?out = "\<lparr>llReleases = map (release_item_result loc) (Releases page),
    llNextCursor = (if rpNextCursor page \<noteq> [] then Some (rpNextCursor page) else None)\<rparr>"
  have "all_some (map (release_item_json (mcFtoa k) \<circ> release_item_result loc) (Releases page)) =
      Some (map (item_json (mcFtoa k) loc) (Releases page))"
    using assms(2) item_json_eq(1) by (intro all_some_map) (auto simp: list_all_iff)
  then have "list_json (mcFtoa k) ?out = Some (page_json (mcFtoa k) loc page)"
    by (auto simp: list_json_def page_json_def)
  moreover have "fst (list_releases_tool loc dur (NewServerWithMetrics (postgres (\<lambda>_. s)) m) st req) = ToolOk ?out"
    using assms(1)
    by (simp add: list_query_def list_releases_tool_def NewServerWithMetrics_def typed_defs postgres_def read_call_def write_call_def)
  ultimately show ?thesis
    using json_parse_print [OF page_json_ok [OF assms(2,3), of loc]] assms(4)
    by (auto simp: agent_page_def addStructuredTool_def page_json_def read_page_def Let_def simp del: json_print.simps)
qed

text \<open>The pages of an agent are the pages of the store.\<close>

lemma next_cursor_text:
  assumes "ListReleases s db q = Inr page"
  shows "utf8_valid (rpNextCursor page)"
proof -
  have "list_all (\<lambda>c. byte_of c < 0x80) b64_alphabet" "length b64_alphabet = 64" by code_simp+
  then have "byte_of (b64_char d) < 0x80" if "d < 64" for d using that by (auto simp: b64_char_def list_all_iff)
  then have "utf8_valid (b64_encode t)" for t
    using b64_encode_split [of t] by (intro utf8_valid_ascii) (auto simp: list_all_iff)
  moreover have "utf8_valid []" by (simp add: utf8_valid_ascii)
  ultimately show ?thesis
    using assms by (auto simp: ListReleases_def Encode_def Let_def split: option.splits sum.splits if_splits prod.splits)
qed

lemma paged_agent:
  assumes "paged next_page (s, bDb st, list_query req) ps"
    and "\<forall>x \<in> set (concat ps). item_printable (mcFtoa k) x"
    and "\<forall>page. mcValidate k (page_json (mcFtoa k) loc page) = None"
  shows "paged (agent_page k loc dur (NewServerWithMetrics (postgres (\<lambda>_. s)) m) st) req (map (map (item_json (mcFtoa k) loc)) ps)"
  using assms(1,2)
proof (induction "(s, bDb st, list_query req)" ps arbitrary: req rule: paged.induct)
  case (last_page xs)
  from last_page(1) obtain page where p: "ListReleases s (bDb st) (list_query req) = Inr page" "xs = Releases page" "rpNextCursor page = []"
    by (auto simp: next_page_def split: sum.splits if_splits)
  from agent_page_read [where m = m and dur = dur and loc = loc and k = k, OF p(1) _ next_cursor_text [OF p(1)]] p last_page(2) assms(3)
  show ?case
    by (auto simp: list_all_iff intro!: paged.last_page)
next
  case (more_pages xs q' ps)
  from more_pages(1) obtain page where p: "ListReleases s (bDb st) (list_query req) = Inr page" "xs = Releases page"
    "rpNextCursor page \<noteq> []" "q' = (s, bDb st, (list_query req)\<lparr>rqCursor := rpNextCursor page\<rparr>)"
    by (auto simp: next_page_def split: sum.splits if_splits)
  then have "q' = (s, bDb st, list_query (req\<lparr>lrCursor := rpNextCursor page\<rparr>))" by simp
  from more_pages(3) [OF this] more_pages(4)
  have rest: "paged (agent_page k loc dur (NewServerWithMetrics (postgres (\<lambda>_. s)) m) st) (req\<lparr>lrCursor := rpNextCursor page\<rparr>)
      (map (map (item_json (mcFtoa k) loc)) ps)" by simp
  from agent_page_read [where m = m and dur = dur and loc = loc and k = k, OF p(1) _ next_cursor_text [OF p(1)]] p more_pages(4) assms(3) rest
  show ?case by (auto simp: list_all_iff intro!: paged.more_pages)
qed

section \<open>Properties\<close>

text \<open>
  C19: an agent that lists over MCP misses nothing. On a database of the store with a working server,
  when the texts and confidences of the listed releases can be printed and the output schema admits
  what the tool prints, an agent that calls \<open>list_releases\<close> without a cursor, reads the structured
  content as JSON and puts its \<open>next_cursor\<close> into the next call comes to an end after exactly one
  sequence of pages; put together, they name the matched releases of the query, each once, newest
  first. Every call is for a tool that is registered, every tool is registered as one that only reads,
  and none changes the database; a call whose tool fails is marked as an error, with the
  wire code in its text, and has no structured content.
\<close>

theorem agent_lists_everything:
  assumes "reliable s" and "reachable (bDb st)" and "lrCursor req = []" and "listable s (bDb st) (list_query req)"
    and "\<forall>kr \<in> set (listing s (bDb st) (list_query req)). item_printable (mcFtoa k) (fst kr)"
    and "\<forall>page. mcValidate k (page_json (mcFtoa k) loc page) = None"
    and "server = NewServerWithMetrics (postgres (\<lambda>_. s)) m"
  shows "(\<exists>pages. paged (agent_page k loc dur server st) req pages \<and>
      (\<forall>pages'. paged (agent_page k loc dur server st) req pages' \<longrightarrow> pages' = pages) \<and>
      concat pages = map (item_json (mcFtoa k) loc \<circ> fst) (listing s (bDb st) (list_query req)) \<and>
      distinct (map (riInfohash \<circ> fst) (listing s (bDb st) (list_query req))) \<and>
      (riInfohash \<circ> fst) ` set (listing s (bDb st) (list_query req)) =
        r_infohash ` {r \<in> set (releases (bDb st)). in_list s (list_query req) (list_path (list_query req)) r}) \<and>
    (\<forall>input. input_tool input \<in> tlName ` set (ssTools (newSDKServer docs)) \<and>
      bDb (snd (snd (mcp_call k loc dur server st input))) = bDb st) \<and>
    (\<forall>t \<in> set (ssTools (newSDKServer docs)). ReadOnlyHint (tlAnnotations t)) \<and>
    (\<forall>input r. fst (mcp_call k loc dur server st input) = Inr r \<and> ctIsError r \<longrightarrow>
      ctStructured r = None \<and> (\<exists>err. r = error_result (mcErrText k) (WireCode err) err))"
proof (intro conjI allI impI)
  note inv = reachable_inv [OF assms(2)]
  have "request_ok (s, bDb st, list_query req)"
    using assms(1,3,4) inv by (simp add: request_ok_def cursor_ok_def list_query_def)
  from releases.paged_all [OF this] obtain ps where ps: "paged next_page (s, bDb st, list_query req) ps"
    "concat ps = map fst (listing s (bDb st) (list_query req))"
    using assms(3) by (auto simp: list_rest_start list_query_def)
  have "\<forall>x \<in> set (concat ps). item_printable (mcFtoa k) x" using assms(5) unfolding ps(2) by auto
  from paged_agent [OF ps(1) this assms(6)] have pages:
    "paged (agent_page k loc dur server st) req (map (map (item_json (mcFtoa k) loc)) ps)" unfolding assms(7) .
  show "\<exists>pages. paged (agent_page k loc dur server st) req pages \<and>
      (\<forall>pages'. paged (agent_page k loc dur server st) req pages' \<longrightarrow> pages' = pages) \<and>
      concat pages = map (item_json (mcFtoa k) loc \<circ> fst) (listing s (bDb st) (list_query req)) \<and>
      distinct (map (riInfohash \<circ> fst) (listing s (bDb st) (list_query req))) \<and>
      (riInfohash \<circ> fst) ` set (listing s (bDb st) (list_query req)) =
        r_infohash ` {r \<in> set (releases (bDb st)). in_list s (list_query req) (list_path (list_query req)) r}"
  proof (intro exI conjI allI impI)
    show "paged (agent_page k loc dur server st) req (map (map (item_json (mcFtoa k) loc)) ps)" by (fact pages)
    show "pages' = map (map (item_json (mcFtoa k) loc)) ps" if "paged (agent_page k loc dur server st) req pages'" for pages'
      using paged_unique [OF pages that] .
    show "concat (map (map (item_json (mcFtoa k) loc)) ps) =
        map (item_json (mcFtoa k) loc \<circ> fst) (listing s (bDb st) (list_query req))"
      by (simp only: map_concat [symmetric] ps(2) map_map)
  qed (use listing_hashes [OF inv, of s "list_query req"] in \<open>simp_all only: map_map list.set_map image_comp\<close>)
  show "bDb (snd (snd (mcp_call k loc dur server st input))) = bDb st" for input
    unfolding assms(7) by (rule mcp_call_reads)
  show "\<forall>t \<in> set (ssTools (newSDKServer docs)). ReadOnlyHint (tlAnnotations t)"
    using registered_tools(2) [of docs] by (simp add: readOnlyToolAnnotations_def)
qed (auto simp: assms(7) input_tool_registered dest!: mcp_call_error)

definition sample_codec :: mcp_codec where
  "sample_codec = \<lparr>mcFtoa = (\<lambda>_. ''0''), mcErrText = (\<lambda>_. []), mcValidate = (\<lambda>_. None)\<rparr>"

definition sample_list_request :: ListReleasesRequest where
  "sample_list_request = \<lparr>lrRef = ''tvdb:1'', lrSince = None, lrLimit = 1, lrCursor = []\<rparr>"

lemma sample_listed_reachable: "reachable sample_listed"
proof -
  have step: "reachable db \<Longrightarrow> store_step s db db' \<Longrightarrow> reachable db'" for s db db'
    unfolding reachable_def by (blast intro: runs_trans runs_single)
  have "reachable sample_db2" using sample_runs(1,2) unfolding reachable_def by (rule runs_trans)
  then show ?thesis
    unfolding sample_listed_def Let_def
    by (rule step [OF step [OF step [OF step [OF _ store_step_ops(3)] store_step_ops(1)] store_step_ops(2)] store_step_ops(3)])
qed

theorem agent_lists_everything_witness:
  "\<exists>pages. paged (agent_page sample_codec (\<lambda>_. 0) 0 (NewServerWithMetrics (postgres (\<lambda>_. sample_store 0)) None)
      \<lparr>bDb = sample_listed, bCalls = 0\<rparr>) sample_list_request pages \<and> length (concat pages) = 2"
proof -
  let ?st = "\<lparr>bDb = sample_listed, bCalls = 0\<rparr>" and ?s = "sample_store 0"
  have q: "list_query sample_list_request = sample_query" "lrCursor sample_list_request = []"
    by (simp_all add: list_query_def sample_list_request_def sample_query_def)
  have "reliable ?s" "listable ?s (bDb ?st) (list_query sample_list_request)"
    using sample_request by (simp_all add: request_ok_def q)
  moreover have "reachable (bDb ?st)" by (simp add: sample_listed_reachable)
  moreover have "\<forall>kr \<in> set (listing ?s sample_listed sample_query). item_printable (\<lambda>_. ''0'') (fst kr)" by code_simp
  then have "\<forall>kr \<in> set (listing ?s (bDb ?st) (list_query sample_list_request)). item_printable (mcFtoa sample_codec) (fst kr)"
    by (simp add: q sample_codec_def)
  moreover have "\<forall>page. mcValidate sample_codec (page_json (mcFtoa sample_codec) (\<lambda>_. 0) page) = None"
    by (simp add: sample_codec_def)
  ultimately obtain pages where pages: "paged (agent_page sample_codec (\<lambda>_. 0) 0 (NewServerWithMetrics (postgres (\<lambda>_. ?s)) None) ?st)
      sample_list_request pages"
    "concat pages = map (item_json (mcFtoa sample_codec) (\<lambda>_. 0) \<circ> fst) (listing ?s (bDb ?st) (list_query sample_list_request))"
    using agent_lists_everything [OF _ _ q(2) _ _ _ refl, of ?s ?st sample_codec "\<lambda>_. 0" 0 None] by blast
  have "length (listing ?s sample_listed sample_query) = 2" using arg_cong [OF sample_listing, of length] by simp
  with pages show ?thesis by (intro exI [of _ pages]) (simp add: q)
qed

end
