(* ===== verification/Process.thy ===== *)
theory Process
  imports Parse_Cmd Mux Sources Mcp
begin

text \<open>
  The running programs: from the configuration to a served request and to the end of the process,
  after \<open>run\<close> and \<open>runHTTP\<close> of \<open>cmd/takuhai/main.go\<close>, \<open>ServeCmd.Run\<close> of the two crawlers and the
  handler of \<open>internal/mcp/mcp.go\<close>.

  \<^item> \<open>service_world\<close> and \<open>crawler_world\<close> are what the world answers: migrations, the connection pool,
    the listener, whether a signal arrives before the server stops, and the errors of the shutdown.
  \<^item> What a program does is the list of its actions in their order.
  \<^item> \<open>sdk\<close> is the handler of the MCP library: it reads the tool calls off a request and turns their
    results into a response; the calls themselves run the tools of \<open>Mcp\<close>. It may answer differently
    in different sessions: what is shown of a request holds for every \<open>sdk\<close>.
\<close>

section \<open>Definitions\<close>

subsection \<open>MCP\<close>

datatype mcp_target = SdkHandler | McpHealth

definition mcp_patterns :: "bool \<Rightarrow> (string \<times> mcp_target) list" where
  "mcp_patterns has_health = [(''/mcp'', SdkHandler)] @ (if has_health then [(''/healthz'', McpHealth)] else [])"

subsection \<open>The routes of the service\<close>

datatype service_target = ToMcp | ToHealth | ToMetrics | ToRest

definition service_patterns :: "(string \<times> service_target) list" where
  "service_patterns =
     [(''/mcp'', ToMcp), (''/healthz'', ToHealth), (''/metrics'', ToMetrics), (''/ingest'', ToRest),
      (''/magnets/'', ToRest), (''/releases/'', ToRest), (''/queue/'', ToRest), (''/submit'', ToRest)]"

text \<open>
  The calls of a request, each with the time it takes, run one after the other; a request that is not
  a valid one of its session has none.
\<close>

record sdk =
  sdkCodec :: mcp_codec
  sdkCalls :: "request \<Rightarrow> (tool_input \<times> duration) list"
  sdkStatus :: "request \<Rightarrow> (tool_failure + CallToolResult) list \<Rightarrow> int"

fun run_tools ::
  "mcp_codec \<Rightarrow> (time \<Rightarrow> int) \<Rightarrow> 'st mcp_server \<Rightarrow> 'st \<Rightarrow> (tool_input \<times> duration) list \<Rightarrow>
   (tool_failure + CallToolResult) list \<times> sample list \<times> 'st" where
  "run_tools k loc s st [] = ([], [], st)"
| "run_tools k loc s st ((input, dur) # calls) =
     (case mcp_call k loc dur s st input of
        (res, ms, st1) \<Rightarrow> (case run_tools k loc s st1 calls of (rs, ms', st2) \<Rightarrow> (res # rs, ms @ ms', st2)))"

definition serve_sdk :: "sdk \<Rightarrow> (time \<Rightarrow> int) \<Rightarrow> 'st mcp_server \<Rightarrow> 'st \<Rightarrow> request \<Rightarrow> int \<times> sample list \<times> 'st" where
  "serve_sdk sdk loc s st r =
     (case run_tools (sdkCodec sdk) loc s st (sdkCalls sdk r) of (rs, ms, st') \<Rightarrow> (sdkStatus sdk r rs, ms, st'))"

definition serve_health :: "'st StoreSeam \<Rightarrow> 'st \<Rightarrow> int \<times> sample list \<times> 'st" where
  "serve_health ops st = (case healthz ops st of ((status, _), st') \<Rightarrow> (status, [], st'))"

definition serve_mcp ::
  "(time \<Rightarrow> int) \<Rightarrow> sdk \<Rightarrow> 'st StoreSeam \<Rightarrow> Takuhai \<Rightarrow> 'st \<Rightarrow> request \<Rightarrow> int \<times> sample list \<times> 'st" where
  "serve_mcp loc sdk ops m st r =
     (case mux_route (mcp_patterns True) (qMethod r) (qPath r) of
        Found SdkHandler \<Rightarrow> serve_sdk sdk loc (NewServerWithMetrics ops (Some m)) st r
      | Found McpHealth \<Rightarrow> serve_health ops st
      | Redirect _ \<Rightarrow> (307, [], st)
      | NoRoute \<Rightarrow> (404, [], st)
      | BadTarget \<Rightarrow> (400, [], st))"

text \<open>The mux of \<open>runHTTP\<close>.\<close>

definition serve_mux ::
  "decoders \<Rightarrow> (time \<Rightarrow> int) \<Rightarrow> sdk \<Rightarrow> 'st StoreSeam \<Rightarrow> Takuhai \<Rightarrow> 'st \<Rightarrow> request \<Rightarrow> int \<times> sample list \<times> 'st" where
  "serve_mux dec loc sdk ops m st r =
     (case mux_route service_patterns (qMethod r) (qPath r) of
        Found ToMcp \<Rightarrow> serve_mcp loc sdk ops m st r
      | Found ToHealth \<Rightarrow> serve_health ops st
      | Found ToMetrics \<Rightarrow> (200, [], snd (Collect ops st))
      | Found ToRest \<Rightarrow> (case ServeHTTP dec loc (NewWithMetrics ops (Some m)) st r of (rep, ms, st') \<Rightarrow> (hrStatus rep, ms, st'))
      | Redirect _ \<Rightarrow> (307, [], st)
      | NoRoute \<Rightarrow> (404, [], st)
      | BadTarget \<Rightarrow> (400, [], st))"

text \<open>\<open>logHTTP\<close>: the line of the request log, if there is one.\<close>

record log_line =
  llMethod :: string
  llPath :: string
  llStatus :: int

definition logHTTP :: "string list \<Rightarrow> HTTP \<Rightarrow> request \<Rightarrow> int \<Rightarrow> log_line option" where
  "logHTTP quiet routes r status =
     (let path = route (hRoutes routes) (qPath r)
      in if path \<in> set quiet then None
         else Some \<lparr>llMethod = qMethod r, llPath = path, llStatus = status\<rparr>)"

definition serve_request ::
  "decoders \<Rightarrow> (time \<Rightarrow> int) \<Rightarrow> sdk \<Rightarrow> 'st StoreSeam \<Rightarrow> Takuhai \<Rightarrow> duration \<Rightarrow> 'st \<Rightarrow> request \<Rightarrow>
   int \<times> sample list \<times> log_line option \<times> 'st" where
  "serve_request dec loc sdk ops m dur st r =
     (case serve_mux dec loc sdk ops m st r of (status, ms, st') \<Rightarrow>
        (status, ms @ http_wrap (tHTTP m) (qMethod r) (qPath r) status dur,
         logHTTP [''/healthz'', ''/metrics''] (tHTTP m) r status, st'))"

subsection \<open>The life of the service\<close>

record service_world =
  swParseConfig :: "string \<Rightarrow> string option"
  swLocker :: "string option"
  swProvider :: "string option"
  swUp :: "string option"
  swPool :: "string option"
  swListen :: "string option"
  swSignal :: bool
  swShutdown :: "string option"
  swServe :: "string option"

datatype action =
    OpenMigrations | RunMigrations | CloseMigrations
  | OpenPool | ClosePool | Listen string | Serving | ListenAndServe string | Shutdown | ForceClose | PrintLine string

text \<open>The text of \<open>http.ErrServerClosed\<close>; the model compares errors by their text.\<close>

definition ErrServerClosed :: string where "ErrServerClosed = ''http: Server closed''"

definition serve_failure :: "string option \<Rightarrow> string option" where
  "serve_failure err = (case err of None \<Rightarrow> None | Some e \<Rightarrow> if e = ErrServerClosed then None else Some e)"

text \<open>
  \<open>migrations.Run\<close>: the locker, the provider over the embedded files and the upgrade itself are
  calls of goose.
\<close>

definition newProvider :: "service_world \<Rightarrow> string option" where
  "newProvider w =
     (case swLocker w of
        Some err \<Rightarrow> Some (''migrations: new session locker: '' @ err)
      | None \<Rightarrow>
          (case swProvider w of
             Some err \<Rightarrow> Some (''migrations: new provider: '' @ err)
           | None \<Rightarrow> None))"

definition migrations_Run :: "service_world \<Rightarrow> string option \<times> action list" where
  "migrations_Run w =
     (case newProvider w of
        Some err \<Rightarrow> (Some err, [])
      | None \<Rightarrow>
          (case swUp w of
             Some err \<Rightarrow> (Some (''migrations: up: '' @ err), [RunMigrations])
           | None \<Rightarrow> (None, [RunMigrations])))"

definition runMigrations :: "service_world \<Rightarrow> string \<Rightarrow> string option \<times> action list" where
  "runMigrations w url =
     (case swParseConfig w url of
        Some err \<Rightarrow> (Some (''parse database url: '' @ err), [])
      | None \<Rightarrow>
          (case migrations_Run w of (err, acts) \<Rightarrow> (err, [OpenMigrations] @ acts @ [CloseMigrations])))"

definition runHTTP :: "service_world \<Rightarrow> string \<Rightarrow> string option \<times> action list" where
  "runHTTP w address =
     (case swListen w of
        Some err \<Rightarrow> (Some (''bind '' @ address @ '': '' @ err), [Listen address])
      | None \<Rightarrow>
          if swSignal w
          then (serve_failure (swServe w),
                [Listen address, Serving, Shutdown] @ (if swShutdown w \<noteq> None then [ForceClose] else []))
          else (serve_failure (swServe w), [Listen address, Serving]))"

definition takuhai_version :: string where "takuhai_version = ''0.1.0''"

datatype run_result = Exits int | Returns "string option" | RefusesConfig command_error

definition takuhai_run :: "os_env \<Rightarrow> string list \<Rightarrow> service_world \<Rightarrow> run_result \<times> action list" where
  "takuhai_run env args w =
     (case takuhai_config env args of
        ExitStatus n \<Rightarrow> (Exits n, [])
      | PrintVersion \<Rightarrow> (Returns None, [PrintLine takuhai_version])
      | Refused err \<Rightarrow> (RefusesConfig err, [])
      | Start conf level \<Rightarrow>
          (case runMigrations w (DatabaseURL conf) of
             (Some err, acts) \<Rightarrow> (Returns (Some (''run migrations: '' @ err)), acts)
           | (None, acts) \<Rightarrow>
               (case swPool w of
                  Some err \<Rightarrow> (Returns (Some (''connect database: '' @ err)), acts)
                | None \<Rightarrow>
                    (case runHTTP w (Addr conf) of
                       (err, acts') \<Rightarrow> (Returns err, acts @ [OpenPool] @ acts' @ [ClosePool])))))"

text \<open>\<open>main\<close>: the exit status of the process.\<close>

fun exit_status :: "run_result \<Rightarrow> int" where
  "exit_status (Exits n) = n"
| "exit_status (Returns None) = 0"
| "exit_status (Returns (Some err)) = 1"
| "exit_status (RefusesConfig err) = 1"

subsection \<open>The life of a crawler\<close>

datatype crawler_target = ToCrawl | ToCrawlerMetrics

definition crawler_patterns :: "(string \<times> crawler_target) list" where
  "crawler_patterns = [(''/crawl'', ToCrawl), (''/metrics'', ToCrawlerMetrics)]"

definition crawler_request ::
  "crawl_env \<Rightarrow> crawl_server \<Rightarrow> CrawlerMetrics \<Rightarrow> duration \<Rightarrow> request \<Rightarrow>
   int \<times> crawl_reply option \<times> sample list \<times> log_line option" where
  "crawler_request ce sv m dur r =
     (let (status, rep, ms) = (case mux_route crawler_patterns (qMethod r) (qPath r) of
          Found ToCrawl \<Rightarrow> (case crawl_serve ce sv (qMethod r) (qBody r) of (rep, ms) \<Rightarrow> (reply_status rep, Some rep, ms))
        | Found ToCrawlerMetrics \<Rightarrow> (200, None, [])
        | Redirect _ \<Rightarrow> (307, None, [])
        | NoRoute \<Rightarrow> (404, None, [])
        | BadTarget \<Rightarrow> (400, None, []))
      in (status, rep, ms @ http_wrap (cmHTTP m) (qMethod r) (qPath r) status dur,
          logHTTP [''/metrics''] (cmHTTP m) r status))"

record crawler_world =
  cwServe :: "string option"
  cwSignal :: bool
  cwShutdown :: "string option"

text \<open>
  The part of \<open>ServeCmd.Run\<close> that both crawlers have: it ends when the server fails before a signal, or after a signal with the error
  of the shutdown. A server that ends without a failure is waited for until the signal.
\<close>

definition crawler_run :: "string \<Rightarrow> crawler_world \<Rightarrow> string option \<times> action list" where
  "crawler_run address w =
     (case (if cwSignal w then None else serve_failure (cwServe w)) of
        Some err \<Rightarrow> (Some err, [ListenAndServe address])
      | None \<Rightarrow> (cwShutdown w, [ListenAndServe address, Shutdown]))"

definition dmhy_Run :: "dmhy_ServeCmd \<Rightarrow> crawler_world \<Rightarrow> string option \<times> action list" where
  "dmhy_Run c w = crawler_run (dsAddr c) w"

definition nyaa_Run :: "nyaa_ServeCmd \<Rightarrow> crawler_world \<Rightarrow> string option \<times> action list" where
  "nyaa_Run c w = crawler_run (nsAddr c) w"

text \<open>\<open>run\<close> of the two programs: the command of the line, and what it comes to.\<close>

datatype crawler_end =
    BadCommand command_error
  | Version string
  | Served "string option" "action list"
  | Parsed "string list" "parse_error option"

definition dmhy_run ::
  "(time \<Rightarrow> int) \<Rightarrow> platform \<Rightarrow> os_env \<Rightarrow> crawler_world \<Rightarrow> parse_world \<Rightarrow> string list \<Rightarrow> crawler_end" where
  "dmhy_run loc plat env w pw args =
     (case dmhy_command env args of
        Inl err \<Rightarrow> BadCommand err
      | Inr DmhyVersion \<Rightarrow> Version takuhai_version
      | Inr (DmhyServe c) \<Rightarrow> (case dmhy_Run c w of (err, acts) \<Rightarrow> Served err acts)
      | Inr (DmhyParse c) \<Rightarrow> (case ParseCmd_Run loc plat pw c of (out, err) \<Rightarrow> Parsed out err))"

definition nyaa_run :: "os_env \<Rightarrow> crawler_world \<Rightarrow> string list \<Rightarrow> crawler_end" where
  "nyaa_run env w args =
     (case nyaa_command env args of
        Inl err \<Rightarrow> BadCommand err
      | Inr NyaaVersion \<Rightarrow> Version takuhai_version
      | Inr (NyaaServe c) \<Rightarrow> (case nyaa_Run c w of (err, acts) \<Rightarrow> Served err acts))"

fun crawler_status :: "crawler_end \<Rightarrow> int" where
  "crawler_status (BadCommand err) = 1"
| "crawler_status (Version v) = 0"
| "crawler_status (Served err acts) = (if err = None then 0 else 1)"
| "crawler_status (Parsed out err) = (if err = None then 0 else 1)"

definition dmhy_crawl_server ::
  "platform \<Rightarrow> fetch_env \<Rightarrow> time \<Rightarrow> cache_view \<Rightarrow> dmhy_ServeCmd \<Rightarrow> crawl_server" where
  "dmhy_crawl_server plat e wall cache_at c =
     dmhy_server plat e wall cache_at (dsBaseURL c) (dsSortID c) (dsRateRPS c) (dsCacheTTL c) (Some NewCrawlerMetrics)"

definition nyaa_crawl_server ::
  "(string \<Rightarrow> int list option) \<Rightarrow> platform \<Rightarrow> fetch_env \<Rightarrow> time \<Rightarrow> url_ops \<Rightarrow> nyaa_ServeCmd \<Rightarrow> crawl_server" where
  "nyaa_crawl_server ents plat e wall ops c =
     nyaa_server ents plat e wall ops (nsBaseURL c) (nsQuery c) (nsCategory c) (nsFilter c) (nsRateRPS c)
       (Some NewCrawlerMetrics)"

section \<open>Lemmas\<close>

subsection \<open>Requests\<close>

lemma service_exact:
  "map_of service_patterns path = Some h \<Longrightarrow>
   path \<in> {''/mcp'', ''/healthz'', ''/metrics'', ''/ingest'', ''/submit''} \<or>
   prefix ''/magnets/'' path \<or> prefix ''/releases/'' path \<or> h = ToRest \<and> path = ''/queue/''"
  by (drule map_of_SomeD) (auto simp: service_patterns_def)

lemma service_tree:
  "best_tree service_patterns path = Some (pat, h) \<Longrightarrow>
   h = ToRest \<and> (prefix ''/magnets/'' path \<or> prefix ''/releases/'' path \<or> prefix ''/queue/'' path)"
  by (auto simp: service_patterns_def is_tree_def split: if_splits option.splits)

lemma service_found:
  assumes "mux_find service_patterns path = Some h"
  shows "path \<in> {''/mcp'', ''/healthz'', ''/metrics'', ''/ingest'', ''/submit''} \<or>
   prefix ''/magnets/'' path \<or> prefix ''/releases/'' path \<or> h = ToRest \<and> prefix ''/queue/'' path"
  using assms service_exact [of path h] service_tree [of path]
  by (cases "map_of service_patterns path") (auto simp: mux_find_def)

text \<open>The label of a path that some handler knows.\<close>

lemma label_exact: "map_of takuhai_routes path = Some l \<Longrightarrow> l \<noteq> ''other''"
  by (drule map_of_SomeD) (auto simp: takuhai_routes_def)

lemma label_find: "find P takuhai_routes = Some (p, l) \<Longrightarrow> l \<noteq> ''other''"
  by (drule find_SomeD) (auto simp: takuhai_routes_def)

lemma label_other:
  assumes "route takuhai_routes path = ''other''"
  shows "path \<notin> fst ` set takuhai_routes" "\<not> prefix ''/magnets/'' path" "\<not> prefix ''/releases/'' path"
proof -
  have none: "map_of takuhai_routes path = None"
    using assms label_exact by (cases "map_of takuhai_routes path") (auto simp: route_def)
  then show "path \<notin> fst ` set takuhai_routes" by (simp add: map_of_eq_None_iff)
  have f: "find (\<lambda>(p, r). suffix ''/'' p \<and> prefix p path) takuhai_routes = None"
    using assms none label_find by (fastforce simp: route_def split: option.splits)
  have "(''/magnets/'', ''/magnets/{infohash}'') \<in> set takuhai_routes" "(''/releases/'', ''/releases/{infohash}'') \<in> set takuhai_routes"
    by (simp_all add: takuhai_routes_def)
  moreover have "suffix ''/'' ''/magnets/''" "suffix ''/'' ''/releases/''" by (simp_all add: suffix_def)
  ultimately show "\<not> prefix ''/magnets/'' path" "\<not> prefix ''/releases/'' path"
    using f unfolding find_None_iff by fastforce+
qed

lemma serve_other:
  assumes "route takuhai_routes (qPath r) = ''other''" "mux_find service_patterns (qPath r) = Some h"
  shows "h = ToRest \<and> ServeHTTP dec loc hn st r = (reply 404 (TextReply ''404 page not found''), [], st)"
proof -
  note l = label_other [OF assms(1)]
  have "h = ToRest" using service_found [OF assms(2)] l by (auto simp: takuhai_routes_def)
  moreover have "qPath r \<notin> {''/ingest'', ''/queue/claim'', ''/queue/stats'', ''/submit''}"
    using l(1) by (auto simp: takuhai_routes_def)
  ultimately show ?thesis using l(2,3) by (simp add: ServeHTTP_def)
qed

lemma serve_writes:
  assumes "bDb (snd (snd (ServeHTTP dec loc (service env m) st r))) \<noteq> bDb st"
  shows "qMethod r = ''POST'' \<and> qPath r \<in> {''/ingest'', ''/queue/claim'', ''/submit''}"
proof -
  have "qMethod r = ''POST''" using assms serve_get by blast
  moreover have "qPath r \<in> {''/ingest'', ''/queue/claim'', ''/submit''}"
  proof (rule ccontr)
    assume "qPath r \<notin> {''/ingest'', ''/queue/claim'', ''/submit''}"
    then have "bDb (snd (snd (ServeHTTP dec loc (service env m) st r))) = bDb st"
      by (auto simp: ServeHTTP_def handler_defs requirePost_def typed_defs read_call_eq
          split: option.split sum.split prod.split)
    with assms show False by simp
  qed
  ultimately show ?thesis by blast
qed

text \<open>The tools of a request, one after the other, read only and record what they may.\<close>

lemma run_tools_reads:
  "bDb (snd (snd (run_tools k loc (NewServerWithMetrics (postgres env) m) st calls))) = bDb st"
proof (induction calls arbitrary: st)
  case (Cons call calls)
  obtain input dur where "call = (input, dur)" by (cases call)
  then show ?case using Cons mcp_call_reads [of k loc dur env m st input] by (simp split: prod.split) (metis snd_conv)
qed simp

lemma run_tools_samples: "list_all (accepted takuhai_metrics) (fst (snd (run_tools k loc s st calls)))"
proof (induction calls arbitrary: st)
  case (Cons call calls)
  obtain input dur where "call = (input, dur)" by (cases call)
  then show ?case using Cons mcp_call_samples [of k loc dur s st input] by (simp split: prod.split) (metis fst_conv snd_conv)
qed simp

lemma health_reads: "bDb (snd (snd (serve_health (postgres env) st))) = bDb st" "fst (snd (serve_health ops st)) = []"
  using tools_read_only(4) [of env st] by (auto simp: serve_health_def split: prod.splits)

lemma collect_reads: "bDb (snd (Collect (postgres env) st)) = bDb st"
  by (simp add: Collect_def postgres_def read_call_eq Let_def split: prod.split sum.split)

lemma mcp_reads:
  "bDb (snd (snd (serve_mcp loc sdk (postgres env) m st r))) = bDb st"
  "list_all (accepted takuhai_metrics) (fst (snd (serve_mcp loc sdk (postgres env) m st r)))"
  using health_reads run_tools_reads [of "sdkCodec sdk" loc env "Some m" st "sdkCalls sdk r"]
    run_tools_samples [of "sdkCodec sdk" loc "NewServerWithMetrics (postgres env) (Some m)" st "sdkCalls sdk r"]
  by (auto simp: serve_mcp_def serve_sdk_def split: mux_result.split mcp_target.split prod.split)

lemma serve_mux_cases:
  "(case ServeHTTP dec loc (service env (Some m)) st r of (rep, ms, st') \<Rightarrow>
      serve_mux dec loc sdk (postgres env) m st r = (hrStatus rep, ms, st')) \<or>
   bDb (snd (snd (serve_mux dec loc sdk (postgres env) m st r))) = bDb st \<and>
   list_all (accepted takuhai_metrics) (fst (snd (serve_mux dec loc sdk (postgres env) m st r)))"
proof (cases "mux_route service_patterns (qMethod r) (qPath r)")
  case (Found h)
  show ?thesis
  proof (cases "h = ToRest")
    case True
    with Found show ?thesis by (auto simp: serve_mux_def split: prod.split)
  next
    case False
    with Found show ?thesis using mcp_reads health_reads collect_reads
      by (cases h) (simp_all add: serve_mux_def)
  qed
qed (simp_all add: serve_mux_def)

text \<open>The registered trees.\<close>

lemma service_roots: "map_of service_patterns (path @ ''/'') \<noteq> None \<longleftrightarrow> path \<in> {''/magnets'', ''/releases'', ''/queue''}"
proof -
  have "map_of service_patterns (path @ ''/'') \<noteq> None \<longleftrightarrow>
      path @ ''/'' \<in> {''/mcp'', ''/healthz'', ''/metrics'', ''/ingest'', ''/magnets'' @ ''/'', ''/releases'' @ ''/'', ''/queue'' @ ''/'', ''/submit''}"
    unfolding map_of_eq_None_iff by (auto simp: service_patterns_def)
  also have "\<dots> \<longleftrightarrow> path \<in> {''/magnets'', ''/releases'', ''/queue''}"
    using arg_cong [of _ _ last] by (auto simp del: append.simps)
  finally show ?thesis .
qed

lemma service_root:
  assumes "path \<in> {''/magnets'', ''/releases'', ''/queue''}"
  shows "map_of service_patterns path = None \<and> \<not> is_tree path \<and> path \<noteq> [] \<and> cleanPath path = path \<and> path \<noteq> ''*''"
proof -
  have "\<forall>path \<in> {''/magnets'', ''/releases'', ''/queue''}.
    map_of service_patterns path = None \<and> \<not> is_tree path \<and> path \<noteq> [] \<and> cleanPath path = path \<and> path \<noteq> ''*''" by code_simp
  from bspec [OF this assms] show ?thesis .
qed

lemmas service_route = mux_route_trees [OF service_roots service_root]

lemma serve_mux_other:
  assumes "route takuhai_routes (qPath r) = ''other''"
  shows "fst (serve_mux dec loc sdk ops m st r) =
    (if qPath r = ''*'' then 400
     else if qMethod r \<noteq> ''CONNECT'' \<and> cleanPath (qPath r) \<noteq> qPath r \<or> qPath r \<in> {''/magnets'', ''/releases'', ''/queue''} then 307
     else 404)"
proof (cases "mux_find service_patterns (qPath r)")
  case None
  then show ?thesis by (simp add: serve_mux_def service_route del: insert_iff)
next
  case (Some h)
  with serve_other [OF assms Some, of dec loc "NewWithMetrics ops (Some m)" st] show ?thesis
    by (simp add: serve_mux_def service_route reply_def del: insert_iff)
qed

subsection \<open>The life of a program\<close>

lemma runHTTP_result: "fst (runHTTP w a) = (case swListen w of Some err \<Rightarrow> Some (''bind '' @ a @ '': '' @ err) | None \<Rightarrow> serve_failure (swServe w))"
  by (simp add: runHTTP_def split: option.split)

definition migrated :: "action list" where
  "migrated = [OpenMigrations, RunMigrations, CloseMigrations]"

lemma migrations_ok: "fst (migrations_Run w) = None \<longleftrightarrow> swLocker w = None \<and> swProvider w = None \<and> swUp w = None"
  by (simp add: migrations_Run_def newProvider_def split: option.split)

lemma migrations_acts: "fst (migrations_Run w) = None \<Longrightarrow> snd (migrations_Run w) = [RunMigrations]"
  "set (snd (migrations_Run w)) \<subseteq> {RunMigrations}"
  by (auto simp: migrations_Run_def split: option.splits)

lemma takuhai_run_Start:
  assumes "takuhai_config env args = Start conf level"
  shows "takuhai_run env args w =
    (case swParseConfig w (DatabaseURL conf) of
       Some err \<Rightarrow> (Returns (Some (''run migrations: parse database url: '' @ err)), [])
     | None \<Rightarrow>
         (case fst (migrations_Run w) of
            Some err \<Rightarrow> (Returns (Some (''run migrations: '' @ err)), [OpenMigrations] @ snd (migrations_Run w) @ [CloseMigrations])
          | None \<Rightarrow>
              (case swPool w of
                 Some err \<Rightarrow> (Returns (Some (''connect database: '' @ err)), migrated)
               | None \<Rightarrow> (Returns (fst (runHTTP w (Addr conf))),
                          migrated @ [OpenPool] @ snd (runHTTP w (Addr conf)) @ [ClosePool]))))"
  using assms migrations_acts(1) [of w]
  by (auto simp: takuhai_run_def runMigrations_def migrated_def split: option.split prod.split)

lemma takuhai_run_quiet:
  assumes "\<nexists>conf level. takuhai_config env args = Start conf level"
  shows "snd (takuhai_run env args w) \<in> {[], [PrintLine takuhai_version]}"
  using assms by (cases "takuhai_config env args") (auto simp: takuhai_run_def)

lemma crawler_run_cases:
  "crawler_run a w =
     (if \<not> cwSignal w \<and> serve_failure (cwServe w) \<noteq> None then (cwServe w, [ListenAndServe a])
      else (cwShutdown w, [ListenAndServe a, Shutdown]))"
  by (auto simp: crawler_run_def serve_failure_def split: option.splits if_splits)

lemma dmhy_run_serves:
  "dmhy_run loc plat env cw pw args = Served err acts \<longleftrightarrow>
   (\<exists>rest c. args = ''serve'' # rest \<and> dmhy_parseServe env rest = Inr c \<and> (err, acts) = crawler_run (dsAddr c) cw)"
  by (cases args)
    (auto simp: dmhy_run_def dmhy_command_def dmhy_Run_def map_sum_def split: sum.split prod.split dmhy_command.split)

lemma nyaa_run_serves:
  "nyaa_run env cw args = Served err acts \<longleftrightarrow>
   (\<exists>rest c. args = ''serve'' # rest \<and> nyaa_parseServe env rest = Inr c \<and> (err, acts) = crawler_run (nsAddr c) cw)"
  by (cases args)
    (auto simp: nyaa_run_def nyaa_command_def nyaa_Run_def map_sum_def split: sum.split prod.split nyaa_command.split)

section \<open>Properties\<close>

text \<open>
  C18: a request to the service. Whatever is asked, the database stays reachable and keeps its
  invariant, and it changes only for a \<open>POST\<close> to \<open>/ingest\<close>, \<open>/queue/claim\<close> or \<open>/submit\<close>: the tools that
  a request for \<open>/mcp\<close> calls, whichever the MCP library finds in it, change nothing. The samples
  recorded have a kind, a number of labels and a sign that the metrics of the service declare, and
  end with those of the request; a request for a path that the metrics call \<open>other\<close> is redirected
  when the path is not clean or the root of a tree, a bad request when it is \<open>*\<close>, and not found
  otherwise; and every request is logged but those for the health check and the metrics.
\<close>

theorem service_request:
  assumes "serve_request dec loc sdk (postgres env) m dur st r = (status, ms, line, st')"
    and "hRoutes (tHTTP m) = takuhai_routes"
  shows "(reachable (bDb st) \<longrightarrow> reachable (bDb st') \<and> db_inv (bDb st')) \<and>
    (bDb st' \<noteq> bDb st \<longrightarrow> qMethod r = ''POST'' \<and> qPath r \<in> {''/ingest'', ''/queue/claim'', ''/submit''}) \<and>
    list_all (accepted takuhai_metrics) ms \<and>
    suffix (http_wrap (tHTTP m) (qMethod r) (qPath r) status dur) ms \<and>
    (route takuhai_routes (qPath r) = ''other'' \<longrightarrow> status =
      (if qPath r = ''*'' then 400
       else if qMethod r \<noteq> ''CONNECT'' \<and> cleanPath (qPath r) \<noteq> qPath r \<or> qPath r \<in> {''/magnets'', ''/releases'', ''/queue''} then 307
       else 404)) \<and>
    (line = None \<longleftrightarrow> route takuhai_routes (qPath r) \<in> {''/healthz'', ''/metrics''})"
proof -
  obtain ms0 where mux: "serve_mux dec loc sdk (postgres env) m st r = (status, ms0, st')"
    and ms: "ms = ms0 @ http_wrap (tHTTP m) (qMethod r) (qPath r) status dur"
    and line: "line = logHTTP [''/healthz'', ''/metrics''] (tHTTP m) r status"
    using assms(1) by (auto simp: serve_request_def split: prod.splits)
  have "(reachable (bDb st) \<longrightarrow> reachable (bDb st') \<and> db_inv (bDb st')) \<and>
    (bDb st' \<noteq> bDb st \<longrightarrow> qMethod r = ''POST'' \<and> qPath r \<in> {''/ingest'', ''/queue/claim'', ''/submit''}) \<and>
    list_all (accepted takuhai_metrics) ms0"
    using serve_mux_cases [where dec = dec and loc = loc and env = env and m = m and st = st and r = r and sdk = sdk]
  proof (elim disjE conjE)
    assume h: "case ServeHTTP dec loc (service env (Some m)) st r of (rep, ms, st') \<Rightarrow>
        serve_mux dec loc sdk (postgres env) m st r = (hrStatus rep, ms, st')"
    obtain rep where rep: "ServeHTTP dec loc (service env (Some m)) st r = (rep, ms0, st')"
      using h mux by (auto split: prod.splits)
    from rest_refines_store [OF rep] have "reachable (bDb st) \<longrightarrow> reachable (bDb st') \<and> db_inv (bDb st')" by blast
    moreover have "bDb st' \<noteq> bDb st \<longrightarrow> qMethod r = ''POST'' \<and> qPath r \<in> {''/ingest'', ''/queue/claim'', ''/submit''}"
      using serve_writes [of dec loc env "Some m" st r] rep by simp
    moreover have "list_all (accepted takuhai_metrics) ms0"
      using samples_Serve [of dec loc "service env (Some m)" st r] rep by simp
    ultimately show ?thesis by blast
  next
    assume "bDb (snd (snd (serve_mux dec loc sdk (postgres env) m st r))) = bDb st"
      "list_all (accepted takuhai_metrics) (fst (snd (serve_mux dec loc sdk (postgres env) m st r)))"
    then show ?thesis using mux reachable_inv by auto
  qed
  moreover note serve_mux_other [of r dec loc sdk "postgres env" m st, unfolded mux fst_conv]
  moreover have "list_all (accepted takuhai_metrics) (http_wrap (tHTTP m) (qMethod r) (qPath r) status dur)"
    by (rule takuhai_samples_accepted)
  ultimately show ?thesis using ms line assms(2) by (simp add: logHTTP_def Let_def suffix_def)
qed

definition sample_sdk :: sdk where
  "sample_sdk =
     \<lparr>sdkCodec = sample_codec,
      sdkCalls = (\<lambda>r. if qMethod r = ''POST'' then [(ListReleasesInput sample_list_request, 0)] else []),
      sdkStatus = (\<lambda>r results. if qMethod r = ''POST'' then 200 else 405)\<rparr>"

theorem service_request_witness:
  "let r = \<lparr>qMethod = ''GET'', qPath = ''/queue/other'', qBody = None\<rparr>;
       q = \<lparr>qMethod = ''POST'', qPath = ''/mcp'', qBody = None\<rparr>;
       serve = serve_request sample_decoders (\<lambda>_. 0) sample_sdk (postgres sample_env) (fst NewTakuhai) 0 sample_backend
   in fst (serve r) = 404 \<and> fst (snd (snd (serve r))) \<noteq> None \<and>
      bDb (snd (snd (snd (serve q)))) = empty_database \<and> fst (snd (snd (serve q))) \<noteq> None"
proof -
  let ?r = "\<lparr>qMethod = ''GET'', qPath = ''/queue/other'', qBody = None\<rparr>"
  let ?q = "\<lparr>qMethod = ''POST'', qPath = ''/mcp'', qBody = None\<rparr>"
  let ?serve = "serve_request sample_decoders (\<lambda>_. 0) sample_sdk (postgres sample_env) (fst NewTakuhai) 0 sample_backend"
  have e: "?serve x = (fst (?serve x), fst (snd (?serve x)), fst (snd (snd (?serve x))), snd (snd (snd (?serve x))))" for x by simp
  have m: "hRoutes (tHTTP (fst NewTakuhai)) = takuhai_routes" by (simp add: NewTakuhai_def)
  have l: "route takuhai_routes ''/queue/other'' = ''other''" "route takuhai_routes ''/mcp'' \<notin> {''/healthz'', ''/metrics''}"
    "cleanPath ''/queue/other'' = ''/queue/other''" by code_simp+
  have "fst (?serve ?r) = 404" "fst (snd (snd (?serve ?r))) \<noteq> None" using service_request [OF e m, of ?r] l by auto
  moreover have "bDb (snd (snd (snd (?serve ?q)))) = empty_database" "fst (snd (snd (?serve ?q))) \<noteq> None"
    using service_request [OF e m, of ?q] l by (auto simp: sample_backend_def)
  ultimately show ?thesis by (simp only: Let_def simp_thms)
qed

text \<open>
  C33: the life of the programs. The service touches nothing unless its configuration is valid;
  it serves only after its migrations have succeeded and its pool is open, it opens the listener
  before it serves, and it closes the pool last whenever it was opened; after a signal it shuts the
  server down, and closes it by force exactly when that fails. It exits with 0 after a signal or a
  stop unless something failed. A crawler serves exactly when its \<open>serve\<close> line and its environment
  are valid, at the configured address; it then ends when its server fails, or shuts down after a
  signal and reports a failed shutdown.
\<close>

theorem program_life:
  "((\<nexists>conf level. takuhai_config env args = Start conf level) \<longrightarrow>
      snd (takuhai_run env args w) \<in> {[], [PrintLine takuhai_version]}) \<and>
   (takuhai_config env args = Start conf level \<longrightarrow> Validate conf = None \<and>
      (Serving \<in> set (snd (takuhai_run env args w)) \<longleftrightarrow>
         swParseConfig w (DatabaseURL conf) = None \<and> fst (migrations_Run w) = None \<and> swPool w = None \<and> swListen w = None) \<and>
      (Serving \<in> set (snd (takuhai_run env args w)) \<longrightarrow>
         snd (takuhai_run env args w) = migrated @ [OpenPool, Listen (Addr conf), Serving] @
           (if swSignal w then Shutdown # (if swShutdown w = None then [] else [ForceClose]) else []) @ [ClosePool]) \<and>
      (OpenPool \<in> set (snd (takuhai_run env args w)) \<longrightarrow> last (snd (takuhai_run env args w)) = ClosePool) \<and>
      (exit_status (fst (takuhai_run env args w)) = 0 \<longleftrightarrow>
         Serving \<in> set (snd (takuhai_run env args w)) \<and> (swServe w = None \<or> swServe w = Some ErrServerClosed))) \<and>
   (dmhy_run loc plat cenv cw pw cargs = Served err acts \<longleftrightarrow>
      (\<exists>rest c. cargs = ''serve'' # rest \<and> dmhy_parseServe cenv rest = Inr c \<and> (err, acts) = crawler_run (dsAddr c) cw)) \<and>
   (nyaa_run cenv cw cargs = Served err acts \<longleftrightarrow>
      (\<exists>rest c. cargs = ''serve'' # rest \<and> nyaa_parseServe cenv rest = Inr c \<and> (err, acts) = crawler_run (nsAddr c) cw)) \<and>
   crawler_run a cw =
     (if \<not> cwSignal cw \<and> serve_failure (cwServe cw) \<noteq> None then (cwServe cw, [ListenAndServe a])
      else (cwShutdown cw, [ListenAndServe a, Shutdown]))"
proof (intro conjI impI dmhy_run_serves nyaa_run_serves crawler_run_cases)
  let ?acts = "snd (takuhai_run env args w)"
  show "?acts \<in> {[], [PrintLine takuhai_version]}" if "\<nexists>conf level. takuhai_config env args = Start conf level"
    using takuhai_run_quiet [OF that] .
  assume start: "takuhai_config env args = Start conf level"
  then show "Validate conf = None" by (rule takuhai_config_Start)
  have acts: "?acts = (if swParseConfig w (DatabaseURL conf) \<noteq> None then []
      else if fst (migrations_Run w) \<noteq> None then [OpenMigrations] @ snd (migrations_Run w) @ [CloseMigrations]
      else if swPool w \<noteq> None then migrated
      else migrated @ [OpenPool] @ snd (runHTTP w (Addr conf)) @ [ClosePool])"
    unfolding takuhai_run_Start [OF start] by (auto split: option.split)
  show "Serving \<in> set ?acts \<longleftrightarrow>
      swParseConfig w (DatabaseURL conf) = None \<and> fst (migrations_Run w) = None \<and> swPool w = None \<and> swListen w = None"
    using migrations_acts(2) [of w] unfolding acts by (auto simp: migrated_def runHTTP_def split: option.splits if_splits)
  show "?acts = migrated @ [OpenPool, Listen (Addr conf), Serving] @
      (if swSignal w then Shutdown # (if swShutdown w = None then [] else [ForceClose]) else []) @ [ClosePool]"
    if "Serving \<in> set ?acts"
    using that migrations_acts(2) [of w] unfolding acts by (auto simp: migrated_def runHTTP_def split: option.splits if_splits)
  show "last ?acts = ClosePool" if "OpenPool \<in> set ?acts"
    using that migrations_acts(2) [of w] unfolding acts by (auto simp: migrated_def split: if_splits)
  show "exit_status (fst (takuhai_run env args w)) = 0 \<longleftrightarrow>
      Serving \<in> set ?acts \<and> (swServe w = None \<or> swServe w = Some ErrServerClosed)"
    using migrations_acts(2) [of w] unfolding acts unfolding takuhai_run_Start [OF start]
    by (auto simp: migrated_def runHTTP_def serve_failure_def split: option.splits if_splits)
qed

definition sample_service_world :: service_world where
  "sample_service_world =
     \<lparr>swParseConfig = (\<lambda>_. None), swLocker = None, swProvider = None, swUp = None, swPool = None, swListen = None, swSignal = True,
      swShutdown = Some ''context deadline exceeded'', swServe = Some ErrServerClosed\<rparr>"

theorem program_life_witness:
  "snd (takuhai_run sample_os_env (command_line sample_settings) sample_service_world) =
     migrated @ [OpenPool, Listen (Addr sample_conf), Serving, Shutdown, ForceClose, ClosePool]"
  using program_life [of sample_os_env "command_line sample_settings" sample_service_world sample_conf 4] sample_start
  by (simp add: sample_service_world_def migrations_Run_def newProvider_def)

end
