(* ===== verification/Dispatch_Bytes.thy ===== *)
theory Dispatch_Bytes
  imports Bodies
begin

text \<open>
  The byte-level operations of \<open>internal/dispatch/dispatch.go\<close>: each decodes its input, runs the
  typed operation and encodes the result. An error of \<open>encoding/json\<close> is outside the closed
  taxonomy, so that its wire code is empty.
\<close>

section \<open>Definitions\<close>

datatype byte_error = UnmarshalError | MarshalError | TypedError dispatch_error

fun byte_WireCode :: "byte_error \<Rightarrow> string" where
  "byte_WireCode (TypedError err) = WireCode err"
| "byte_WireCode _ = ''''"

definition encoded :: "('out \<Rightarrow> json option) \<Rightarrow> (dispatch_error + 'out) \<times> 'st \<Rightarrow> (byte_error + string) \<times> 'st" where
  "encoded marshal res =
     (case res of
        (Inl err, st') \<Rightarrow> (Inl (TypedError err), st')
      | (Inr out, st') \<Rightarrow> (case marshal out of None \<Rightarrow> Inl MarshalError | Some j \<Rightarrow> Inr (json_print j), st'))"

definition Claim_bytes ::
  "(time \<Rightarrow> int) \<Rightarrow> 'st Dispatcher \<Rightarrow> 'st \<Rightarrow> string \<Rightarrow> (byte_error + string) \<times> 'st" where
  "Claim_bytes loc d st input =
     (case decode_claim input of
        None \<Rightarrow> (Inl UnmarshalError, st)
      | Some req \<Rightarrow> encoded (Some \<circ> claim_json) (ClaimTyped loc d st req))"

definition Submit_bytes :: "'st Dispatcher \<Rightarrow> 'st \<Rightarrow> string \<Rightarrow> (byte_error + string) \<times> 'st" where
  "Submit_bytes d st input =
     (case decode_submit input of
        None \<Rightarrow> (Inl UnmarshalError, st)
      | Some req \<Rightarrow>
          (case SubmitTyped d st req of
             (Inl err, st') \<Rightarrow> (Inl (TypedError err), st')
           | (Inr _, st') \<Rightarrow> (Inr (json_print ok_json), st')))"

definition QueueStats_bytes :: "'st Dispatcher \<Rightarrow> 'st \<Rightarrow> string \<Rightarrow> (byte_error + string) \<times> 'st" where
  "QueueStats_bytes d st input = encoded (Some \<circ> stats_json) (QueueStatsTyped d st)"

definition ListReleases_bytes ::
  "(float64 \<Rightarrow> string) \<Rightarrow> (time \<Rightarrow> int) \<Rightarrow> 'st Dispatcher \<Rightarrow> 'st \<Rightarrow> string \<Rightarrow> (byte_error + string) \<times> 'st" where
  "ListReleases_bytes ftoa loc d st input =
     (case decode_list input of
        None \<Rightarrow> (Inl UnmarshalError, st)
      | Some req \<Rightarrow> encoded (list_json ftoa) (ListReleasesTyped loc d st req))"

definition GetRelease_bytes ::
  "(float64 \<Rightarrow> string) \<Rightarrow> (time \<Rightarrow> int) \<Rightarrow> 'st Dispatcher \<Rightarrow> 'st \<Rightarrow> string \<Rightarrow> (byte_error + string) \<times> 'st" where
  "GetRelease_bytes ftoa loc d st input =
     (case decode_get input of
        None \<Rightarrow> (Inl UnmarshalError, st)
      | Some req \<Rightarrow> encoded (release_json ftoa) (GetReleaseTyped loc d st req))"

definition ResolveMagnets_bytes :: "'st Dispatcher \<Rightarrow> 'st \<Rightarrow> string \<Rightarrow> (byte_error + string) \<times> 'st" where
  "ResolveMagnets_bytes d st input =
     (case decode_resolve input of
        None \<Rightarrow> (Inl UnmarshalError, st)
      | Some req \<Rightarrow> encoded (Some \<circ> magnets_json) (ResolveMagnetsTyped d st req))"

section \<open>Lemmas\<close>

lemmas bytes_defs = Claim_bytes_def Submit_bytes_def QueueStats_bytes_def ListReleases_bytes_def
  GetRelease_bytes_def ResolveMagnets_bytes_def

lemma snd_encoded [simp]: "snd (encoded marshal res) = snd res"
  by (simp add: encoded_def split: prod.split sum.split)

context store_seam
begin

lemma rel_bytes:
  "rel st (snd (Claim_bytes loc (New ops) st input))"
  "rel st (snd (Submit_bytes (New ops) st input))"
  "rel st (snd (QueueStats_bytes (New ops) st input))"
  "rel st (snd (ListReleases_bytes ftoa loc (New ops) st input))"
  "rel st (snd (GetRelease_bytes ftoa loc (New ops) st input))"
  "rel st (snd (ResolveMagnets_bytes (New ops) st input))"
  using rel_typed by (auto simp: bytes_defs rel_refl split: option.split sum.split prod.split)

end

text \<open>On the PostgreSQL store, a byte-level operation keeps a reachable database reachable.\<close>

lemma bytes_keep_reachable:
  assumes "reachable (bDb st)"
  shows "reachable (bDb (snd (Claim_bytes loc (New (postgres env)) st input)))"
    "reachable (bDb (snd (Submit_bytes (New (postgres env)) st input)))"
    "reachable (bDb (snd (QueueStats_bytes (New (postgres env)) st input)))"
    "reachable (bDb (snd (ListReleases_bytes ftoa loc (New (postgres env)) st input)))"
    "reachable (bDb (snd (GetRelease_bytes ftoa loc (New (postgres env)) st input)))"
    "reachable (bDb (snd (ResolveMagnets_bytes (New (postgres env)) st input)))"
proof -
  have "reachable (bDb st')" if "store_run st st'" for st'
    using that assms by (auto simp: store_run_def reachable_def intro: runs_trans)
  note r = this
  show "reachable (bDb (snd (Claim_bytes loc (New (postgres env)) st input)))"
    "reachable (bDb (snd (Submit_bytes (New (postgres env)) st input)))"
    "reachable (bDb (snd (QueueStats_bytes (New (postgres env)) st input)))"
    "reachable (bDb (snd (ListReleases_bytes ftoa loc (New (postgres env)) st input)))"
    "reachable (bDb (snd (GetRelease_bytes ftoa loc (New (postgres env)) st input)))"
    "reachable (bDb (snd (ResolveMagnets_bytes (New (postgres env)) st input)))"
    by (rule r, rule pg.rel_bytes)+
qed

text \<open>The bytes of a claim, when its texts are UTF-8, are read back as what the typed operation hands out.\<close>

lemma Claim_bytes_reads_back:
  assumes "Claim_bytes loc d st input = (Inr js, st')"
  obtains req out where "decode_claim input = Some req" "ClaimTyped loc d st req = (Inr out, st')" "js = json_print (claim_json out)"
    "list_all claim_item_text (crpItems out) \<longrightarrow> json_parse js = Some (claim_json out)"
proof -
  from assms obtain req where req: "decode_claim input = Some req"
    by (auto simp: Claim_bytes_def split: option.splits)
  with assms obtain out where out: "ClaimTyped loc d st req = (Inr out, st')" "js = json_print (claim_json out)"
    by (auto simp: Claim_bytes_def encoded_def split: sum.splits prod.splits)
  with req show thesis using that claim_json_ok json_parse_print by blast
qed

end
