(* ===== verification/Matcher.thy ===== *)
theory Matcher
  imports Bodies
begin

text \<open>
  A matcher at work: it claims releases over \<open>POST /queue/claim\<close>, reads the JSON of the reply, and
  reports a verdict on each over \<open>POST /submit\<close>, with the infohash and the claim token copied from
  the reply. The matcher is not part of the repository; \<open>docs/design.md\<close> says what it does.
\<close>

section \<open>Definitions\<close>

datatype verdict = IsMatch string string | NoMatch string | Suppress string

fun verdict_status :: "verdict \<Rightarrow> string" where
  "verdict_status (IsMatch ref c) = ''matched''"
| "verdict_status (NoMatch why) = ''unmatched''"
| "verdict_status (Suppress why) = ''suppressed''"

fun verdict_members :: "verdict \<Rightarrow> (string \<times> json) list" where
  "verdict_members (IsMatch ref c) = [(''status'', json_str ''matched''), (''ref'', json_str ref), (''confidence'', JNum c)]"
| "verdict_members (NoMatch why) = [(''status'', json_str ''unmatched''), (''reason'', json_str why)]"
| "verdict_members (Suppress why) = [(''status'', json_str ''suppressed''), (''reason'', json_str why)]"

text \<open>A verdict the service can accept: its texts are UTF-8, its ref is one, its confidence a number.\<close>

fun verdict_ok :: "verdict \<Rightarrow> bool" where
  "verdict_ok (IsMatch ref c) \<longleftrightarrow> ValidateRef ref = None \<and> utf8_valid ref \<and> json_literal c \<and> ParseFloat c \<noteq> None"
| "verdict_ok (NoMatch why) \<longleftrightarrow> utf8_valid why"
| "verdict_ok (Suppress why) \<longleftrightarrow> utf8_valid why"

definition claim_request :: "int \<Rightarrow> int \<Rightarrow> request" where
  "claim_request limit secs =
     \<lparr>qMethod = ''POST'', qPath = ''/queue/claim'',
      qBody = Some (json_print (JObj [(''limit'', json_integer limit), (''lease_seconds'', json_integer secs)]))\<rparr>"

text \<open>The report on an item of the reply.\<close>

fun members_of :: "json \<Rightarrow> (string \<times> json) list" where
  "members_of (JObj ms) = ms"
| "members_of v = []"

definition submit_request :: "json \<Rightarrow> verdict \<Rightarrow> request" where
  "submit_request item v =
     \<lparr>qMethod = ''POST'', qPath = ''/submit'',
      qBody = Some (json_print (JObj
        (filter (\<lambda>m. fst m \<in> {''infohash'', ''claim_token''}) (members_of item) @ verdict_members v)))\<rparr>"

fun report_all ::
  "(request \<Rightarrow> 'st \<Rightarrow> http_reply \<times> sample list \<times> 'st) \<Rightarrow> 'st \<Rightarrow> (json \<times> verdict) list \<Rightarrow> http_reply list \<times> 'st" where
  "report_all serve st [] = ([], st)"
| "report_all serve st ((item, v) # rest) =
     (case serve (submit_request item v) st of (resp, _, st1) \<Rightarrow>
      (case report_all serve st1 rest of (resps, st2) \<Rightarrow> (resp # resps, st2)))"

text \<open>What a verdict makes of a release with so many attempts.\<close>

definition settled :: "int \<Rightarrow> verdict \<Rightarrow> release \<Rightarrow> bool" where
  "settled attempts v r \<longleftrightarrow>
     (case v of
        IsMatch ref _ \<Rightarrow> r_match_status r = Matched \<and> r_ref r = Some ref
      | Suppress _ \<Rightarrow> r_match_status r = Suppressed
      | NoMatch _ \<Rightarrow> r_match_status r \<in> {Unmatched, Exhausted} \<and> r_attempt_count r = attempts + 1)"

text \<open>The texts of the raw items are UTF-8, as in a database with that encoding.\<close>

definition texts_ok :: "database \<Rightarrow> bool" where
  "texts_ok db \<longleftrightarrow> (\<forall>i \<in> set (raw_items db). utf8_valid (i_source i) \<and> utf8_valid (i_source_id i) \<and>
     utf8_valid (i_title i) \<and> (case i_url i of None \<Rightarrow> True | Some u \<Rightarrow> utf8_valid u))"

section \<open>Lemmas\<close>

text \<open>What \<open>/submit\<close> reads from a report.\<close>

definition verdict_request :: "ClaimItemResult \<Rightarrow> verdict \<Rightarrow> SubmitRequest" where
  "verdict_request it v =
     \<lparr>srInfohash = cirInfohash it, srClaimToken = cirClaimToken it, srStatus = verdict_status v,
      srRef = (case v of IsMatch ref _ \<Rightarrow> ref | _ \<Rightarrow> []),
      srConfidence = (case v of IsMatch _ c \<Rightarrow> map_option float_bits (ParseFloat c) | _ \<Rightarrow> None),
      srReason = (case v of IsMatch _ _ \<Rightarrow> [] | NoMatch why \<Rightarrow> why | Suppress why \<Rightarrow> why)\<rparr>"

lemma verdict_request_simps [simp]:
  "srInfohash (verdict_request it v) = cirInfohash it" "srClaimToken (verdict_request it v) = cirClaimToken it"
  "srStatus (verdict_request it v) = verdict_status v"
  by (simp_all add: verdict_request_def)

lemma submit_request_decoded:
  assumes "claim_item_text it" "in_int64 (cirClaimToken it)" "verdict_ok v"
  shows "Option.bind (qBody (submit_request (JObj (claim_item_members it)) v)) decode_submit = Some (verdict_request it v)"
proof -
  let ?ms = "[(''infohash'', json_str (cirInfohash it)), (''claim_token'', json_integer (cirClaimToken it))] @ verdict_members v"
  have "utf8_valid ''matched''" "utf8_valid ''unmatched''" "utf8_valid ''suppressed''"
    by (rule utf8_valid_ascii, simp add: byte_of_def)+
  then have "json_ok (JObj ?ms)" "json_depth (JObj ?ms) \<le> 10000"
    using assms body_keys by (cases v; simp add: claim_item_text_def)+
  from json_unmarshal_print [OF this, of submit_member zero_submit] assms(2,3) show ?thesis
    by (cases v) (auto simp: submit_request_def claim_item_members_def decode_submit_def json_struct_def submit_member_def
        key_is_def json_keys json_int_def json_string_def json_ptr_def json_float_def atoi_itoa zero_submit_def verdict_request_def
        simp del: json_fold.simps json_print.simps)
qed

text \<open>One report, on a release whose lease the matcher holds.\<close>

abbreviation serve :: "(time \<Rightarrow> int) \<Rightarrow> (nat \<Rightarrow> Store) \<Rightarrow> Takuhai option \<Rightarrow> request \<Rightarrow> backend \<Rightarrow> backend outcome" where
  "serve loc env m r st \<equiv> ServeHTTP go_decoders loc (service env m) st r"

lemma serve_paths:
  "serve loc env m (submit_request item v) st = handleSubmit go_decoders (service env m) st (submit_request item v)"
  "serve loc env m (claim_request limit secs) st =
     handleClaim go_decoders loc (service env m) st (claim_request limit secs)"
  by (simp_all add: ServeHTTP_def submit_request_def claim_request_def)

lemma submit_step:
  assumes "db_inv (bDb st)" "reliable (env (bCalls st))" "verdict_ok v" "claim_item_text it" "in_int64 (cirClaimToken it)"
    and "find_release (bDb st) (cirInfohash it) = Some r" "r_claim_token r = cirClaimToken it"
    and "lease_live (clock (env (bCalls st))) r"
  obtains ms st' r' where
    "serve loc env m (submit_request (JObj (claim_item_members it)) v) st = (reply 200 OkReply, ms, st')"
    "bCalls st' = Suc (bCalls st)" "db_inv (bDb st')" "find_release (bDb st') (cirInfohash it) = Some r'"
    "settled (r_attempt_count r) v r'"
    "\<forall>ih. ih \<noteq> cirInfohash it \<longrightarrow> find_release (bDb st') ih = find_release (bDb st) ih"
proof -
  let ?s = "env (bCalls st)" and ?req = "verdict_request it v"
  let ?u = "\<lparr>spInfohash = srInfohash ?req, spClaimToken = srClaimToken ?req, spStatus = srStatus ?req,
    spRef = srRef ?req, spConfidence = srConfidence ?req, spReason = srReason ?req\<rparr>"
  have valid: "validateSubmit ?u = None"
    using assms(3) by (cases v) (simp_all add: validateSubmit_def verdict_request_def)
  have "holds_lease ?s ?u r" using assms(7,8) by (simp add: holds_lease_def)
  with Submit_result [OF assms(2,1), of ?u] valid assms(6) have "fst (Submit ?s (bDb st) ?u) = Inr ()" by simp
  then obtain db' where sub: "Submit ?s (bDb st) ?u = (Inr (), db')" by (metis prod.collapse)
  from Submit_changes [OF assms(1) sub] assms(6) obtain r' where r': "find_release db' (cirInfohash it) = Some r'"
    "r_attempt_count r' = r_attempt_count r + (if verdict_status v = ''unmatched'' then 1 else 0)"
    "r_match_status r' = (if verdict_status v = ''matched'' then Matched else if verdict_status v = ''suppressed'' then Suppressed
       else if r_attempt_count r' \<ge> QueueMaxAttempts (cfg ?s) then Exhausted else Unmatched)"
    "r_ref r' = (if r_match_status r' = Matched then Some (spRef ?u) else None)"
    "\<forall>ih. ih \<noteq> cirInfohash it \<longrightarrow> find_release db' ih = find_release (bDb st) ih"
    by auto
  have "settled (r_attempt_count r) v r'"
    using r'(2-4) by (cases v) (auto simp: settled_def verdict_request_def)
  moreover have "verdict_status v \<in> {''matched'', ''unmatched'', ''suppressed''}" by (cases v) simp_all
  then have "SubmitTyped (New (postgres env)) st ?req = (Inr (), st\<lparr>bDb := db', bCalls := Suc (bCalls st)\<rparr>)"
    using sub by (simp add: typed_defs write_call_def verdict_request_def)
  with submit_request_decoded [OF assms(4,5,3)]
  have "serve loc env m (submit_request (JObj (claim_item_members it)) v) st =
      (reply 200 OkReply, m_Submit m (srStatus ?req) ''ok'' (srConfidence ?req), st\<lparr>bDb := db', bCalls := Suc (bCalls st)\<rparr>)"
    unfolding serve_paths
    by (auto simp: handleSubmit_def requirePost_def go_decoders_def submit_request_def NewWithMetrics_def bind_eq_Some_conv)
  moreover have "db_inv db'" using db_inv_Submit [OF assms(1), of ?s ?u] sub by simp
  ultimately show thesis using r'(1,5)
    by (intro that [of "m_Submit m (srStatus ?req) ''ok'' (srConfidence ?req)" "st\<lparr>bDb := db', bCalls := Suc (bCalls st)\<rparr>" r'])
      simp_all
qed

text \<open>All reports, one after the other.\<close>

lemma report_all_settles:
  assumes "db_inv (bDb st)" and "distinct (map (cirInfohash \<circ> fst) ivs)"
    and "\<forall>n. bCalls st \<le> n \<and> n < bCalls st + length ivs \<longrightarrow> reliable (env n) \<and> clock (env n) < expires"
    and "\<forall>(it, v) \<in> set ivs. verdict_ok v \<and> claim_item_text it \<and> in_int64 (cirClaimToken it) \<and>
      (\<exists>r. find_release (bDb st) (cirInfohash it) = Some r \<and> r_claim_token r = cirClaimToken it \<and>
         r_attempt_count r = cirAttemptCount it \<and> r_lease_expires_at r = Some expires)"
  shows "\<exists>st'. report_all (serve loc env m) st (map (\<lambda>(it, v). (JObj (claim_item_members it), v)) ivs) =
      (replicate (length ivs) (reply 200 OkReply), st') \<and>
    (\<forall>(it, v) \<in> set ivs. \<exists>r. find_release (bDb st') (cirInfohash it) = Some r \<and> settled (cirAttemptCount it) v r) \<and>
    (\<forall>ih. ih \<notin> set (map (cirInfohash \<circ> fst) ivs) \<longrightarrow> find_release (bDb st') ih = find_release (bDb st) ih)"
  using assms
proof (induction ivs arbitrary: st)
  case (Cons iv ivs)
  obtain it v where iv: "iv = (it, v)" by (cases iv)
  from Cons.prems(4) iv obtain r where r: "verdict_ok v" "claim_item_text it" "in_int64 (cirClaimToken it)"
    "find_release (bDb st) (cirInfohash it) = Some r" "r_claim_token r = cirClaimToken it"
    "r_attempt_count r = cirAttemptCount it" "r_lease_expires_at r = Some expires" by auto
  have "reliable (env (bCalls st))" "lease_live (clock (env (bCalls st))) r"
    using Cons.prems(3) r(7) by (simp_all add: lease_live_def)
  from submit_step [where env = env and loc = loc and m = m, OF Cons.prems(1) this(1) r(1-5) this(2)] obtain ms st1 r1 where st1:
    "serve loc env m (submit_request (JObj (claim_item_members it)) v) st = (reply 200 OkReply, ms, st1)"
    "bCalls st1 = Suc (bCalls st)" "db_inv (bDb st1)" "find_release (bDb st1) (cirInfohash it) = Some r1"
    "settled (r_attempt_count r) v r1"
    "\<forall>ih. ih \<noteq> cirInfohash it \<longrightarrow> find_release (bDb st1) ih = find_release (bDb st) ih" .
  have other: "cirInfohash (fst iv') \<noteq> cirInfohash it" if "iv' \<in> set ivs" for iv'
    using Cons.prems(2) that iv by (auto simp: image_iff)
  have "\<exists>st'. report_all (serve loc env m) st1 (map (\<lambda>(it, v). (JObj (claim_item_members it), v)) ivs) =
      (replicate (length ivs) (reply 200 OkReply), st') \<and>
    (\<forall>(it, v) \<in> set ivs. \<exists>r. find_release (bDb st') (cirInfohash it) = Some r \<and> settled (cirAttemptCount it) v r) \<and>
    (\<forall>ih. ih \<notin> set (map (cirInfohash \<circ> fst) ivs) \<longrightarrow> find_release (bDb st') ih = find_release (bDb st1) ih)"
    using Cons.prems st1(2,3,6) other by (intro Cons.IH) (auto simp: case_prod_beta)
  then obtain st' where st': "report_all (serve loc env m) st1 (map (\<lambda>(it, v). (JObj (claim_item_members it), v)) ivs) =
      (replicate (length ivs) (reply 200 OkReply), st')"
    "\<forall>(it, v) \<in> set ivs. \<exists>r. find_release (bDb st') (cirInfohash it) = Some r \<and> settled (cirAttemptCount it) v r"
    "\<forall>ih. ih \<notin> set (map (cirInfohash \<circ> fst) ivs) \<longrightarrow> find_release (bDb st') ih = find_release (bDb st1) ih" by blast
  have "cirInfohash it \<notin> set (map (cirInfohash \<circ> fst) ivs)" using Cons.prems(2) iv by simp
  with st'(3) st1(4) have "find_release (bDb st') (cirInfohash it) = Some r1" by simp
  with st1 st' r(6) iv show ?case by (intro exI [of _ st']) auto
qed simp

text \<open>The claim, and what its reply says.\<close>

lemma claim_queue_distinct:
  assumes "db_inv db"
  shows "distinct (map r_infohash (take n (claim_queue s db)))"
proof -
  have k: "distinct (map r_infohash (releases db))" using assms by (simp add: db_inv_def keys_ok_def)
  then have "distinct (releases db)" by (simp add: distinct_map)
  then have "distinct (claim_queue s db)" by (simp add: claim_queue_def)
  moreover have "inj_on r_infohash (set (claim_queue s db))"
    using k set_claim_queue by (fastforce simp: distinct_map inj_on_def)
  ultimately have "distinct (map r_infohash (claim_queue s db))" by (simp add: distinct_map)
  then show ?thesis by (metis distinct_take take_map)
qed

lemma claim_item_texts:
  assumes "db_inv db" "texts_ok db" "r \<in> set (releases db)"
  shows "claim_item_text (claim_item_result loc (claimed_release db (lease_row s p r)))"
proof -
  have "utf8_valid (r_infohash r)" using assms by (auto simp: db_inv_def intro: canonical_text)
  moreover have "raw_item_text (raw_item_result loc (raw_item_detail i))" if "i \<in> set (raw_items db)" for i
    using assms(2) that rfc3339_text utf8_valid_ascii [of "[]"]
    by (auto simp: raw_item_text_def raw_item_result_def raw_item_detail_def texts_ok_def nullif_empty_def split: option.splits)
  ultimately show ?thesis
    by (auto simp: claim_item_text_def claim_item_result_def claimed_release_def lease_row_def rfc3339_text list_all_iff items_of_def)
qed

lemma claim_step:
  assumes "db_inv (bDb st)" "reliable (env (bCalls st))" "in_int64 limit" "in_int64 secs"
    and p_def: "p = \<lparr>cpLimit = limit, cpLeaseSeconds = secs\<rparr>"
    and rows_def: "rows = take (nat (claim_limit p)) (claim_queue (env (bCalls st)) (bDb st))"
    and its_def: "its = map (\<lambda>r. claim_item_result loc (claimed_release (bDb st) (lease_row (env (bCalls st)) p r))) rows"
  obtains ms st1 where "serve loc env m (claim_request limit secs) st = (reply 200 (ClaimPayload \<lparr>crpItems = its\<rparr>), ms, st1)"
    "bCalls st1 = Suc (bCalls st)" "db_inv (bDb st1)" "length rows \<le> 500"
    "\<forall>r \<in> set rows. find_release (bDb st1) (r_infohash r) = Some (lease_row (env (bCalls st)) p r)"
proof -
  let ?s = "env (bCalls st)"
  from Claim_served [OF assms(2,1), of p] obtain res db' where c: "Claim ?s (bDb st) p = (Inr res, db')"
    "Items res = map (\<lambda>r. claimed_release (bDb st) (lease_row ?s p r)) rows"
    "map (find_release db' \<circ> clInfohash) (Items res) = map (Some \<circ> lease_row ?s p) rows" "claim_limit p \<le> 500"
    unfolding rows_def by blast
  let ?st1 = "st\<lparr>bDb := db', bCalls := Suc (bCalls st)\<rparr>"
  have "ClaimTyped loc (New (postgres env)) st \<lparr>crqLimit = limit, crqLeaseSeconds = secs\<rparr> = (Inr \<lparr>crpItems = its\<rparr>, ?st1)"
    using c(1,2) by (simp add: typed_defs write_call_def p_def its_def)
  then have "\<exists>ms. serve loc env m (claim_request limit secs) st = (reply 200 (ClaimPayload \<lparr>crpItems = its\<rparr>), ms, ?st1)"
    using decode_claim_printed [OF assms(3,4)] unfolding serve_paths
    by (simp add: handleClaim_def requirePost_def go_decoders_def claim_request_def NewWithMetrics_def del: json_print.simps)
  moreover have "\<forall>r \<in> set rows. find_release db' (r_infohash r) = Some (lease_row ?s p r)"
    using c(3) unfolding c(2) by (simp add: claimed_release_def lease_row_def)
  moreover have "length rows \<le> 500" using c(4) unfolding rows_def by simp
  moreover have "db_inv db'" using db_inv_Claim [OF assms(1), of ?s p] c(1) by simp
  ultimately show thesis using that by fastforce
qed

text \<open>The item of a leased release, and the reports on a list of them.\<close>

definition leased_item :: "(time \<Rightarrow> int) \<Rightarrow> database \<Rightarrow> Store \<Rightarrow> ClaimParams \<Rightarrow> release \<Rightarrow> ClaimItemResult" where
  "leased_item loc db s p r = claim_item_result loc (claimed_release db (lease_row s p r))"

lemma leased_item_simps [simp]:
  "cirInfohash (leased_item loc db s p r) = r_infohash r"
  "cirClaimToken (leased_item loc db s p r) = r_claim_token r + 1"
  "cirAttemptCount (leased_item loc db s p r) = r_attempt_count r"
  by (simp_all add: leased_item_def claim_item_result_def claimed_release_def lease_row_def)

abbreviation leased_json :: "(time \<Rightarrow> int) \<Rightarrow> database \<Rightarrow> Store \<Rightarrow> ClaimParams \<Rightarrow> release \<Rightarrow> json" where
  "leased_json loc db s p r \<equiv> JObj (claim_item_members (leased_item loc db s p r))"

lemma round_settles:
  assumes "db_inv (bDb st1)" and "distinct (map r_infohash rows)"
    and "\<forall>n. bCalls st1 \<le> n \<and> n < bCalls st1 + length rows \<longrightarrow> reliable (env n) \<and> clock (env n) < ts s (lease_expiry s p)"
    and "\<forall>r \<in> set rows. find_release (bDb st1) (r_infohash r) = Some (lease_row s p r) \<and> in_int64 (r_claim_token r + 1) \<and>
      claim_item_text (leased_item loc db s p r)"
    and "\<forall>item. verdict_ok (judge item)"
  shows "\<exists>st2. report_all (serve loc env m) st1 (map (\<lambda>item. (item, judge item)) (map (leased_json loc db s p) rows)) =
      (replicate (length rows) (reply 200 OkReply), st2) \<and>
    (\<forall>r \<in> set rows. \<exists>r'. find_release (bDb st2) (r_infohash r) = Some r' \<and>
       settled (r_attempt_count r) (judge (leased_json loc db s p r)) r')"
proof -
  let ?ivs = "map (\<lambda>r. (leased_item loc db s p r, judge (leased_json loc db s p r))) rows"
  have leased: "r_claim_token (lease_row s p r) = r_claim_token r + 1" "r_attempt_count (lease_row s p r) = r_attempt_count r"
    "r_lease_expires_at (lease_row s p r) = Some (ts s (lease_expiry s p))" for r by (simp_all add: lease_row_def)
  have "\<forall>(it, v) \<in> set ?ivs. verdict_ok v \<and> claim_item_text it \<and> in_int64 (cirClaimToken it) \<and>
      (\<exists>r. find_release (bDb st1) (cirInfohash it) = Some r \<and> r_claim_token r = cirClaimToken it \<and>
         r_attempt_count r = cirAttemptCount it \<and> r_lease_expires_at r = Some (ts s (lease_expiry s p)))"
    using assms(4,5) leased by auto
  moreover have "distinct (map (cirInfohash \<circ> fst) ?ivs)" using assms(2) by (simp add: comp_def)
  moreover have "\<forall>n. bCalls st1 \<le> n \<and> n < bCalls st1 + length ?ivs \<longrightarrow> reliable (env n) \<and> clock (env n) < ts s (lease_expiry s p)"
    using assms(3) by simp
  ultimately show ?thesis
    using report_all_settles [of st1 ?ivs env "ts s (lease_expiry s p)" loc m] assms(1) by (auto simp: comp_def)
qed

section \<open>Properties\<close>

text \<open>
  C17: a matcher gets its work done. On a database of the store whose texts are UTF-8 and whose
  tokens are 64-bit integers, while the calls to the server work and the lease lasts, the reply to a
  claim is a JSON object with the newest claimable releases, as many as asked for or all there are;
  a report on each of them, with the infohash and the claim token as they stand in the reply and a
  verdict of the matcher, is answered 200 every time; and in the end each of these releases has what
  its verdict says: matched with its ref, suppressed, or one attempt more.
\<close>

theorem matcher_round:
  assumes "reachable (bDb st)" and "texts_ok (bDb st)" and "\<forall>r \<in> set (releases (bDb st)). in_int64 (r_claim_token r + 1)"
    and "in_int64 limit" and "in_int64 secs" and "p = \<lparr>cpLimit = limit, cpLeaseSeconds = secs\<rparr>"
    and "s = env (bCalls st)" and "reliable s"
    and "\<forall>n. bCalls st < n \<and> n \<le> bCalls st + 500 \<longrightarrow> reliable (env n) \<and> clock (env n) < ts s (lease_expiry s p)"
    and "\<forall>item. verdict_ok (judge item)"
  shows "\<exists>resp ms st1 items. serve loc env m (claim_request limit secs) st = (resp, ms, st1) \<and> hrStatus resp = 200 \<and>
    json_decode (payload_bytes ftoa err_text (hrBody resp)) = Some (JObj [(''items'', JArr items)]) \<and>
    length items = min (nat (claim_limit p)) (length (claim_queue s (bDb st))) \<and>
    (\<exists>st2. report_all (serve loc env m) st1 (map (\<lambda>item. (item, judge item)) items) =
        (replicate (length items) (reply 200 OkReply), st2) \<and>
      (\<forall>item \<in> set items. \<exists>raw ih n r. map_of (members_of item) ''infohash'' = Some (JStr raw ih) \<and>
         map_of (members_of item) ''attempt_count'' = Some (json_integer n) \<and>
         find_release (bDb st2) ih = Some r \<and> settled n (judge item) r))"
proof -
  let ?rows = "take (nat (claim_limit p)) (claim_queue s (bDb st))"
  let ?its = "map (leased_item loc (bDb st) s p) ?rows" and ?items = "map (leased_json loc (bDb st) s p) ?rows"
  note inv = reachable_inv [OF assms(1)]
  have rel: "reliable (env (bCalls st))" using assms(7,8) by simp
  from claim_step [where env = env and loc = loc and m = m, OF inv rel assms(4-6) refl refl] obtain ms st1 where st1:
    "serve loc env m (claim_request limit secs) st = (reply 200 (ClaimPayload \<lparr>crpItems = ?its\<rparr>), ms, st1)"
    "bCalls st1 = Suc (bCalls st)" "db_inv (bDb st1)" "length ?rows \<le> 500"
    "\<forall>r \<in> set ?rows. find_release (bDb st1) (r_infohash r) = Some (lease_row s p r)"
    unfolding assms(7) leased_item_def by blast
  have rows: "r \<in> set (releases (bDb st))" if "r \<in> set ?rows" for r using that set_claim_queue by (blast dest: in_set_takeD)
  then have texts: "claim_item_text (leased_item loc (bDb st) s p r)" if "r \<in> set ?rows" for r
    unfolding leased_item_def using that claim_item_texts [OF inv assms(2)] by blast
  have "\<exists>st2. report_all (serve loc env m) st1 (map (\<lambda>item. (item, judge item)) ?items) =
      (replicate (length ?rows) (reply 200 OkReply), st2) \<and>
    (\<forall>r \<in> set ?rows. \<exists>r'. find_release (bDb st2) (r_infohash r) = Some r' \<and>
       settled (r_attempt_count r) (judge (leased_json loc (bDb st) s p r)) r')"
    using st1 assms(3,9,10) rows texts claim_queue_distinct [OF inv] by (intro round_settles) auto
  then obtain st2 where st2:
    "report_all (serve loc env m) st1 (map (\<lambda>item. (item, judge item)) ?items) = (replicate (length ?items) (reply 200 OkReply), st2)"
    "\<forall>r \<in> set ?rows. \<exists>r'. find_release (bDb st2) (r_infohash r) = Some r' \<and>
       settled (r_attempt_count r) (judge (leased_json loc (bDb st) s p r)) r'" by (simp only: length_map) blast
  have "json_decode (payload_bytes ftoa err_text (ClaimPayload \<lparr>crpItems = ?its\<rparr>)) = Some (claim_json \<lparr>crpItems = ?its\<rparr>)"
    using texts by (intro claim_json_read) (simp add: list_all_iff)
  then have "json_decode (payload_bytes ftoa err_text (hrBody (reply 200 (ClaimPayload \<lparr>crpItems = ?its\<rparr>)))) =
      Some (JObj [(''items'', JArr ?items)])"
    by (simp add: claim_json_def comp_def reply_def)
  moreover have "\<forall>item \<in> set ?items. \<exists>raw ih n r. map_of (members_of item) ''infohash'' = Some (JStr raw ih) \<and>
      map_of (members_of item) ''attempt_count'' = Some (json_integer n) \<and>
      find_release (bDb st2) ih = Some r \<and> settled n (judge item) r"
    using st2(2) by (fastforce simp: claim_item_members_def)
  moreover have "length ?items = min (nat (claim_limit p)) (length (claim_queue s (bDb st)))" by simp
  moreover have "hrStatus (reply 200 (ClaimPayload \<lparr>crpItems = ?its\<rparr>)) = 200" by (simp add: reply_def)
  ultimately show ?thesis using st1(1) st2(1) by blast
qed

definition sample_claims :: backend where
  "sample_claims = \<lparr>bDb = sample_db1, bCalls = 0\<rparr>"

theorem matcher_round_witness:
  "\<exists>resp ms st1 items st2. serve (\<lambda>_. 0) (\<lambda>_. sample_store 1000) None (claim_request 1 300) sample_claims = (resp, ms, st1) \<and>
    hrStatus resp = 200 \<and> length items = 1 \<and>
    report_all (serve (\<lambda>_. 0) (\<lambda>_. sample_store 1000) None) st1 (map (\<lambda>item. (item, IsMatch ''tvdb:1'' ''0.5'')) items) =
      ([reply 200 OkReply], st2)"
proof -
  let ?p = "\<lparr>cpLimit = 1, cpLeaseSeconds = 300\<rparr>" and ?s = "sample_store 1000"
  have "reachable (bDb sample_claims)" using sample_runs(1) by (simp add: reachable_def sample_claims_def)
  moreover have "texts_ok (bDb sample_claims)" by code_simp
  moreover have "\<forall>r \<in> set (releases (bDb sample_claims)). in_int64 (r_claim_token r + 1)" by code_simp
  moreover have "in_int64 1" "in_int64 300" by (simp_all add: in_int64_def)
  moreover have "reliable ?s" by (simp add: reliable_def sample_store_def sample_pool_def)
  moreover have "clock ?s < ts ?s (lease_expiry ?s ?p)" by code_simp
  moreover have "verdict_ok (IsMatch ''tvdb:1'' ''0.5'')" by code_simp
  ultimately have round: "\<exists>resp ms st1 items. serve (\<lambda>_. 0) (\<lambda>_. ?s) None (claim_request 1 300) sample_claims = (resp, ms, st1) \<and>
      hrStatus resp = 200 \<and> json_decode (payload_bytes (\<lambda>_. []) (\<lambda>_. []) (hrBody resp)) = Some (JObj [(''items'', JArr items)]) \<and>
      length items = min (nat (claim_limit ?p)) (length (claim_queue ?s (bDb sample_claims))) \<and>
      (\<exists>st2. report_all (serve (\<lambda>_. 0) (\<lambda>_. ?s) None) st1 (map (\<lambda>item. (item, IsMatch ''tvdb:1'' ''0.5'')) items) =
          (replicate (length items) (reply 200 OkReply), st2) \<and>
        (\<forall>item \<in> set items. \<exists>raw ih n r. map_of (members_of item) ''infohash'' = Some (JStr raw ih) \<and>
           map_of (members_of item) ''attempt_count'' = Some (json_integer n) \<and>
           find_release (bDb st2) ih = Some r \<and> settled n (IsMatch ''tvdb:1'' ''0.5'') r))"
    by (intro matcher_round [where p = ?p and s = ?s and judge = "\<lambda>_. IsMatch ''tvdb:1'' ''0.5''"]) simp_all
  have "min (nat (claim_limit ?p)) (length (claim_queue ?s (bDb sample_claims))) = 1" by code_simp
  with round show ?thesis by (elim exE conjE) (simp, blast)
qed

end
