(* ===== verification/Pipeline.thy ===== *)
theory Pipeline
  imports Rest_Store Crawl_Server Bodies
begin

text \<open>
  The composition of a crawler with the service, over the bytes of their HTTP bodies: a feeder asks
  the crawler for pages, threading \<open>next_cursor\<close>, and passes the JSON array \<open>posts\<close> of each response
  on to \<open>/ingest\<close>, going on as long as the service answers 200. This is the loop the workflow
  integrations run.
\<close>

section \<open>Definitions\<close>

text \<open>What a client reads of a response of \<open>/crawl\<close>; the posts it keeps as they are.\<close>

definition read_response :: "string \<Rightarrow> (json \<times> string \<times> bool) option" where
  "read_response bytes =
     (case json_decode bytes of
        Some (JObj ms) \<Rightarrow>
          (case (map_of ms ''posts'', map_of ms ''next_cursor'', map_of ms ''has_more'') of
             (Some ps, Some (JStr _ c), Some (JBool b)) \<Rightarrow> Some (ps, c, b)
           | _ \<Rightarrow> None)
      | _ \<Rightarrow> None)"

text \<open>One call of a crawler: the request as JSON, and the response if it is 200.\<close>

definition crawl_call :: "crawl_env \<Rightarrow> crawl_server \<Rightarrow> CrawlRequest \<Rightarrow> (json \<times> string \<times> bool) option" where
  "crawl_call e sv req =
     (case fst (crawl_serve e sv ''POST'' (Some (json_print (crawl_request_json req)))) of
        Crawled r \<Rightarrow> Option.bind (crawl_bytes (ceZone e) r) read_response
      | _ \<Rightarrow> None)"

text \<open>One batch, accepted: the request with the posts was answered 200.\<close>

definition batch_request :: "json \<Rightarrow> request" where
  "batch_request js = \<lparr>qMethod = ''POST'', qPath = ''/ingest'', qBody = Some (ingest_body js)\<rparr>"

definition accepted_batch ::
  "(nat \<Rightarrow> Store) \<Rightarrow> Takuhai option \<Rightarrow> backend \<Rightarrow> json \<Rightarrow> backend \<Rightarrow> bool" where
  "accepted_batch env m st js st' \<longleftrightarrow>
     (\<exists>resp ms. handleIngest go_decoders (service env m) st (batch_request js) = (resp, ms, st') \<and> hrStatus resp = 200)"

inductive fed ::
  "crawl_env \<Rightarrow> crawl_server \<Rightarrow> (nat \<Rightarrow> Store) \<Rightarrow> Takuhai option \<Rightarrow> CrawlRequest \<Rightarrow> backend \<Rightarrow> backend \<Rightarrow> bool"
  for e sv env m where
  last_page: "crawl_call e sv req = Some (js, c, False) \<Longrightarrow> accepted_batch env m st js st' \<Longrightarrow>
    fed e sv env m req st st'"
| more_pages: "crawl_call e sv req = Some (js, c, True) \<Longrightarrow> accepted_batch env m st js st1 \<Longrightarrow>
    fed e sv env m (req\<lparr>crCursor := c\<rparr>) st1 st' \<Longrightarrow> fed e sv env m req st st'"

inductive_cases fedE: "fed e sv env m req st st'"

text \<open>A request that JSON can carry and that the server accepts.\<close>

definition sound_request :: "crawl_server \<Rightarrow> CrawlRequest \<Rightarrow> duration \<Rightarrow> bool" where
  "sound_request sv req lookback \<longleftrightarrow>
     svSource sv = source (svCrawler sv) \<and> in_int64 (crPageSize req) \<and> utf8_valid (crCursor req) \<and>
     utf8_valid (crLookback req) \<and> ParseLookback (svSource sv) (crLookback req) = Inr lookback"

section \<open>Lemmas\<close>

subsection \<open>The crawler's side\<close>

lemma FormatCursor_text: "utf8_valid (FormatCursor page off)"
proof -
  have "list_all (\<lambda>ch. byte_of ch < 0x80) (itoa i)" for i
    using nat_digits_digits [of "nat i"] nat_digits_digits [of "nat (- i)"]
    by (auto simp: itoa_def list_all_iff is_digit_def byte_of_def)
  then show ?thesis by (intro utf8_valid_ascii) (simp add: FormatCursor_def, simp add: byte_of_def)
qed

lemma crawl_loop_cursor: "fst (crawl_loop c out n w) = Inr r \<Longrightarrow> utf8_valid (NextCursor r)"
proof (induction w rule: crawl_loop_walk_induct [where c = c and out = out and n = n])
  case (step w)
  have empty: "utf8_valid []" by (simp add: utf8_valid_ascii)
  show ?case
  proof (cases c "w_page w" rule: page_rows_cases)
    case 1
    with step(3) show ?thesis by (simp add: crawl_loop_error)
  next
    case 2
    with step empty show ?thesis by (auto simp: crawl_loop_empty [OF 2] split: if_splits)
  next
    case (3 pp)
    with step empty show ?thesis
      by (cases "page_scan out n w pp") (auto simp: crawl_loop_rows [OF 3] response_def FormatCursor_text)
  qed
qed

lemma Crawl_cursor_text: "fst (Crawl c req lookback) = Inr r \<Longrightarrow> utf8_valid (NextCursor r)"
  by (auto simp: Crawl_def Let_def dest!: crawl_loop_cursor split: sum.splits prod.splits)

lemma sound_request_next:
  assumes "sound_request sv req lookback" "fst (Crawl c req' d) = Inr r"
  shows "sound_request sv (req\<lparr>crCursor := NextCursor r\<rparr>) lookback"
  using assms(1) Crawl_cursor_text [OF assms(2)] by (auto simp: sound_request_def)

lemma valid_crawl_request:
  assumes "sound_request sv req lookback" "fst (Crawl (svCrawler sv) req lookback) = Inr r"
  shows "valid_crawl sv (Some (json_print (crawl_request_json req))) = Some (req, lookback)"
proof -
  have "ParseCursor (svSource sv) (crCursor req) \<noteq> Inl err" for err
    using assms by (auto simp: sound_request_def Crawl_def)
  with assms(1) show ?thesis
    by (auto simp: valid_crawl_def sound_request_def decode_crawl_request split: sum.splits)
qed

text \<open>What a feeder reads is the result of the walk, and its posts arrive at \<open>/ingest\<close> as they were.\<close>

lemma crawl_call_reads:
  assumes "sound_request sv req lookback" "fst (Crawl (svCrawler sv) req lookback) = Inr r"
    and "list_all (wire_post (ceZone e)) (Posts r)"
  obtains js where "decode_ingest (ingest_body js) = Some (Posts r)"
    "crawl_call e sv req = None \<or> crawl_call e sv req = Some (js, NextCursor r, HasMore r)"
    "\<forall>bytes. ceWrite e bytes = None \<Longrightarrow> crawl_call e sv req \<noteq> None"
proof -
  note next_ok = Crawl_cursor_text [OF assms(2)] and valid = valid_crawl_request [OF assms(1,2)]
  from crawl_response_read [OF assms(3) next_ok] obtain bytes js where b: "crawl_bytes (ceZone e) r = Some bytes"
    "posts_json (ceZone e) (Posts r) = Some js"
    "json_decode bytes = Some (JObj [(''posts'', js), (''next_cursor'', json_str (NextCursor r)), (''has_more'', JBool (HasMore r))])" .
  have "decode_ingest (ingest_body js) = Some (Posts r)"
    using b(2) by (rule_tac decode_ingest_posts [OF assms(3)]) simp
  moreover have read: "read_response bytes = Some (js, NextCursor r, HasMore r)"
    by (simp add: read_response_def b(3))
  obtain rep ms where rep: "crawl_serve e sv ''POST'' (Some (json_print (crawl_request_json req))) = (rep, ms)"
    by fastforce
  from rep have "crawl_call e sv req = None \<or> crawl_call e sv req = Some (js, NextCursor r, HasMore r)"
    using valid assms(2) b(1) read
    by (cases rule: crawl_serve_cases) (auto simp: crawl_call_def rep split: crawl_reply.splits)
  moreover have "crawl_call e sv req \<noteq> None" if "\<forall>bytes. ceWrite e bytes = None"
    using crawl_serve_ok [OF valid assms(2) encode_crawl_ok [OF assms(3) next_ok that]] b(1) read
    by (simp add: crawl_call_def)
  ultimately show thesis using that by blast
qed

subsection \<open>The service's side\<close>

lemma accepted_batch_records:
  assumes "accepted_batch env m st js st'" "decode_ingest (ingest_body js) = Some posts"
  shows "\<forall>post \<in> set posts. skipped_post post \<or> recorded (bDb st') post"
    "recorded (bDb st) p \<Longrightarrow> recorded (bDb st') p"
proof -
  from assms(1) obtain resp ms where h:
    "handleIngest go_decoders (service env m) st (batch_request js) = (resp, ms, st')" "hrStatus resp = 200"
    by (auto simp: accepted_batch_def)
  have "Option.bind (qBody (batch_request js)) (decIngest go_decoders) = Some posts"
    by (simp add: batch_request_def go_decoders_def assms(2))
  then obtain b ms1 st1 where l:
    "ingest_loop (service env m) 0 empty_batch [] st posts = ((b, no_failure, 200, ''''), ms1, st1)" "bDb st' = bDb st1"
    by (auto intro: handleIngest_ok [OF h] simp: read_call_eq)
  from loop_records [OF l(1)] l(2) show "\<forall>post \<in> set posts. skipped_post post \<or> recorded (bDb st') post" by simp
  from loop_keeps_recorded [of st p env m 0 empty_batch "[]" posts] l
  show "recorded (bDb st) p \<Longrightarrow> recorded (bDb st') p" by simp
qed

lemma accepted_batch_run:
  assumes "accepted_batch env m st js st'"
  shows "runs store_step any_store (bDb st) (bDb st')"
proof -
  from assms obtain resp ms where
    "handleIngest go_decoders (service env m) st (batch_request js) = (resp, ms, st')" by (auto simp: accepted_batch_def)
  with pg.rel_handleIngest [of st go_decoders env m "batch_request js"] show ?thesis by (simp add: store_run_def)
qed

lemma loop_reliable:
  assumes "\<forall>n. reliable (env n)"
  shows "\<exists>b' ms' st'. ingest_loop (service env m) i b ms st posts = ((b', no_failure, 200, ''''), ms', st')"
proof (induction posts arbitrary: i b ms st)
  case (Cons post posts)
  show ?case
  proof (cases "NormalizeInfohash (rpMagnet post)")
    case (Inl e)
    with Cons show ?thesis by (simp add: skip_error)
  next
    case (Inr ih)
    let ?p = "ingestParams post ih"
    obtain res st1 where w: "write_call env (\<lambda>s db. IngestN s db ?p) st = (res, st1)" by fastforce
    then have "res = Inr (ingest_outcome (bDb st) ?p)"
      using IngestN_reliable [of "env (bCalls st)" "bDb st" ?p] assms by (simp add: write_call_eq)
    with Cons Inr w show ?thesis by (simp add: case_prod_beta)
  qed
qed simp

lemma accepted_batch_exists:
  assumes "\<forall>n. reliable (env n)" "length posts \<le> 1000"
    and "\<forall>p \<in> set posts. \<not> missing_source p" "decode_ingest (ingest_body js) = Some posts"
  shows "\<exists>st'. accepted_batch env m st js st'"
proof -
  from loop_reliable [OF assms(1), of m 0 empty_batch "[]" st posts] obtain b ms st1 where l:
    "ingest_loop (service env m) 0 empty_batch [] st posts = ((b, no_failure, 200, ''''), ms, st1)" by blast
  obtain qres st2 where q: "read_call env QueueStats_op st1 = (qres, st2)" by fastforce
  have "reliable (env (bCalls st1))" using assms(1) by simp
  then obtain qs where "qres = Inr qs" using q by (auto simp: read_call_eq QueueStats_op_def Let_def)
  then show ?thesis
    using assms(2-4) l q
    by (auto simp: accepted_batch_def batch_request_def go_decoders_def handleIngest_def ingestBatch_def
        maxBatchPosts_def reply_def)
qed

subsection \<open>The feeder\<close>

lemma fed_run: "fed e sv env m req st st' \<Longrightarrow> runs store_step any_store (bDb st) (bDb st')"
  by (induction rule: fed.induct) (auto intro: accepted_batch_run runs_trans)

lemma fed_records:
  assumes "drained (svCrawler sv) lookback req posts" "sound_request sv req lookback"
    and "list_all (wire_post (ceZone e)) posts" "fed e sv env m req st st'"
  shows "(\<forall>post \<in> set posts. skipped_post post \<or> recorded (bDb st') post) \<and>
    (\<forall>p. recorded (bDb st) p \<longrightarrow> recorded (bDb st') p)"
  using assms
proof (induction arbitrary: st rule: drained.induct)
  case (last_page req r)
  from crawl_call_reads [OF last_page(3,1,4)] last_page(2) obtain js where
    js: "decode_ingest (ingest_body js) = Some (Posts r)"
    "crawl_call e sv req = None \<or> crawl_call e sv req = Some (js, NextCursor r, False)" by auto
  with last_page(5) have "accepted_batch env m st js st'" by (auto elim: fedE)
  from accepted_batch_records [OF this js(1)] show ?case by blast
next
  case (more_pages req r rest)
  have wire: "list_all (wire_post (ceZone e)) (Posts r)" "list_all (wire_post (ceZone e)) rest"
    using more_pages(6) by simp_all
  from crawl_call_reads [OF more_pages(5,1) wire(1)] more_pages(2) obtain js where
    js: "decode_ingest (ingest_body js) = Some (Posts r)"
    "crawl_call e sv req = None \<or> crawl_call e sv req = Some (js, NextCursor r, True)" by auto
  with more_pages(7) obtain st1 where
    st1: "accepted_batch env m st js st1" "fed e sv env m (req\<lparr>crCursor := NextCursor r\<rparr>) st1 st'" by (auto elim: fedE)
  from accepted_batch_records [OF st1(1) js(1)]
    more_pages.IH [OF sound_request_next [OF more_pages(5,1)] wire(2) st1(2)]
  show ?case by auto
qed

lemma drained_fed:
  assumes "drained (svCrawler sv) lookback req posts" "sound_request sv req lookback"
    and "\<forall>n. reliable (env n)" "\<forall>bytes. ceWrite e bytes = None"
    and "\<forall>p \<in> set posts. \<not> missing_source p \<and> wire_post (ceZone e) p"
  shows "\<exists>st'. fed e sv env m req st st'"
  using assms
proof (induction arbitrary: st rule: drained.induct)
  case (last_page req r)
  have "list_all (wire_post (ceZone e)) (Posts r)" using last_page(6) by (simp add: list_all_iff)
  from crawl_call_reads [OF last_page(3,1) this] last_page(2,5) obtain js where
    js: "decode_ingest (ingest_body js) = Some (Posts r)" "crawl_call e sv req = Some (js, NextCursor r, False)" by auto
  have "length (Posts r) \<le> 1000" using Crawl_posts_bound [OF last_page(1)] by simp
  with accepted_batch_exists [OF last_page(4) _ _ js(1)] last_page(6) fed.last_page [OF js(2)] show ?case by blast
next
  case (more_pages req r rest)
  have "list_all (wire_post (ceZone e)) (Posts r)" using more_pages(8) by (simp add: list_all_iff)
  from crawl_call_reads [OF more_pages(5,1) this] more_pages(2,7) obtain js where
    js: "decode_ingest (ingest_body js) = Some (Posts r)" "crawl_call e sv req = Some (js, NextCursor r, True)" by auto
  have "length (Posts r) \<le> 1000" using Crawl_posts_bound [OF more_pages(1)] by simp
  moreover have "\<forall>p \<in> set (Posts r). \<not> missing_source p" using more_pages(8) by simp
  ultimately obtain st1 where st1: "accepted_batch env m st js st1"
    using accepted_batch_exists [OF more_pages(6) _ _ js(1)] by blast
  from more_pages.IH [OF sound_request_next [OF more_pages(5,1)] more_pages(6,7), of st1] more_pages(8)
  obtain st' where "fed e sv env m (req\<lparr>crCursor := NextCursor r\<rparr>) st1 st'" by auto
  from fed.more_pages [OF js(2) st1 this] show ?case by blast
qed

end
