(* ===== verification/Spec2Isabelle.thy ===== *)
theory Spec2Isabelle
  imports Process Dispatch_Bytes Matcher Mcp Pipeline
begin

text \<open>
  Verification of takuhai, a durable index of anime releases: crawlers read the listing pages of
  torrent sites, the service stores their posts under the infohash of the magnet link, leases
  releases that are not matched yet to an external matcher, records what the matcher reports, and
  lists matched releases to agents.

  \<^bold>\<open>The parts and how they work together.\<close> A feeder asks a crawler for posts (\<open>POST /crawl\<close>),
  threading \<open>next_cursor\<close>; the crawler fetches pages, parses them and walks them
  (\<open>sources/\<close>, \<open>pkg/crawl\<close>). The feeder sends the posts to \<open>POST /ingest\<close> of the service
  (\<open>internal/rest\<close>), which normalises the infohash (\<open>internal/infohash\<close>) and writes to the store
  (\<open>internal/store/postgres\<close>). A matcher claims releases and submits results over \<open>/queue/claim\<close>
  and \<open>/submit\<close> (\<open>internal/rest\<close>, \<open>internal/dispatch\<close>). Agents read over MCP (\<open>internal/mcp\<close>). The
  programs \<open>takuhai\<close>, \<open>takuhai-dmhy\<close> and \<open>takuhai-nyaa\<close> read their flags and their environment,
  wire these parts together, serve and shut down (\<open>cmd/\<close>, \<open>sources/*/cmd\<close>).

  \<^bold>\<open>The theories\<close>, each importing those it builds on:

  \<^item> \<open>Takuhai_Prelude\<close>: 64-bit integers, instants and durations, and what the source uses of Go's
    \<open>strings\<close> and \<open>strconv\<close>, on byte strings. \<open>Codec\<close>, \<open>Runs\<close>, \<open>Ticket\<close>, \<open>Pager\<close>, \<open>Seam\<close>: the
    interfaces, as locales (below).
  \<^item> \<open>Infohash\<close>: \<open>internal/infohash\<close>, with base32 and hex. What is accepted spells the 20 bytes it
    returns, and all spellings give one key.
  \<^item> \<open>Refs\<close>, \<open>Gotime\<close>, \<open>Base64\<close>, \<open>Cursor\<close>: \<open>internal/cursor\<close>, the shape of a ref and the
    list cursor down to its bytes, with RFC 3339 times, base64 and the JSON object of the cursor.
  \<^item> \<open>Sql\<close>, \<open>Store\<close>: \<open>db/migrations/00001_init.sql\<close> and \<open>internal/store/postgres/store.go\<close>. The
    database is a record of the three tables and two sequences; an operation takes the store (its
    clock, configuration and connection pool), the database and the parameters, and returns an
    error or a result and the database. \<open>Store_Effects\<close> says what each operation does to each
    table, \<open>Store_Inv\<close> proves the invariant, \<open>Store_Queue\<close> the work queue, \<open>Store_Catalog\<close> the
    catalog, \<open>Store_List\<close> the listing; \<open>Store_Sample\<close> holds the databases of the witnesses.
  \<^item> \<open>Rawpost\<close>, \<open>Metrics\<close>, \<open>Dispatch\<close>, \<open>Rest\<close>: the wire types, \<open>internal/metrics\<close>,
    \<open>internal/dispatch\<close> and \<open>internal/rest\<close>, over any store. \<open>Rest_Store\<close> puts the PostgreSQL store
    behind them. \<open>Service\<close>: the MCP tools, the health check and the configuration. \<open>Mcp_Docs\<close> and
    \<open>Mcp\<close>: \<open>internal/mcp\<close>, the texts of the server, the tools as the SDK gets them and their
    structured results; an agent that reads the catalog with them.
  \<^item> \<open>Json\<close>, \<open>Json_Print\<close>: the reader and the printer of \<open>encoding/json\<close> and their round trip.
    \<open>Wire\<close>: the JSON of a post as the crawlers print it and as \<open>/ingest\<close> reads it. \<open>Bodies\<close>: the JSON
    of every other request and result of the service. \<open>Dispatch_Bytes\<close>: the operations of the
    dispatcher from bytes to bytes. \<open>Matcher\<close>: a matcher at work over \<open>/queue/claim\<close> and \<open>/submit\<close>.
  \<^item> \<open>Crawl\<close>: \<open>pkg/crawl/crawl.go\<close>, the page walk. \<open>Lookback\<close>: \<open>pkg/crawl/duration.go\<close>, with
    \<open>time.ParseDuration\<close>. \<open>Crawl_Server\<close>: \<open>pkg/crawl/server.go\<close>. \<open>Cache\<close>: the page cache of DMHY.
  \<^item> \<open>Regexp\<close>, \<open>Floating\<close>, \<open>Html\<close>: Go's regular expressions, the float64 operations and
    \<open>strconv.ParseFloat\<close>, and \<open>html.UnescapeString\<close>. Over them \<open>Dmhy\<close> and \<open>Nyaa\<close>: the page parsers
    \<open>sources/dmhy/html.go\<close>, \<open>sources/dmhy/parse.go\<close> and \<open>sources/nyaa/parse.go\<close>.
  \<^item> \<open>Url\<close>: query strings of \<open>net/url\<close>. \<open>Sources\<close>: the crawlers and servers of the two sources, with
    the page cache of DMHY and the listing address of Nyaa, and the constructors of \<open>pkg/crawl\<close>.
  \<^item> \<open>Flags\<close>: the package \<open>flag\<close>. \<open>Commands\<close>: the configuration of the three programs. \<open>Parse_Cmd\<close>:
    the command \<open>takuhai-dmhy parse\<close>. \<open>Mux\<close>: \<open>http.ServeMux\<close> as of Go 1.26, which \<open>go.mod\<close> asks for. \<open>Process\<close>: the routes of the programs,
    the request log, start and shutdown, the migration runner.
  \<^item> \<open>Pipeline\<close> and this theory: crawler, feeder and service together.

  \<^bold>\<open>What is proved.\<close> Infohash: C1, C2. DMHY pages: C3 (rows), C21 (fields), C27 (sizes and dates
  are exact). Nyaa pages: C6 (rows), C23 (fields), C32 (values). Both: C8 (the end of the archive is
  real). The walk: C4, C5. Posts as JSON: C7. The queue: the invariant C9, refinement of the
  abstract ticket machine C10, fencing C11, exclusion C12, final dispositions C13, bounded attempts
  C14, claims and the lengths of their leases C15, submits C16, a round of a matcher over HTTP C17. The
  catalog: C20, C22, C24, C25. The listing: C26 for the cursor, C28 and C29 for the pages, C19 for an
  agent that reads it over MCP. The service: C31 for \<open>/ingest\<close>, C34 for
  rejections, C18 for a request from the outermost handler to the database, C36 for the metrics. The
  crawler's shell: C37 (lookback), C38 (cache), C39 (\<open>/crawl\<close>). The programs: C30 (configuration),
  C33 (start and shutdown), C35 (the \<open>parse\<close> command). The whole pipeline: C40.

  \<^bold>\<open>The interfaces.\<close> \<open>codec\<close> and \<open>codec_chain\<close> (encoders that compose) are interpreted on base64
  and on the JSON of the list cursor; \<open>step_system\<close> and \<open>forward_simulation\<close> (runs, invariants,
  refinement) on the store's operations, the ticket machine and the page cache; \<open>pager\<close> (pages by key) on the listing;
  \<open>store_seam\<close> and \<open>ingest_seam\<close> (what the service asks of a store) on the PostgreSQL store.

  \<^bold>\<open>Conventions.\<close> Instants are nanoseconds since the epoch as \<open>int\<close>; a zone matters only when a
  time is printed. Durations are 64-bit and wrap around. Strings are byte strings. A confidence
  is the 64 bits of its float64, which the code only copies. Loops are total functions with a
  termination proof. The JSON reader alone has fuel, twice the length of the text, which is enough
  for every text (lemma \<open>json_fuel_enough\<close>).

  \<^bold>\<open>Parameters\<close>, which stand for code outside of the repository: the database server (where a
  statement fails, whether the acknowledgement of a commit is lost, which rows are locked by
  others, the zone of its session); \<open>strconv.FormatFloat\<close>, which prints a confidence; the texts of
  errors that a library words; the check of a result against its schema, which
  tool calls a request contains and how their results are answered, in the MCP library; the HTTP client,
  the file system and the rate limiter; \<open>net/url\<close> on a URL as a whole; the table of
  named character references of \<open>html\<close>; goose and what the operating system answers; what the
  platform makes of a float64 outside of \<open>int64\<close>. The clock is read once per operation, as the code does.

  \<^bold>\<open>Not modelled\<close>: logging but for the request log, which nothing depends on; the MCP protocol with
  its sessions and the Prometheus registry, which are libraries (of what the registry asks of a sample,
  that label values are UTF-8 is left out); constructors and wrappers that only tests call
  (\<open>newServerWithFetcher\<close>, \<open>fetchPage\<close>, \<open>readFileURL\<close>); the conformance harness, which starts a
  database container for tests.
\<close>

section \<open>Properties that span components\<close>

text \<open>
  C40: the pipeline loses nothing. Over a stable archive of posts that JSON can carry, a feeder that
  threads \<open>next_cursor\<close> through \<open>POST /crawl\<close> from the empty cursor and passes the JSON array of the
  posts of every response on as the body of a \<open>POST /ingest\<close> ends with every in-window row of the
  archive that has a v1 infohash in the catalog, in a database that is reached by store operations;
  and with connections that do not fail, a working store, and rows that have a source and a source
  id, the feeder does get to the end.
\<close>

theorem pipeline_complete:
  assumes "archive (svCrawler sv) pg final" and "sound_request sv req lookback" and "crCursor req = []"
    and "\<forall>p \<in> set (concat (map pg [1..final])). wire_post (ceZone e) p"
  shows "(\<forall>st'. fed e sv env m req st st' \<longrightarrow>
      runs store_step any_store (bDb st) (bDb st') \<and>
      (\<forall>post \<in> set (takeWhile (\<lambda>p. \<not> crawl_out (svCrawler sv) lookback p) (concat (map pg [1..final]))).
         skipped_post post \<or> recorded (bDb st') post)) \<and>
    ((\<forall>n. reliable (env n)) \<and> (\<forall>bytes. ceWrite e bytes = None) \<and>
     (\<forall>p \<in> set (concat (map pg [1..final])). \<not> missing_source p) \<longrightarrow>
      (\<exists>st'. fed e sv env m req st st'))"
proof -
  let ?posts = "takeWhile (\<lambda>p. \<not> crawl_out (svCrawler sv) lookback p) (concat (map pg [1..final]))"
  have d: "drained (svCrawler sv) lookback req ?posts" unfolding drained_start [OF assms(1,3)] ..
  have sub: "set ?posts \<subseteq> set (concat (map pg [1..final]))" by (blast dest: set_takeWhileD)
  with assms(4) have wire: "list_all (wire_post (ceZone e)) ?posts" by (auto simp: list_all_iff)
  have "\<exists>st'. fed e sv env m req st st'" if "\<forall>n. reliable (env n)" "\<forall>bytes. ceWrite e bytes = None"
    "\<forall>p \<in> set (concat (map pg [1..final])). \<not> missing_source p"
    using drained_fed [OF d assms(2) that(1,2)] that(3) sub wire by (meson list_all_iff subsetD)
  with fed_run fed_records [OF d assms(2) wire] show ?thesis by blast
qed

lemma sample_rows_wire: "\<forall>p \<in> set (concat (map sample_page [1..3])). wire_post (ceZone sample_crawl_env) p"
  by code_simp

lemma sample_feed_sound: "sound_request sample_server Crawl.sample_request 0"
proof -
  have "ParseLookback ''dmhy'' [] = Inr 0" by code_simp
  then show ?thesis
    by (simp add: sound_request_def sample_server_def sample_crawler_def Crawl.sample_request_def in_int64_def
        utf8_valid_ascii)
qed

theorem pipeline_complete_witness:
  "\<exists>st'. fed sample_crawl_env sample_server sample_env None Crawl.sample_request sample_backend st'"
proof -
  have "svCrawler sample_server = sample_crawler" by (simp add: sample_server_def)
  moreover have "crCursor Crawl.sample_request = []" by (simp add: Crawl.sample_request_def)
  moreover have "reliable (sample_store 0)" by (simp add: reliable_def sample_store_def sample_pool_def)
  moreover have "\<forall>p \<in> set (concat (map sample_page [1..3])). \<not> missing_source p" by code_simp
  moreover have "\<forall>bytes. ceWrite sample_crawl_env bytes = None" by (simp add: sample_crawl_env_def)
  ultimately show ?thesis
    using pipeline_complete [OF _ sample_feed_sound _ sample_rows_wire] sample_archive by auto
qed

end
